(* ===== verification/Prelude.thy ===== *)
theory Prelude
  imports Main "HOL-Library.Sublist" "HOL-Library.Code_Target_Nat"
begin

text \<open>
  Shared vocabulary of the development.  Go's error returns appear in two shapes: a
  function that returns only an \<open>error\<close> yields an \<open>'e option\<close> (\<open>None\<close> is Go's
  \<open>nil\<close>), and a function that returns a value or an error yields an \<open>'e + 'a\<close>.
  A chain of guarded early returns is \<open>firstErr\<close> over the list of its checks.  The
  list operations are those the code performs on slices: deleting the element at an index
  found by a scan, and appending while keeping the keys distinct.
\<close>

named_theorems result_simps "facts about error results"

type_synonym bytes = string

subsection \<open>Results and early returns\<close>

fun rbind :: "'e + 'a \<Rightarrow> ('a \<Rightarrow> 'e + 'b) \<Rightarrow> 'e + 'b" where
  "rbind (Inl e) f = Inl e"
| "rbind (Inr x) f = f x"

lemma rbind_eq_Inr [result_simps]: "rbind m f = Inr y \<longleftrightarrow> (\<exists>x. m = Inr x \<and> f x = Inr y)"
  by (cases m) auto

lemma rbind_eq_Inl [result_simps]:
  "rbind m f = Inl e \<longleftrightarrow> m = Inl e \<or> (\<exists>x. m = Inr x \<and> f x = Inl e)"
  by (cases m) auto

lemma rbind_cong [fundef_cong]:
  "m = m' \<Longrightarrow> (\<And>x. m' = Inr x \<Longrightarrow> f x = f' x) \<Longrightarrow> rbind m f = rbind m' f'"
  by (cases m') auto

definition check :: "bool \<Rightarrow> 'e \<Rightarrow> 'e option" where
  "check bad e = (if bad then Some e else None)"

lemma check_None [simp]: "check b e = None \<longleftrightarrow> \<not> b"
  by (simp add: check_def)

lemma check_Some [simp]: "check b e = Some e' \<longleftrightarrow> b \<and> e = e'"
  by (auto simp: check_def)

fun firstErr :: "'e option list \<Rightarrow> 'e option" where
  "firstErr [] = None"
| "firstErr (None # es) = firstErr es"
| "firstErr (Some e # es) = Some e"

lemma firstErr_Cons: "firstErr (x # xs) = (case x of None \<Rightarrow> firstErr xs | Some e \<Rightarrow> Some e)"
  by (cases x) auto

lemma firstErr_None [result_simps]: "firstErr es = None \<longleftrightarrow> (\<forall>e \<in> set es. e = None)"
  by (induction es rule: firstErr.induct) auto

lemma firstErr_append:
  "firstErr (es @ fs) = (case firstErr es of None \<Rightarrow> firstErr fs | Some e \<Rightarrow> Some e)"
  by (induction es rule: firstErr.induct) auto

text \<open>A loop that returns the first error of its elements, keeping the results in order.\<close>

fun mapRes :: "('a \<Rightarrow> 'e + 'b) \<Rightarrow> 'a list \<Rightarrow> 'e + 'b list" where
  "mapRes f [] = Inr []"
| "mapRes f (x # xs) = rbind (f x) (\<lambda>y. rbind (mapRes f xs) (\<lambda>ys. Inr (y # ys)))"

lemma mapRes_cong [fundef_cong]:
  "xs = ys \<Longrightarrow> (\<And>x. x \<in> set ys \<Longrightarrow> f x = g x) \<Longrightarrow> mapRes f xs = mapRes g ys"
  by (induction ys arbitrary: xs) auto

lemma mapRes_Inr: "mapRes f xs = Inr ys \<Longrightarrow> list_all2 (\<lambda>x y. f x = Inr y) xs ys"
  by (induction xs arbitrary: ys) (auto simp: result_simps)

lemma mapRes_length: "mapRes f xs = Inr ys \<Longrightarrow> length ys = length xs"
  by (drule mapRes_Inr) (simp add: list_all2_lengthD)

lemma mapRes_all: "mapRes f xs = Inr ys \<Longrightarrow> x \<in> set xs \<Longrightarrow> \<exists>y. f x = Inr y"
  by (induction xs arbitrary: ys) (auto simp: result_simps)

lemma mapRes_in:
  assumes "mapRes f xs = Inr ys" and "y \<in> set ys"
  shows "\<exists>x \<in> set xs. f x = Inr y"
  using assms by (induction xs arbitrary: ys) (auto simp: result_simps)

subsection \<open>Slices\<close>

text \<open>Deleting the first element that satisfies a test, as a scan with
  \<open>append(xs[:i], xs[i+1:]...)\<close> and a \<open>break\<close> does.\<close>

fun deleteFirst :: "('a \<Rightarrow> bool) \<Rightarrow> 'a list \<Rightarrow> 'a list" where
  "deleteFirst P [] = []"
| "deleteFirst P (x # xs) = (if P x then xs else x # deleteFirst P xs)"

lemma set_deleteFirst_subset: "set (deleteFirst P xs) \<subseteq> set xs"
  by (induction xs) auto

lemma distinct_deleteFirst: "distinct xs \<Longrightarrow> distinct (deleteFirst P xs)"
  by (induction xs) (use set_deleteFirst_subset in force)+

lemma length_deleteFirst: "\<exists>x \<in> set xs. P x \<Longrightarrow> length (deleteFirst P xs) = length xs - 1"
proof (induction xs)
  case (Cons a xs)
  show ?case
  proof (cases "P a")
    case False
    with Cons.prems have "\<exists>x \<in> set xs. P x" by simp
    with Cons.IH have "length (deleteFirst P xs) = length xs - 1" by blast
    moreover have "0 < length xs" using \<open>\<exists>x \<in> set xs. P x\<close> by (cases xs) auto
    ultimately show ?thesis using False by simp
  qed simp
qed simp

lemma length_deleteFirst_le: "length (deleteFirst P xs) \<le> length xs"
  by (induction xs) auto

lemma deleteFirst_eq_remove1: "deleteFirst (\<lambda>y. y = x) xs = remove1 x xs"
  by (induction xs) auto

lemma find_Some_in: "List.find P xs = Some x \<Longrightarrow> x \<in> set xs \<and> P x"
  by (induction xs) (auto split: if_splits)

lemma find_None_all: "List.find P xs = None \<longleftrightarrow> (\<forall>x \<in> set xs. \<not> P x)"
  by (induction xs) auto

subsection \<open>Runs of labelled steps\<close>

inductive trace :: "('e \<Rightarrow> 's \<Rightarrow> 's \<Rightarrow> bool) \<Rightarrow> 's \<Rightarrow> 'e list \<Rightarrow> 's \<Rightarrow> bool" for step where
  trace_nil: "trace step s [] s"
| trace_cons: "step e s s1 \<Longrightarrow> trace step s1 es s2 \<Longrightarrow> trace step s (e # es) s2"

lemma trace_append:
  "trace step s es s1 \<Longrightarrow> trace step s1 fs s2 \<Longrightarrow> trace step s (es @ fs) s2"
proof (induction rule: trace.induct)
  case (trace_cons e s s1 es s2)
  then show ?case by (metis append_Cons trace.trace_cons)
qed simp

lemma trace_appendE:
  assumes "trace step s (es @ fs) s2"
  obtains s1 where "trace step s es s1" "trace step s1 fs s2"
  using assms
proof (induction es arbitrary: s thesis)
  case Nil
  from Nil.prems(1) [OF trace_nil] Nil.prems(2) show ?case by simp
next
  case (Cons e es)
  from Cons.prems(2) obtain s' where "step e s s'" "trace step s' (es @ fs) s2"
    by (cases rule: trace.cases) auto
  from Cons.IH [OF _ this(2)] Cons.prems(1) trace_cons [of step, OF this(1)] show ?case by metis
qed


lemma trace_map:
  assumes "\<And>e s s'. step e s s' \<Longrightarrow> step' (f e) s s'"
  shows "trace step s es s' \<Longrightarrow> trace step' s (map f es) s'"
  by (induction rule: trace.induct) (auto intro: trace.intros assms)

end
