(* ===== verification/Go_Text.thy ===== *)
theory Go_Text
  imports Prelude
begin

text \<open>
  The parts of Go's text and path libraries the runner uses, over byte strings: UTF-8
  decoding (\<open>unicode/utf8\<close>), trimming and searching (\<open>strings\<close>), decimal parsing
  (\<open>strconv\<close>), and the Unix rules of \<open>path/filepath\<close> (\<open>Clean\<close>, \<open>Join\<close>,
  \<open>Split\<close>, \<open>Match\<close>).  A Go \<open>string\<close> is a list of bytes, so \<open>length\<close> is Go's
  \<open>len\<close>.  The Unicode case-folding table is data of Go's \<open>unicode\<close> package and is
  an argument (\<open>fld\<close>, a rune to the representative of its folding orbit).
\<close>

subsection \<open>Bytes and runes\<close>

definition byte :: "char \<Rightarrow> nat" where
  "byte c = of_char c"

definition runeError :: nat where
  "runeError = 65533"

text \<open>\<open>utf8.RuneStart\<close>: not a continuation byte.\<close>

definition runeStart :: "char \<Rightarrow> bool" where
  "runeStart c \<longleftrightarrow> \<not> (128 \<le> byte c \<and> byte c < 192)"

definition within :: "nat \<Rightarrow> nat \<Rightarrow> char \<Rightarrow> bool" where
  "within lo hi c \<longleftrightarrow> lo \<le> byte c \<and> byte c \<le> hi"

text \<open>\<open>utf8.DecodeRuneInString\<close>: the first rune and its width; an invalid sequence
  decodes as \<open>RuneError\<close> of width 1.\<close>

fun decodeRune :: "string \<Rightarrow> nat \<times> nat" where
  "decodeRune [] = (runeError, 0)"
| "decodeRune (c0 # cs) =
    (let b0 = byte c0 in
     if b0 < 128 then (b0, 1)
     else if b0 < 194 \<or> 244 < b0 then (runeError, 1)
     else if b0 < 224 then
       (case cs of
          c1 # _ \<Rightarrow> if within 128 191 c1 then ((b0 - 192) * 64 + (byte c1 - 128), 2)
                     else (runeError, 1)
        | _ \<Rightarrow> (runeError, 1))
     else if b0 < 240 then
       (case cs of
          c1 # c2 # _ \<Rightarrow>
            if within (if b0 = 224 then 160 else 128) (if b0 = 237 then 159 else 191) c1
               \<and> within 128 191 c2
            then ((b0 - 224) * 4096 + (byte c1 - 128) * 64 + (byte c2 - 128), 3)
            else (runeError, 1)
        | _ \<Rightarrow> (runeError, 1))
     else
       (case cs of
          c1 # c2 # c3 # _ \<Rightarrow>
            if within (if b0 = 240 then 144 else 128) (if b0 = 244 then 143 else 191) c1
               \<and> within 128 191 c2 \<and> within 128 191 c3
            then ((b0 - 240) * 262144 + (byte c1 - 128) * 4096 + (byte c2 - 128) * 64
                  + (byte c3 - 128), 4)
            else (runeError, 1)
        | _ \<Rightarrow> (runeError, 1)))"

lemma decodeRune_width_pos: "s \<noteq> [] \<Longrightarrow> 0 < snd (decodeRune s)"
  by (cases s) (auto simp: Let_def split: list.splits)

lemma decodeRune_width_le: "snd (decodeRune s) \<le> length s"
  by (cases s) (auto simp: Let_def split: list.splits)

lemma decodeRune_ascii: "byte c < 128 \<Longrightarrow> decodeRune (c # cs) = (byte c, 1)"
  by simp

declare decodeRune.simps(2) [simp del]

text \<open>A \<open>range\<close> loop over a string: each rune with the bytes it was decoded from.\<close>

function segments :: "string \<Rightarrow> (nat \<times> string) list" where
  "segments s =
    (if s = [] then []
     else let rn = decodeRune s in (fst rn, take (snd rn) s) # segments (drop (snd rn) s))"
  by pat_completeness auto
termination
  by (relation "measure length") (auto simp: decodeRune_width_pos)

declare segments.simps [simp del]

lemma segments_Nil [simp]: "segments [] = []"
  by (simp add: segments.simps)

lemma concat_segments [simp]: "concat (map snd (segments s)) = s"
proof (induction s rule: segments.induct)
  case (1 s)
  then show ?case by (cases "s = []") (simp_all add: segments.simps [of s] Let_def)
qed

definition runes :: "string \<Rightarrow> nat list" where
  "runes s = map fst (segments s)"

text \<open>\<open>utf8.ValidString\<close>: no segment is an undecodable byte.\<close>

definition validString :: "string \<Rightarrow> bool" where
  "validString s = (\<forall>(r, b) \<in> set (segments s). \<not> (r = runeError \<and> length b = 1))"

text \<open>A rune that decodes is decoded from its own bytes alone, so valid strings concatenate.\<close>

definition badSegment :: "nat \<times> string \<Rightarrow> bool" where
  "badSegment x \<longleftrightarrow> fst x = runeError \<and> length (snd x) = 1"

lemma validString_iff: "validString s \<longleftrightarrow> (\<forall>x \<in> set (segments s). \<not> badSegment x)"
  by (auto simp: validString_def badSegment_def)

lemma decodeRune_local:
  assumes "decodeRune s = (r, w)" and "\<not> (r = runeError \<and> w = 1)" and "s \<noteq> []"
  shows "decodeRune (take w s @ t) = (r, w)"
proof -
  obtain c cs where s: "s = c # cs" using assms(3) by (cases s) auto
  consider "w = 1" | "w = 2" | "w = 3" | "w = 4"
    using assms(1) unfolding s decodeRune.simps Let_def by (auto split: if_splits list.splits)
  then show ?thesis
    using assms unfolding s decodeRune.simps Let_def
    by cases (auto simp: decodeRune.simps(2) Let_def split: if_splits list.splits)
qed

lemma segments_unit:
  assumes "decodeRune b = (r, length b)" and "b \<noteq> []" and "\<not> badSegment (r, b)"
  shows "segments (b @ t) = (r, b) # segments t"
proof -
  have "decodeRune (b @ t) = (r, length b)"
    using decodeRune_local [OF assms(1) _ assms(2), of t] assms(3) by (simp add: badSegment_def)
  then show ?thesis using assms(2) by (simp add: segments.simps [of "b @ t"])
qed

lemma segment_self:
  "x \<in> set (segments s) \<Longrightarrow> \<not> badSegment x \<Longrightarrow>
     decodeRune (snd x) = (fst x, length (snd x)) \<and> snd x \<noteq> []"
proof (induction s rule: segments.induct)
  case (1 s)
  show ?case
  proof (cases "s = []")
    case False
    obtain r w where d: "decodeRune s = (r, w)" by force
    have w: "0 < w" "w \<le> length s"
      using decodeRune_width_pos [OF False] decodeRune_width_le [of s] d by simp_all
    from "1.prems"(1) False d have "x = (r, take w s) \<or> x \<in> set (segments (drop w s))"
      by (simp add: segments.simps [of s])
    then show ?thesis
    proof
      assume x: "x = (r, take w s)"
      with w "1.prems"(2) have "\<not> (r = runeError \<and> w = 1)" by (auto simp: badSegment_def)
      from decodeRune_local [OF d this False, of "[]"] x w show ?thesis by auto
    next
      assume "x \<in> set (segments (drop w s))"
      with "1.IH" [OF False] "1.prems"(2) d show ?thesis by simp
    qed
  qed (use "1.prems" in simp)
qed

lemma segments_concat_valid:
  "(\<forall>x \<in> set segs. decodeRune (snd x) = (fst x, length (snd x)) \<and> snd x \<noteq> [] \<and> \<not> badSegment x) \<Longrightarrow>
     segments (concat (map snd segs)) = segs"
proof (induction segs)
  case (Cons x segs)
  from Cons.prems have "segments (snd x @ concat (map snd segs))
      = (fst x, snd x) # segments (concat (map snd segs))"
    by (intro segments_unit) auto
  with Cons show ?case by simp
qed simp

text \<open>In a valid string the bytes that start a rune are exactly the segment boundaries.\<close>

lemma rune_bytes:
  assumes "decodeRune b = (r, length b)" and "b \<noteq> []" and "\<not> badSegment (r, b)"
  shows "runeStart (hd b) \<and> (\<forall>c \<in> set (tl b). \<not> runeStart c) \<and> length b \<le> 4"
proof -
  obtain c cs where b: "b = c # cs" using assms(2) by (cases b) auto
  show ?thesis
    using assms unfolding b decodeRune.simps Let_def
    by (auto simp: badSegment_def runeStart_def within_def split: if_splits list.splits)
qed

lemma ascii_rune_bytes:
  assumes "decodeRune b = (r, length b)" and "b \<noteq> []" and "r < 128"
  shows "length b = 1"
proof -
  obtain c cs where b: "b = c # cs" using assms(2) by (cases b) auto
  show ?thesis
    using assms unfolding b decodeRune.simps Let_def
    by (auto simp: runeError_def within_def split: if_splits list.splits)
qed

definition goodSegments :: "(nat \<times> string) list \<Rightarrow> bool" where
  "goodSegments segs \<longleftrightarrow>
     (\<forall>x \<in> set segs. decodeRune (snd x) = (fst x, length (snd x)) \<and> snd x \<noteq> [] \<and> \<not> badSegment x)"

lemma valid_goodSegments: "validString s \<Longrightarrow> goodSegments (segments s)"
  using segment_self by (auto simp: goodSegments_def validString_iff)

lemma goodSegments_valid: "goodSegments segs \<Longrightarrow> validString (concat (map snd segs))"
  using segments_concat_valid [of segs] by (simp add: goodSegments_def validString_iff)

lemma rune_boundary:
  "goodSegments segs \<Longrightarrow> e < length (concat (map snd segs)) \<Longrightarrow>
   runeStart (concat (map snd segs) ! e) \<Longrightarrow>
   \<exists>a b. segs = a @ b \<and> take e (concat (map snd segs)) = concat (map snd a)
     \<and> drop e (concat (map snd segs)) = concat (map snd b)"
proof (induction segs arbitrary: e)
  case (Cons x segs)
  have x: "decodeRune (snd x) = (fst x, length (snd x))" "snd x \<noteq> []" "\<not> badSegment (fst x, snd x)"
    and g: "goodSegments segs" using Cons.prems(1) by (auto simp: goodSegments_def)
  note rb = rune_bytes [OF x]
  show ?case
  proof (cases "e < length (snd x)")
    case True
    have "e = 0"
    proof (rule ccontr)
      assume "e \<noteq> 0"
      then have "snd x ! e \<in> set (tl (snd x))"
        using True x(2) by (cases "snd x") (auto simp: nth_Cons')
      moreover have "runeStart (snd x ! e)" using Cons.prems(3) True by (simp add: nth_append)
      ultimately show False using rb by blast
    qed
    then show ?thesis by (intro exI [of _ "[]"] exI [of _ "x # segs"]) simp
  next
    case False
    have "e - length (snd x) < length (concat (map snd segs))"
      using False Cons.prems(2) by simp
    moreover have "runeStart (concat (map snd segs) ! (e - length (snd x)))"
      using False Cons.prems(3) by (simp add: nth_append)
    ultimately obtain a b where "segs = a @ b"
      "take (e - length (snd x)) (concat (map snd segs)) = concat (map snd a)"
      "drop (e - length (snd x)) (concat (map snd segs)) = concat (map snd b)"
      using Cons.IH [OF g] by blast
    with False show ?thesis by (intro exI [of _ "x # a"] exI [of _ b]) simp
  qed
qed simp

lemma valid_cut:
  assumes "validString s" and "e < length s" and "runeStart (s ! e)"
  shows "validString (take e s) \<and> validString (drop e s)"
proof -
  note g = valid_goodSegments [OF assms(1)]
  obtain a b where ab: "segments s = a @ b" "take e s = concat (map snd a)" "drop e s = concat (map snd b)"
    using rune_boundary [OF g, of e] assms(2,3) by auto
  have "goodSegments a" "goodSegments b" using g ab(1) by (auto simp: goodSegments_def)
  then show ?thesis using goodSegments_valid ab(2,3) by simp
qed

lemma rune_start_near:
  "goodSegments segs \<Longrightarrow> n < length (concat (map snd segs)) \<Longrightarrow>
   \<exists>e \<le> n. n \<le> e + 3 \<and> runeStart (concat (map snd segs) ! e)"
proof (induction segs arbitrary: n)
  case (Cons x segs)
  have x: "decodeRune (snd x) = (fst x, length (snd x))" "snd x \<noteq> []" "\<not> badSegment (fst x, snd x)"
    and g: "goodSegments segs" using Cons.prems(1) by (auto simp: goodSegments_def)
  note rb = rune_bytes [OF x]
  show ?case
  proof (cases "n < length (snd x)")
    case True
    have "runeStart (concat (map snd (x # segs)) ! 0)" using rb x(2) by (cases "snd x") auto
    then show ?thesis using True rb by (intro exI [of _ 0]) auto
  next
    case False
    then have "n - length (snd x) < length (concat (map snd segs))" using Cons.prems(2) by simp
    from Cons.IH [OF g this] obtain e where "e \<le> n - length (snd x)" "n - length (snd x) \<le> e + 3"
      "runeStart (concat (map snd segs) ! e)" by blast
    with False show ?thesis by (intro exI [of _ "e + length (snd x)"]) (auto simp: nth_append)
  qed
qed simp

text \<open>\<open>strings.EqualFold\<close>, given the folding table.\<close>

definition equalFold :: "(nat \<Rightarrow> nat) \<Rightarrow> string \<Rightarrow> string \<Rightarrow> bool" where
  "equalFold fld s t \<longleftrightarrow> map fld (runes s) = map fld (runes t)"

lemma equalFold_refl [simp]: "equalFold fld s s"
  by (simp add: equalFold_def)

lemma equalFold_sym: "equalFold fld s t \<Longrightarrow> equalFold fld t s"
  by (simp add: equalFold_def)

lemma equalFold_trans: "equalFold fld s t \<Longrightarrow> equalFold fld t u \<Longrightarrow> equalFold fld s u"
  by (simp add: equalFold_def)

text \<open>\<open>unicode.IsSpace\<close>.\<close>

definition isSpace :: "nat \<Rightarrow> bool" where
  "isSpace r \<longleftrightarrow> r \<in> {9, 10, 11, 12, 13, 32, 133, 160, 5760, 8232, 8233, 8239, 8287, 12288}
     \<or> (8192 \<le> r \<and> r \<le> 8202)"

definition trimSpace :: "string \<Rightarrow> string" where
  "trimSpace s =
    concat (map snd (rev (dropWhile (isSpace \<circ> fst)
      (rev (dropWhile (isSpace \<circ> fst) (segments s))))))"

lemma trimSpace_Nil [simp]: "trimSpace [] = []"
  by (simp add: trimSpace_def)

text \<open>\<open>strings.Fields\<close>: the maximal runs of runes that are not white space.\<close>

fun fieldRuns :: "(nat \<times> string) list \<Rightarrow> string \<Rightarrow> string list" where
  "fieldRuns [] cur = (if cur = [] then [] else [cur])"
| "fieldRuns ((r, b) # segs) cur =
    (if isSpace r then (if cur = [] then fieldRuns segs [] else cur # fieldRuns segs [])
     else fieldRuns segs (cur @ b))"

definition fields :: "string \<Rightarrow> string list" where
  "fields s = fieldRuns (segments s) []"

subsection \<open>Searching, splitting, joining\<close>

text \<open>\<open>strings.Index\<close>.\<close>

fun indexOf :: "string \<Rightarrow> string \<Rightarrow> nat option" where
  "indexOf sub [] = (if sub = [] then Some 0 else None)"
| "indexOf sub (c # cs) =
    (if prefix sub (c # cs) then Some 0 else map_option Suc (indexOf sub cs))"

definition contains :: "string \<Rightarrow> string \<Rightarrow> bool" where
  "contains s sub \<longleftrightarrow> indexOf sub s \<noteq> None"

lemma indexOf_prefix: "indexOf sub s = Some i \<Longrightarrow> prefix sub (drop i s)"
  by (induction sub s arbitrary: i rule: indexOf.induct) (auto split: if_splits)

lemma indexOf_le: "indexOf sub s = Some i \<Longrightarrow> i \<le> length s"
  by (induction sub s arbitrary: i rule: indexOf.induct) (auto split: if_splits)

lemma indexOf_bound: "indexOf sub s = Some i \<Longrightarrow> i + length sub \<le> length s"
  using indexOf_prefix [THEN prefix_length_le] indexOf_le by fastforce

fun splitOn :: "char \<Rightarrow> string \<Rightarrow> string list" where
  "splitOn d [] = [[]]"
| "splitOn d (c # cs) =
    (if c = d then [] # splitOn d cs
     else (case splitOn d cs of [] \<Rightarrow> [[c]] | w # ws \<Rightarrow> (c # w) # ws))"

fun joinWith :: "string \<Rightarrow> string list \<Rightarrow> string" where
  "joinWith sep [] = []"
| "joinWith sep [w] = w"
| "joinWith sep (w # ws) = w @ sep @ joinWith sep ws"

lemma splitOn_nonempty [simp]: "splitOn d s \<noteq> []"
  by (induction s) (auto split: list.splits)

lemma joinWith_splitOn: "joinWith [d] (splitOn d s) = s"
proof (induction s)
  case Nil
  show ?case by simp
next
  case (Cons c s)
  obtain w ws where w: "splitOn d s = w # ws" by (cases "splitOn d s") auto
  with Cons show ?case by (cases ws) auto
qed

lemma splitOn_no_sep: "w \<in> set (splitOn d s) \<Longrightarrow> d \<notin> set w"
  by (induction s arbitrary: w) (auto split: list.splits if_splits)

lemma splitOn_append_sep: "d \<notin> set w \<Longrightarrow> splitOn d (w @ d # s) = w # splitOn d s"
  by (induction w) auto

lemma splitOn_plain: "d \<notin> set w \<Longrightarrow> splitOn d w = [w]"
  by (induction w) auto

lemma splitOn_joinWith: "ws \<noteq> [] \<Longrightarrow> \<forall>w \<in> set ws. d \<notin> set w \<Longrightarrow> splitOn d (joinWith [d] ws) = ws"
  by (induction "[d]" ws rule: joinWith.induct) (auto simp: splitOn_plain splitOn_append_sep)

definition trimRightChar :: "char \<Rightarrow> string \<Rightarrow> string" where
  "trimRightChar c s = rev (dropWhile (\<lambda>x. x = c) (rev s))"

subsection \<open>Integers\<close>

definition maxInt64 :: int where "maxInt64 = 9223372036854775807"

definition minInt64 :: int where "minInt64 = - 9223372036854775808"

text \<open>Two's-complement wrap-around of a 64-bit product.\<close>

definition wrap64 :: "int \<Rightarrow> int" where
  "wrap64 n = (n + 9223372036854775808) mod 18446744073709551616 - 9223372036854775808"

lemma wrap64_range: "minInt64 \<le> wrap64 n \<and> wrap64 n \<le> maxInt64"
  by (simp add: wrap64_def minInt64_def maxInt64_def)

lemma wrap64_id: "minInt64 \<le> n \<Longrightarrow> n \<le> maxInt64 \<Longrightarrow> wrap64 n = n"
  by (simp add: wrap64_def minInt64_def maxInt64_def)

definition isDigit :: "char \<Rightarrow> bool" where
  "isDigit c \<longleftrightarrow> 48 \<le> byte c \<and> byte c \<le> 57"

fun digitsVal :: "int \<Rightarrow> string \<Rightarrow> int" where
  "digitsVal acc [] = acc"
| "digitsVal acc (c # cs) = digitsVal (10 * acc + (int (byte c) - 48)) cs"

text \<open>\<open>strconv.ParseInt(s, 10, 64)\<close>: an optional sign, decimal digits, in range.\<close>

definition parseInt :: "string \<Rightarrow> int option" where
  "parseInt s =
    (let neg = (case s of c # _ \<Rightarrow> c = CHR ''-'' | [] \<Rightarrow> False);
         ds = (case s of c # cs \<Rightarrow> if c = CHR ''-'' \<or> c = CHR ''+'' then cs else s | [] \<Rightarrow> []);
         v = (if neg then - digitsVal 0 ds else digitsVal 0 ds)
     in if ds \<noteq> [] \<and> list_all isDigit ds \<and> minInt64 \<le> v \<and> v \<le> maxInt64 then Some v else None)"

lemma parseInt_range: "parseInt s = Some v \<Longrightarrow> minInt64 \<le> v \<and> v \<le> maxInt64"
  by (auto simp: parseInt_def Let_def split: if_splits)

lemma digitsVal_nonneg: "list_all isDigit ds \<Longrightarrow> 0 \<le> acc \<Longrightarrow> 0 \<le> digitsVal acc ds"
  by (induction ds arbitrary: acc) (auto simp: isDigit_def)

subsection \<open>Paths\<close>

definition slash :: char where "slash = CHR ''/''"

definition isAbs :: "string \<Rightarrow> bool" where
  "isAbs p \<longleftrightarrow> prefix [slash] p"

fun cleanStep :: "bool \<Rightarrow> string list \<Rightarrow> string \<Rightarrow> string list" where
  "cleanStep rooted st c =
    (if c = '''' \<or> c = ''.'' then st
     else if c = ''..'' then
       (case st of
          [] \<Rightarrow> if rooted then [] else [''..'']
        | x # xs \<Rightarrow> if x = ''..'' then ''..'' # st else xs)
     else c # st)"

text \<open>\<open>filepath.Clean\<close>: empty and \<open>.\<close> components vanish, \<open>..\<close> removes the component
  before it, and a rooted path cannot climb above the root.\<close>

definition cleanPath :: "string \<Rightarrow> string" where
  "cleanPath p =
    (let st = rev (foldl (cleanStep (isAbs p)) [] (splitOn slash p))
     in if isAbs p then slash # joinWith [slash] st
        else if st = [] then ''.'' else joinWith [slash] st)"

definition pathJoin :: "string \<Rightarrow> string \<Rightarrow> string" where
  "pathJoin a b =
    (if a \<noteq> '''' then cleanPath (a @ [slash] @ b)
     else if b \<noteq> '''' then cleanPath b else '''')"

text \<open>\<open>filepath.Split\<close>: directory with its trailing slash, and file.\<close>

definition pathSplit :: "string \<Rightarrow> string \<times> string" where
  "pathSplit p =
    (rev (dropWhile (\<lambda>c. c \<noteq> slash) (rev p)), rev (takeWhile (\<lambda>c. c \<noteq> slash) (rev p)))"

lemma pathSplit_append: "fst (pathSplit p) @ snd (pathSplit p) = p"
  unfolding pathSplit_def
  by (metis fst_conv rev_append rev_rev_ident snd_conv takeWhile_dropWhile_id)

lemma cleanPath_isAbs: "isAbs p \<Longrightarrow> isAbs (cleanPath p)"
  by (simp add: cleanPath_def isAbs_def Let_def)

end
