(* ===== verification/Glob.thy ===== *)
theory Glob
  imports Go_Text
begin

text \<open>
  Unix \<open>filepath.Match\<close>, the pattern language of the admission rules: \<open>*\<close> and \<open>?\<close>
  that do not cross a slash, character classes, and backslash escapes.  \<open>None\<close> is Go's
  \<open>ErrBadPattern\<close>.  The main fact is that whether a pattern is malformed does not depend
  on the name it is matched against, so one trial match at start-up finds every bad pattern.
\<close>

definition backslash :: char where "backslash = CHR 0x5C"

subsection \<open>Chunks\<close>

text \<open>The end of the chunk that starts here: the next unescaped star outside a class.\<close>

fun scanEnd :: "bool \<Rightarrow> string \<Rightarrow> nat" where
  "scanEnd inrange [] = 0"
| "scanEnd inrange (c # cs) =
    (if c = backslash then (case cs of [] \<Rightarrow> 1 | _ # cs' \<Rightarrow> Suc (Suc (scanEnd inrange cs')))
     else if c = CHR ''['' then Suc (scanEnd True cs)
     else if c = CHR '']'' then Suc (scanEnd False cs)
     else if c = CHR ''*'' \<and> \<not> inrange then 0
     else Suc (scanEnd inrange cs))"

definition scanChunk :: "string \<Rightarrow> bool \<times> string \<times> string" where
  "scanChunk p =
    (let q = dropWhile (\<lambda>c. c = CHR ''*'') p; i = scanEnd False q
     in (q \<noteq> p, take i q, drop i q))"

fun getEsc :: "string \<Rightarrow> (nat \<times> string) option" where
  "getEsc [] = None"
| "getEsc (c # cs) =
    (if c = CHR ''-'' \<or> c = CHR '']'' then None
     else
       let chunk = (if c = backslash then cs else c # cs);
           (r, n) = decodeRune chunk;
           rest = drop n chunk
       in if chunk = [] \<or> (r = runeError \<and> n = 1) \<or> rest = [] then None
          else Some (r, rest))"

lemma getEsc_shrinks: "getEsc s = Some (r, t) \<Longrightarrow> length t < length s \<and> t \<noteq> []"
proof (cases s)
  case (Cons c cs)
  assume "getEsc s = Some (r, t)"
  moreover have "0 < snd (decodeRune (c # cs))" by (simp add: decodeRune_width_pos)
  ultimately show ?thesis
    using Cons by (auto simp: Let_def split: if_splits prod.splits)
qed simp

function classLoop :: "nat \<Rightarrow> bool \<Rightarrow> bool \<Rightarrow> string \<Rightarrow> (bool \<times> string) option" where
  "classLoop r started m chunk =
    (if started \<and> prefix '']'' chunk then Some (m, drop 1 chunk)
     else case getEsc chunk of
       None \<Rightarrow> None
     | Some (lo, c1) \<Rightarrow>
         (case (if prefix ''-'' c1 then getEsc (drop 1 c1) else Some (lo, c1)) of
            None \<Rightarrow> None
          | Some (hi, c2) \<Rightarrow> classLoop r True (m \<or> (lo \<le> r \<and> r \<le> hi)) c2))"
  by pat_completeness auto
termination
proof (relation "measure (\<lambda>(r, started, m, chunk). length chunk)")
  fix r :: nat and started m :: bool and chunk c1 c2 :: string and lo hi :: nat and x y
  assume "getEsc chunk = Some x" "(lo, c1) = x"
    and "(if prefix ''-'' c1 then getEsc (drop 1 c1) else Some (lo, c1)) = Some y" "(hi, c2) = y"
  then have "length c1 < length chunk" and "length c2 \<le> length c1"
    using getEsc_shrinks [of chunk lo c1] getEsc_shrinks [of "drop 1 c1" hi c2]
    by (auto split: if_splits)
  then show "((r, True, m \<or> (lo \<le> r \<and> r \<le> hi), c2), r, started, m, chunk)
      \<in> measure (\<lambda>(r, started, m, chunk). length chunk)" by simp
qed simp

declare classLoop.simps [simp del]

lemma classLoop_close:
  "st \<Longrightarrow> prefix '']'' chunk \<Longrightarrow> classLoop r st m chunk = Some (m, drop 1 chunk)"
  by (subst classLoop.simps) simp

lemma classLoop_step:
  "\<not> (st \<and> prefix '']'' chunk) \<Longrightarrow> getEsc chunk = Some (lo, c1) \<Longrightarrow>
   (if prefix ''-'' c1 then getEsc (drop 1 c1) else Some (lo, c1)) = Some (hi, c2) \<Longrightarrow>
   classLoop r st m chunk = classLoop r True (m \<or> (lo \<le> r \<and> r \<le> hi)) c2"
  by (subst classLoop.simps) (auto split: if_splits)

lemma classLoop_bad:
  "\<not> (st \<and> prefix '']'' chunk) \<Longrightarrow>
   getEsc chunk = None \<or> (\<exists>lo c1. getEsc chunk = Some (lo, c1) \<and>
     (if prefix ''-'' c1 then getEsc (drop 1 c1) else Some (lo, c1)) = None) \<Longrightarrow>
   classLoop r st m chunk = None"
  by (subst classLoop.simps) (auto split: if_splits option.splits)

text \<open>The three ways a turn of the class loop goes.\<close>

lemma classLoop_cases:
  obtains (close) "st" "prefix '']'' chunk"
  | (bad) "\<not> (st \<and> prefix '']'' chunk)"
      "getEsc chunk = None \<or> (\<exists>lo c1. getEsc chunk = Some (lo, c1) \<and>
         (if prefix ''-'' c1 then getEsc (drop 1 c1) else Some (lo, c1)) = None)"
  | (step) lo c1 hi c2 where "\<not> (st \<and> prefix '']'' chunk)" "getEsc chunk = Some (lo, c1)"
      "(if prefix ''-'' c1 then getEsc (drop 1 c1) else Some (lo, c1)) = Some (hi, c2)"
proof (cases "st \<and> prefix '']'' chunk")
  case True
  then show ?thesis using close by blast
next
  case False
  show ?thesis
  proof (cases "getEsc chunk")
    case None
    then show ?thesis using bad False by blast
  next
    case (Some p)
    then obtain lo c1 where p: "getEsc chunk = Some (lo, c1)" by (cases p) auto
    show ?thesis
    proof (cases "if prefix ''-'' c1 then getEsc (drop 1 c1) else Some (lo, c1)")
      case None
      then show ?thesis using bad False p by blast
    next
      case (Some q)
      then show ?thesis using step False p by (cases q) blast
    qed
  qed
qed

lemma classLoop_shrinks: "classLoop r st m chunk = Some (b, rest) \<Longrightarrow> length rest < length chunk"
proof (induction r st m chunk rule: classLoop.induct)
  case (1 r st m chunk)
  show ?case
  proof (cases rule: classLoop_cases [of st chunk])
    case close
    then have "rest = drop 1 chunk" using "1.prems" classLoop_close by simp
    then show ?thesis using close by (cases chunk) auto
  next
    case bad
    then show ?thesis using "1.prems" classLoop_bad by simp
  next
    case (step lo c1 hi c2)
    then have "classLoop r True (m \<or> (lo \<le> r \<and> r \<le> hi)) c2 = Some (b, rest)"
      using "1.prems" classLoop_step by simp
    with "1.IH" [OF step(1,2) refl step(3) refl] have "length rest < length c2" by blast
    moreover have "length c1 < length chunk" using getEsc_shrinks [OF step(2)] by simp
    moreover have "length c2 \<le> length c1"
      using step(3) getEsc_shrinks [of "drop 1 c1" hi c2] by (auto split: if_splits)
    ultimately show ?thesis by simp
  qed
qed

text \<open>One chunk against the front of a name.  \<open>failed\<close> keeps scanning the chunk for
  syntax errors after the match is lost.\<close>

function matchChunk :: "bool \<Rightarrow> string \<Rightarrow> string \<Rightarrow> string option option" where
  "matchChunk failed [] s = Some (if failed then None else Some s)"
| "matchChunk failed0 (c # chunk) s =
    (let failed = (failed0 \<or> s = []) in
     if c = CHR ''['' then
       (let r = (if failed then 0 else fst (decodeRune s));
            s' = (if failed then s else drop (snd (decodeRune s)) s);
            negated = prefix ''^'' chunk;
            body = (if negated then drop 1 chunk else chunk)
        in case classLoop r False False body of
             None \<Rightarrow> None
           | Some (m, rest) \<Rightarrow> matchChunk (failed \<or> m = negated) rest s')
     else if c = CHR ''?'' then
       (if failed then matchChunk True chunk s
        else matchChunk (hd s = slash) chunk (drop (snd (decodeRune s)) s))
     else
       let chunk' = (if c = backslash then chunk else c # chunk) in
       if chunk' = [] then None
       else if failed then matchChunk True (tl chunk') s
       else matchChunk (hd chunk' \<noteq> hd s) (tl chunk') (tl s))"
  by pat_completeness auto
termination
proof (relation "measure (\<lambda>(f, c, s). length c)")
  fix failed0 c chunk s failed r s' negated body y m rest
  assume "body = (if negated then drop 1 chunk else chunk)"
    and "classLoop r False False body = Some y" "(m, rest) = y"
  then have "length rest < Suc (length chunk)"
    using classLoop_shrinks [of r False False body m rest] by (auto split: if_splits)
  then show "((failed \<or> m = negated, rest, s'), failed0, c # chunk, s)
      \<in> measure (\<lambda>(f, c, s). length c)" by simp
qed (auto split: if_splits)

declare matchChunk.simps(2) [simp del]

subsection \<open>Patterns\<close>

fun skipMatch :: "string \<Rightarrow> bool \<Rightarrow> string \<Rightarrow> string option option" where
  "skipMatch chunk final [] = Some None"
| "skipMatch chunk final (c # cs) =
    (if c = slash then Some None
     else case matchChunk False chunk cs of
       None \<Rightarrow> None
     | Some None \<Rightarrow> skipMatch chunk final cs
     | Some (Some t) \<Rightarrow> if final \<and> t \<noteq> [] then skipMatch chunk final cs else Some (Some t))"

lemma scanEnd_pos: "q \<noteq> [] \<Longrightarrow> hd q \<noteq> CHR ''*'' \<Longrightarrow> 0 < scanEnd False q"
  by (cases q) (auto split: list.splits)

lemma scanChunk_shrinks:
  assumes "scanChunk p = (star, chunk, rest)" and "p \<noteq> []"
  shows "length rest < length p"
proof -
  let ?q = "dropWhile (\<lambda>c. c = CHR ''*'') p"
  have rest: "rest = drop (scanEnd False ?q) ?q"
    using assms(1) by (simp add: scanChunk_def Let_def)
  show ?thesis
  proof (cases "?q = p")
    case True
    then have "hd p \<noteq> CHR ''*''"
      using assms(2) hd_dropWhile [of "\<lambda>c. c = CHR ''*''" p] by simp
    with True assms(2) show ?thesis using rest scanEnd_pos [of p] by simp
  next
    case False
    then obtain c cs where "p = c # cs" and "?q = dropWhile (\<lambda>c. c = CHR ''*'') cs"
      by (cases p) (auto split: if_splits)
    then have "length ?q < length p"
      by (simp add: length_dropWhile_le less_Suc_eq_le del: dropWhile.simps)
    then show ?thesis using rest by simp
  qed
qed

lemma scanChunk_shrinks': "(star, chunk, rest) = scanChunk p \<Longrightarrow> p \<noteq> [] \<Longrightarrow> length rest < length p"
  using scanChunk_shrinks [of p star chunk rest] by simp

function chunksOK :: "string \<Rightarrow> bool" where
  "chunksOK p =
    (if p = [] then True
     else let (star, chunk, rest) = scanChunk p
          in matchChunk False chunk [] \<noteq> None \<and> chunksOK rest)"
  by pat_completeness auto
termination
  by (relation "measure length") (auto intro: scanChunk_shrinks')

declare chunksOK.simps [simp del]

text \<open>One turn of the pattern loop: \<open>Some (Some t)\<close> continues with the rest \<open>t\<close> of the
  name, \<open>Some None\<close> gives up, \<open>None\<close> is a syntax error in this chunk.\<close>

definition matchStep :: "bool \<Rightarrow> string \<Rightarrow> string \<Rightarrow> string \<Rightarrow> string option option" where
  "matchStep star chunk rest name =
    (case matchChunk False chunk name of
       None \<Rightarrow> None
     | Some m \<Rightarrow>
         if (case m of Some t \<Rightarrow> t = [] \<or> rest \<noteq> [] | None \<Rightarrow> False) then Some m
         else if star then skipMatch chunk (rest = []) name
         else Some None)"

function globMatch :: "string \<Rightarrow> string \<Rightarrow> bool option" where
  "globMatch p name =
    (if p = [] then Some (name = [])
     else
       let (star, chunk, rest) = scanChunk p
       in if star \<and> chunk = [] then Some (\<not> contains name [slash])
          else case matchStep star chunk rest name of
            None \<Rightarrow> None
          | Some (Some t) \<Rightarrow> globMatch rest t
          | Some None \<Rightarrow> if chunksOK rest then Some False else None)"
  by pat_completeness auto
termination
  by (relation "measure (\<lambda>(p, n). length p)") (auto intro: scanChunk_shrinks')

declare globMatch.simps [simp del]

subsection \<open>Malformed patterns are malformed for every name\<close>

lemma classLoop_rune_irrelevant:
  "map_option snd (classLoop r st m chunk) = map_option snd (classLoop r' st m' chunk)"
proof (induction r st m chunk arbitrary: m' rule: classLoop.induct)
  case (1 r st m chunk)
  show ?case
  proof (cases rule: classLoop_cases [of st chunk])
    case close
    show ?thesis using classLoop_close [OF close] by simp
  next
    case bad
    then show ?thesis by (simp add: classLoop_bad)
  next
    case (step lo c1 hi c2)
    show ?thesis
      using "1.IH" [OF step(1,2) refl step(3) refl, of "m' \<or> (lo \<le> r' \<and> r' \<le> hi)"]
      by (simp only: classLoop_step [OF step])
  qed
qed

lemma matchChunk_bad_irrelevant: "(matchChunk f c s = None) = (matchChunk f' c s' = None)"
proof (induction "length c" arbitrary: f c s f' s' rule: less_induct)
  case less
  show ?case
  proof (cases c)
    case Nil
    then show ?thesis by simp
  next
    case (Cons a cs)
    let ?body = "if prefix ''^'' cs then drop 1 cs else cs"
    consider (cls) "a = CHR ''[''" | (any) "a = CHR ''?''"
      | (lit) "a \<noteq> CHR ''[''" "a \<noteq> CHR ''?''" by blast
    then show ?thesis
    proof cases
      case cls
      define r where "r f s = (if f \<or> s = [] then 0 else fst (decodeRune s))" for f and s :: string
      have unfold: "(matchChunk f c s = None) =
          (case classLoop (r f s) False False ?body of None \<Rightarrow> True
           | Some (m, rest) \<Rightarrow> matchChunk False rest [] = None)" for f s
      proof (cases "classLoop (r f s) False False ?body")
        case None
        then show ?thesis using Cons cls
          by (simp add: matchChunk.simps(2) r_def Let_def split del: if_split)
      next
        case (Some q)
        obtain m rest where q: "q = (m, rest)" by (cases q)
        have "length rest < length c"
          using classLoop_shrinks [OF Some [unfolded q]] Cons by (auto split: if_splits)
        then have "(matchChunk f1 rest s1 = None) = (matchChunk False rest [] = None)" for f1 s1
          by (rule less)
        then show ?thesis using Cons cls Some q
          by (simp add: matchChunk.simps(2) r_def Let_def split del: if_split)
      qed
      have "map_option snd (classLoop (r f s) False False ?body)
          = map_option snd (classLoop (r f' s') False False ?body)"
        by (rule classLoop_rune_irrelevant)
      then show ?thesis by (auto simp: unfold split: option.splits prod.splits)
    next
      case any
      have "(matchChunk f1 cs s1 = None) = (matchChunk f2 cs s2 = None)" for f1 s1 f2 s2
        using Cons by (intro less) simp
      then show ?thesis using Cons any by (simp add: matchChunk.simps(2) Let_def)
    next
      case lit
      let ?c' = "if a = backslash then cs else a # cs"
      define B where "B \<longleftrightarrow> matchChunk False (tl ?c') [] = None"
      have IH: "(matchChunk f1 (tl ?c') s1 = None) = B" if "?c' \<noteq> []" for f1 s1
        unfolding B_def using that Cons by (intro less) (cases cs; simp)
      have "(matchChunk f1 c s1 = None) = (?c' = [] \<or> B)" for f1 s1
      proof (cases "?c' = []")
        case True
        with Cons lit show ?thesis by (simp add: matchChunk.simps(2) Let_def split del: if_split)
      next
        case False
        note IH [OF False, simp]
        from False Cons lit show ?thesis
          by (simp add: matchChunk.simps(2) Let_def split del: if_split) simp
      qed
      then show ?thesis by simp
    qed
  qed
qed

lemma skipMatch_bad: "skipMatch chunk fin name = None \<Longrightarrow> matchChunk False chunk [] = None"
proof (induction name)
  case (Cons c cs)
  have "matchChunk False chunk cs = None \<Longrightarrow> matchChunk False chunk [] = None"
    using matchChunk_bad_irrelevant by blast
  with Cons show ?case by (auto split: if_splits option.splits)
qed simp

lemma matchStep_bad: "(matchStep star chunk rest name = None) = (matchChunk False chunk [] = None)"
  using matchChunk_bad_irrelevant [of False chunk name False "[]"]
    skipMatch_bad [of chunk "rest = []" name]
  by (auto simp: matchStep_def split: option.splits)

lemma scanChunk_star_empty:
  assumes "scanChunk p = (True, [], rest)"
  shows "rest = []"
proof -
  let ?q = "dropWhile (\<lambda>c. c = CHR ''*'') p"
  have t: "take (scanEnd False ?q) ?q = []"
    using assms by (simp add: scanChunk_def Let_def)
  have rest: "rest = drop (scanEnd False ?q) ?q"
    using assms by (simp add: scanChunk_def Let_def)
  show ?thesis
  proof (cases "?q = []")
    case True
    then show ?thesis unfolding rest by (simp only: drop_Nil)
  next
    case False
    then have "0 < scanEnd False ?q" by (rule scanEnd_pos) (rule hd_dropWhile, rule False)
    with t False show ?thesis by simp
  qed
qed

lemma globMatch_bad: "(globMatch p name = None) = (\<not> chunksOK p)"
proof (induction p name rule: globMatch.induct)
  case (1 p name)
  obtain star chunk rest where sc: "scanChunk p = (star, chunk, rest)"
    by (cases "scanChunk p")
  show ?case
  proof (cases "p = []")
    case True
    then show ?thesis by (simp add: globMatch.simps chunksOK.simps)
  next
    case False
    note p = False
    show ?thesis
    proof (cases "star \<and> chunk = []")
      case True
      then have "rest = []" using sc scanChunk_star_empty [of p rest] by simp
      with True p sc show ?thesis
        by (simp add: globMatch.simps [of p] chunksOK.simps [of p] chunksOK.simps [of "[]"])
    next
      case False
      note IH = "1.IH" [OF p sc [symmetric] refl refl False]
      show ?thesis using p sc False IH matchStep_bad [of star chunk rest name]
        by (auto simp: globMatch.simps [of p name] chunksOK.simps [of p] split: option.splits)
    qed
  qed
qed

lemma globMatch_bad_irrelevant: "globMatch p a = None \<longleftrightarrow> globMatch p b = None"
  by (simp add: globMatch_bad)


subsection \<open>Literal patterns, and literal patterns with one star\<close>

definition plainChar :: "char \<Rightarrow> bool" where
  "plainChar c \<longleftrightarrow> c \<notin> {CHR ''*'', CHR ''?'', CHR ''['', backslash}"

lemma scanEnd_plain: "list_all plainChar p \<Longrightarrow> scanEnd False p = length p"
  by (induction p) (auto simp: plainChar_def)

lemma scanEnd_plain_star: "list_all plainChar p \<Longrightarrow> scanEnd False (p @ ''*'') = length p"
  by (induction p) (auto simp: plainChar_def backslash_def)

lemma plain_no_star: "list_all plainChar p \<Longrightarrow> dropWhile (\<lambda>c. c = CHR ''*'') (p @ q)
    = (if p = [] then dropWhile (\<lambda>c. c = CHR ''*'') q else p @ q)"
  by (cases p) (auto simp: plainChar_def)

lemma matchChunk_plain:
  "list_all plainChar c \<Longrightarrow>
   matchChunk f c s = Some (if \<not> f \<and> prefix c s then Some (drop (length c) s) else None)"
proof (induction c arbitrary: f s)
  case Nil
  then show ?case by simp
next
  case (Cons a c)
  then show ?case
    by (cases s) (auto simp: matchChunk.simps(2) plainChar_def Let_def)
qed

lemma globMatch_plain:
  assumes "list_all plainChar p"
  shows "globMatch p n = Some (p = n)"
proof (cases "p = []")
  case True
  then show ?thesis by (auto simp: globMatch.simps)
next
  case False
  have sc: "scanChunk p = (False, p, [])"
    using plain_no_star [OF assms, of "[]"] scanEnd_plain [OF assms] False
    by (simp add: scanChunk_def Let_def)
  have "prefix p n \<and> drop (length p) n = [] \<longleftrightarrow> p = n"
    by (auto simp: prefix_def)
  then show ?thesis using False sc
    by (auto simp: globMatch.simps [of p n] globMatch.simps [of "[]"] matchStep_def
        matchChunk_plain [OF assms] chunksOK.simps)
qed

lemma contains_char: "contains s [c] \<longleftrightarrow> c \<in> set s"
proof (induction s)
  case (Cons a s)
  then show ?case by (auto simp: contains_def)
qed (simp add: contains_def)

lemma globMatch_star_only: "globMatch ''*'' n = Some (slash \<notin> set n)"
  by (simp add: globMatch.simps scanChunk_def contains_char)

text \<open>\<open>pack.*\<close> matches exactly the slash-free extensions of \<open>pack.\<close>.\<close>

lemma globMatch_prefix_star:
  assumes "list_all plainChar p"
  shows "globMatch (p @ ''*'') n = Some (prefix p n \<and> slash \<notin> set (drop (length p) n))"
proof (cases "p = []")
  case True
  then show ?thesis by (simp add: globMatch_star_only)
next
  case False
  have sc: "scanChunk (p @ ''*'') = (False, p, ''*'')"
    using plain_no_star [OF assms, of "''*''"] scanEnd_plain_star [OF assms] False
    by (simp add: scanChunk_def Let_def)
  have ok: "chunksOK ''*''"
    using globMatch_bad [of "''*''" "[]"] globMatch_star_only [of "[]"] by simp
  show ?thesis using False sc ok
    by (simp add: globMatch.simps [of "p @ ''*''" n] matchStep_def
        matchChunk_plain [OF assms] globMatch_star_only)
qed


subsection \<open>The matcher's contract\<close>

text \<open>What a client of the matcher relies on: a trial match on any name decides whether the
  pattern is well formed, so a pattern that passed once never fails later.\<close>

locale pattern_matcher =
  fixes matches :: "'p \<Rightarrow> 'n \<Rightarrow> bool option"
  assumes bad_irrelevant: "matches p a = None \<longleftrightarrow> matches p b = None"
begin

lemma validated_defined: "matches p probe \<noteq> None \<Longrightarrow> \<exists>b. matches p n = Some b"
  using bad_irrelevant [of p probe n] by auto

lemma validated_all:
  assumes "\<forall>p \<in> set ps. matches p probe \<noteq> None"
  shows "(\<exists>p \<in> set ps. matches p n = Some True) \<or> (\<forall>p \<in> set ps. matches p n = Some False)"
  using assms validated_defined by (metis (full_types))

end

interpretation glob: pattern_matcher globMatch
  by unfold_locales (rule globMatch_bad_irrelevant)

end
