(* ===== verification/Admission.thy ===== *)
theory Admission
  imports Glob
begin

text \<open>
  The runner-local action policy (\<open>runner/internal/admission/admission.go\<close>) and the enum
  types it ranks (\<open>runner/pkg/actionspec/enums.go\<close>).  A Go enum is a string type, so an
  unknown value is a value of the model too, and the switch statements' default branches are
  branches here.  A \<open>nil\<close> policy pointer is \<open>None\<close>.
\<close>

subsection \<open>Enums\<close>

type_synonym Kind = string
type_synonym Risk = string
type_synonym Parser = string

definition KindExec :: Kind where "KindExec = ''exec''"
definition KindScript :: Kind where "KindScript = ''script''"

definition kindValid :: "Kind \<Rightarrow> bool" where
  "kindValid k \<longleftrightarrow> k = KindExec \<or> k = KindScript"

definition RiskLow :: Risk where "RiskLow = ''low''"
definition RiskMedium :: Risk where "RiskMedium = ''medium''"
definition RiskHigh :: Risk where "RiskHigh = ''high''"
definition RiskCritical :: Risk where "RiskCritical = ''critical''"

lemmas risk_defs = RiskLow_def RiskMedium_def RiskHigh_def RiskCritical_def

definition riskRank :: "Risk \<Rightarrow> int option" where
  "riskRank r =
    (if r = RiskLow then Some 0 else if r = RiskMedium then Some 1
     else if r = RiskHigh then Some 2 else if r = RiskCritical then Some 3 else None)"

definition riskValid :: "Risk \<Rightarrow> bool" where
  "riskValid r \<longleftrightarrow> riskRank r \<noteq> None"

definition rank :: "Risk \<Rightarrow> int" where
  "rank r = (case riskRank r of None \<Rightarrow> -1 | Some v \<Rightarrow> v)"

definition lessOrEqual :: "Risk \<Rightarrow> Risk \<Rightarrow> bool" where
  "lessOrEqual r other \<longleftrightarrow> rank r \<ge> 0 \<and> rank other \<ge> 0 \<and> rank r \<le> rank other"

definition ParserText :: Parser where "ParserText = ''text''"
definition ParserJSON :: Parser where "ParserJSON = ''json''"

definition parserValid :: "Parser \<Rightarrow> bool" where
  "parserValid p \<longleftrightarrow> p = '''' \<or> p = ParserText \<or> p = ParserJSON"

datatype enum_error = InvalidKind Kind | InvalidRisk Risk | InvalidParser Parser

definition validateEnums :: "Kind \<Rightarrow> Risk \<Rightarrow> Parser \<Rightarrow> enum_error option" where
  "validateEnums kind risk parser =
    firstErr [check (\<not> kindValid kind) (InvalidKind kind),
              check (\<not> riskValid risk) (InvalidRisk risk),
              check (\<not> parserValid parser) (InvalidParser parser)]"

lemma validateEnums_ok:
  "validateEnums k r p = None \<longleftrightarrow> kindValid k \<and> riskValid r \<and> parserValid p"
  by (simp add: validateEnums_def result_simps)

lemma rank_valid: "riskValid r \<longleftrightarrow> 0 \<le> rank r"
  by (auto simp: riskValid_def rank_def riskRank_def)

lemma lessOrEqual_iff: "lessOrEqual a b \<longleftrightarrow> riskValid a \<and> riskValid b \<and> rank a \<le> rank b"
  by (simp add: lessOrEqual_def rank_valid)

lemma lessOrEqual_refl: "riskValid a \<Longrightarrow> lessOrEqual a a"
  by (simp add: lessOrEqual_iff)

lemma lessOrEqual_trans: "lessOrEqual a b \<Longrightarrow> lessOrEqual b c \<Longrightarrow> lessOrEqual a c"
  by (auto simp: lessOrEqual_iff)

lemma lessOrEqual_antisym: "lessOrEqual a b \<Longrightarrow> lessOrEqual b a \<Longrightarrow> a = b"
  by (auto simp: lessOrEqual_def rank_def riskRank_def split: if_splits)

lemma lessOrEqual_total: "riskValid a \<Longrightarrow> riskValid b \<Longrightarrow> lessOrEqual a b \<or> lessOrEqual b a"
  by (auto simp: lessOrEqual_iff)

subsection \<open>Policy\<close>

record Policy =
  allow :: "string list"
  deny :: "string list"
  maxRisk :: Risk

datatype pattern_error = EmptyPattern string nat | BadPattern string nat string

fun validatePatternsFrom :: "string \<Rightarrow> nat \<Rightarrow> string list \<Rightarrow> pattern_error option" where
  "validatePatternsFrom field i [] = None"
| "validatePatternsFrom field i (p # ps) =
    (if p = '''' then Some (EmptyPattern field i)
     else if globMatch p ''probe'' = None then Some (BadPattern field i p)
     else validatePatternsFrom field (Suc i) ps)"

definition validatePatterns :: "string \<Rightarrow> string list \<Rightarrow> pattern_error option" where
  "validatePatterns field ps = validatePatternsFrom field 0 ps"

definition newPolicy :: "string list \<Rightarrow> string list \<Rightarrow> Risk \<Rightarrow> pattern_error + Policy" where
  "newPolicy al dn risk =
    (case validatePatterns ''admission.allow'' al of
       Some e \<Rightarrow> Inl e
     | None \<Rightarrow>
         (case validatePatterns ''admission.deny'' dn of
            Some e \<Rightarrow> Inl e
          | None \<Rightarrow> Inr \<lparr>allow = al, deny = dn, maxRisk = risk\<rparr>))"

fun matchAny :: "string list \<Rightarrow> string \<Rightarrow> bool" where
  "matchAny [] i = False"
| "matchAny (p # ps) i = (if globMatch p i = Some True then True else matchAny ps i)"

text \<open>\<open>firstMatch\<close> returns the matching pattern, or the empty string.\<close>

fun firstMatch :: "string list \<Rightarrow> string \<Rightarrow> string" where
  "firstMatch [] i = ''''"
| "firstMatch (p # ps) i = (if globMatch p i = Some True then p else firstMatch ps i)"

datatype refusal =
    NotOnAllowlist string
  | BlockedByDenylist string string
  | RiskExceedsCeiling Risk Risk

text \<open>\<open>None\<close> admits; \<open>Some r\<close> is the pair \<open>(false, reason)\<close>.\<close>

definition admit :: "Policy option \<Rightarrow> string \<Rightarrow> refusal option" where
  "admit p actionID =
    (case p of
       None \<Rightarrow> None
     | Some pol \<Rightarrow>
         if allow pol \<noteq> [] \<and> \<not> matchAny (allow pol) actionID then Some (NotOnAllowlist actionID)
         else if deny pol \<noteq> [] \<and> firstMatch (deny pol) actionID \<noteq> ''''
           then Some (BlockedByDenylist actionID (firstMatch (deny pol) actionID))
         else None)"

definition admitRisk :: "Policy option \<Rightarrow> Risk \<Rightarrow> refusal option" where
  "admitRisk p risk =
    (case p of
       None \<Rightarrow> None
     | Some pol \<Rightarrow>
         if maxRisk pol = '''' then None
         else if \<not> lessOrEqual risk (maxRisk pol) then Some (RiskExceedsCeiling risk (maxRisk pol))
         else None)"

subsection \<open>What a compiled policy decides\<close>

lemma validatePatternsFrom_ok:
  "validatePatternsFrom field i ps = None \<longleftrightarrow>
   (\<forall>p \<in> set ps. p \<noteq> '''' \<and> globMatch p ''probe'' \<noteq> None)"
  by (induction field i ps rule: validatePatternsFrom.induct) auto

lemma newPolicy_ok:
  "newPolicy al dn r = Inr pol \<longleftrightarrow>
   pol = \<lparr>allow = al, deny = dn, maxRisk = r\<rparr> \<and>
   (\<forall>p \<in> set al \<union> set dn. p \<noteq> '''' \<and> globMatch p ''probe'' \<noteq> None)"
proof -
  let ?ok = "\<lambda>ps. \<forall>p \<in> set ps. p \<noteq> '''' \<and> globMatch p ''probe'' \<noteq> None"
  have a: "validatePatterns f ps = None \<longleftrightarrow> ?ok ps" for f ps
    unfolding validatePatterns_def by (rule validatePatternsFrom_ok)
  have "newPolicy al dn r = Inr pol \<longleftrightarrow> validatePatterns ''admission.allow'' al = None \<and>
      validatePatterns ''admission.deny'' dn = None \<and> pol = \<lparr>allow = al, deny = dn, maxRisk = r\<rparr>"
    unfolding newPolicy_def by (auto split: option.split)
  then show ?thesis unfolding a by blast
qed

lemma matchAny_iff: "matchAny ps i \<longleftrightarrow> (\<exists>p \<in> set ps. globMatch p i = Some True)"
  by (induction ps) auto



lemma firstMatch_nonempty:
  "'''' \<notin> set ps \<Longrightarrow> firstMatch ps i \<noteq> '''' \<longleftrightarrow> (\<exists>p \<in> set ps. globMatch p i = Some True)"
  by (induction ps) auto

lemma firstMatch_in: "firstMatch ps i \<noteq> '''' \<Longrightarrow>
   firstMatch ps i \<in> set ps \<and> globMatch (firstMatch ps i) i = Some True"
  by (induction ps) (auto split: if_splits)


lemma policy_patterns_defined:
  assumes "newPolicy al dn r = Inr pol" and "p \<in> set al \<union> set dn"
  shows "\<exists>b. globMatch p i = Some b"
  using assms by (intro glob.validated_defined [of p "''probe''"]) (simp add: newPolicy_ok)

lemma admit_iff:
  assumes "newPolicy al dn r = Inr pol"
  shows "admit (Some pol) i = None \<longleftrightarrow>
    (al = [] \<or> (\<exists>p \<in> set al. globMatch p i = Some True)) \<and>
    (\<forall>p \<in> set dn. globMatch p i = Some False)"
proof -
  have pol: "allow pol = al" "deny pol = dn" and ne: "'''' \<notin> set dn"
    using assms by (auto simp: newPolicy_ok)
  have dn: "firstMatch dn i = '''' \<longleftrightarrow> (\<forall>p \<in> set dn. globMatch p i = Some False)"
    using firstMatch_nonempty [OF ne, of i] policy_patterns_defined [OF assms]
    by (metis (full_types) Un_iff option.inject)
  have "admit (Some pol) i = None \<longleftrightarrow> (al = [] \<or> matchAny al i) \<and> (dn = [] \<or> firstMatch dn i = '''')"
    by (simp add: admit_def pol)
  also have "\<dots> \<longleftrightarrow> (al = [] \<or> (\<exists>p \<in> set al. globMatch p i = Some True)) \<and>
      (\<forall>p \<in> set dn. globMatch p i = Some False)"
    unfolding dn by (auto simp: matchAny_iff)
  finally show ?thesis .
qed

text \<open>
  C37. A policy accepted at start-up admits exactly the action ids that match an allow pattern
  (or any id when there is no allowlist) and that every deny pattern rejects: no pattern
  that passed the start-up trial match can fail at request time, whatever the id, so the
  fail-closed treatment of a run-time pattern error never decides a dispatch.
\<close>

theorem admission_decision:
  assumes "newPolicy al dn r = Inr pol"
  shows "(admit (Some pol) i = None \<longleftrightarrow>
      (al = [] \<or> (\<exists>p \<in> set al. globMatch p i = Some True)) \<and>
      \<not> (\<exists>p \<in> set dn. globMatch p i = Some True))
    \<and> \<not> (\<exists>p \<in> set al \<union> set dn. globMatch p i = None)"
proof -
  have d: "globMatch p i = Some False \<longleftrightarrow> globMatch p i \<noteq> Some True" if "p \<in> set dn" for p
    using policy_patterns_defined [OF assms, of p i] that by auto
  show ?thesis
    using admit_iff [OF assms, of i] policy_patterns_defined [OF assms, of _ i] d by fastforce
qed

theorem admission_decision_witness:
  "admit (Some \<lparr>allow = [''nginx.*''], deny = [''*.stop''], maxRisk = ''high''\<rparr>) ''nginx.reload'' = None
   \<longleftrightarrow> ([''nginx.*''] = [] \<or> (\<exists>p \<in> {''nginx.*''}. globMatch p ''nginx.reload'' = Some True)) \<and>
       \<not> (\<exists>p \<in> {''*.stop''}. globMatch p ''nginx.reload'' = Some True)"
proof -
  have "newPolicy [''nginx.*''] [''*.stop''] ''high''
      = Inr \<lparr>allow = [''nginx.*''], deny = [''*.stop''], maxRisk = ''high''\<rparr>"
    by code_simp
  from admission_decision [OF this, of "''nginx.reload''"] show ?thesis by simp
qed

text \<open>
  The risk ceiling is a threshold: with a ceiling set, an action is admitted exactly when
  both risks are known and the action's risk is at most the ceiling, so raising the risk of
  an action never turns a refusal into an admission, and an unknown risk is refused.
\<close>

lemma risk_ceiling:
  "admitRisk (Some pol) r = None \<longleftrightarrow>
     maxRisk pol = '''' \<or> (riskValid r \<and> riskValid (maxRisk pol) \<and> rank r \<le> rank (maxRisk pol))"
  by (simp add: admitRisk_def lessOrEqual_iff)

lemma admitRisk_antimono:
  "admitRisk p r = None \<Longrightarrow> lessOrEqual r' r \<Longrightarrow> admitRisk p r' = None"
  by (auto simp: admitRisk_def split: option.splits if_splits intro: lessOrEqual_trans)

end
