(* ===== verification/Json_Value.thy ===== *)
theory Json_Value
  imports Go_Text
begin

text \<open>
  Bounded JSON validation at the hostile-input boundary
  (\<open>runner/internal/jsonvalue/jsonvalue.go\<close>).  \<open>consumeUniqueValue\<close> reads tokens from
  Go's \<open>json.Decoder\<close>; the model reads the same tokens straight from the bytes, with the
  decoder's lexical rules (white space, strings and their escapes, numbers, literals) and its
  comma and colon discipline written out.  Recursion is on fuel; \<open>validate_fuel_enough\<close>
  shows the fuel chosen in \<open>validate\<close> never runs out.  \<open>parseValue\<close> is the tree the
  decoder builds for the same input, and the main theorem relates the two.
\<close>

subsection \<open>Lexical rules of the decoder\<close>

definition jsonSpace :: "char \<Rightarrow> bool" where
  "jsonSpace c \<longleftrightarrow> byte c \<in> {32, 9, 10, 13}"

definition skipWs :: "string \<Rightarrow> string" where
  "skipWs s = dropWhile jsonSpace s"

lemma skipWs_le: "length (skipWs s) \<le> length s"
  by (simp add: skipWs_def length_dropWhile_le)

definition hexVal :: "char \<Rightarrow> nat option" where
  "hexVal c =
    (let b = byte c in
     if 48 \<le> b \<and> b \<le> 57 then Some (b - 48)
     else if 97 \<le> b \<and> b \<le> 102 then Some (b - 97 + 10)
     else if 65 \<le> b \<and> b \<le> 70 then Some (b - 65 + 10)
     else None)"

fun hexAcc :: "nat \<Rightarrow> string \<Rightarrow> nat option" where
  "hexAcc acc [] = Some acc"
| "hexAcc acc (c # cs) =
    (case hexVal c of None \<Rightarrow> None | Some d \<Rightarrow> hexAcc (16 * acc + d) cs)"

text \<open>\<open>decodeHex4\<close>: four hexadecimal digits from an offset.\<close>

definition decodeHex4 :: "string \<Rightarrow> nat \<Rightarrow> nat option" where
  "decodeHex4 raw start =
    (if start + 4 > length raw then None else hexAcc 0 (take 4 (drop start raw)))"

definition quote :: char where "quote = CHR 0x22"

definition bslash :: char where "bslash = CHR 0x5C"

text \<open>\<open>utf8.EncodeRune\<close>.\<close>

definition encodeRune :: "nat \<Rightarrow> string" where
  "encodeRune r =
    (if r < 128 then [char_of r]
     else if r < 2048 then [char_of (192 + r div 64), char_of (128 + r mod 64)]
     else if r < 65536 then
       [char_of (224 + r div 4096), char_of (128 + r div 64 mod 64), char_of (128 + r mod 64)]
     else [char_of (240 + r div 262144), char_of (128 + r div 4096 mod 64),
           char_of (128 + r div 64 mod 64), char_of (128 + r mod 64)])"

definition simpleEscape :: "char \<Rightarrow> char option" where
  "simpleEscape c =
    (if c = quote \<or> c = bslash \<or> c = CHR ''/'' then Some c
     else if c = CHR ''b'' then Some (CHR 0x08) else if c = CHR ''f'' then Some (CHR 0x0C)
     else if c = CHR ''n'' then Some (CHR 0x0A) else if c = CHR ''r'' then Some (CHR 0x0D)
     else if c = CHR ''t'' then Some (CHR 0x09) else None)"

text \<open>What follows a backslash: the decoded bytes and the rest.  A surrogate pair is one
  rune; an unpaired surrogate decodes as \<open>RuneError\<close>.\<close>

definition lexEscape :: "string \<Rightarrow> (string \<times> string) option" where
  "lexEscape cs =
    (case cs of
       [] \<Rightarrow> None
     | e # es \<Rightarrow>
         if e = CHR ''u'' then
           (case decodeHex4 es 0 of
              None \<Rightarrow> None
            | Some u \<Rightarrow>
                if 55296 \<le> u \<and> u < 57344 then
                  (case (if u < 56320 \<and> prefix [bslash, CHR ''u''] (drop 4 es)
                         then decodeHex4 es 6 else None) of
                     Some v \<Rightarrow>
                       if 56320 \<le> v \<and> v < 57344
                       then Some (encodeRune ((u - 55296) * 1024 + (v - 56320) + 65536), drop 10 es)
                       else Some (encodeRune runeError, drop 4 es)
                   | None \<Rightarrow> Some (encodeRune runeError, drop 4 es))
                else Some (encodeRune u, drop 4 es))
         else map_option (\<lambda>d. ([d], es)) (simpleEscape e))"

lemma lexEscape_shrinks: "lexEscape cs = Some (d, r) \<Longrightarrow> length r < length cs"
  by (auto simp: lexEscape_def split: list.splits if_splits option.splits)

text \<open>The body of a string literal after its opening quote: decoded text and the rest.\<close>

function lexString :: "string \<Rightarrow> (string \<times> string) option" where
  "lexString s =
    (case s of
       [] \<Rightarrow> None
     | c # cs \<Rightarrow>
         if c = quote then Some ([], cs)
         else if byte c < 32 then None
         else (case (if c = bslash then lexEscape cs else Some ([c], cs)) of
                 None \<Rightarrow> None
               | Some (d, rest) \<Rightarrow> map_option (\<lambda>(t, r). (d @ t, r)) (lexString rest)))"
  by pat_completeness auto
termination
  by (relation "measure length") (auto dest: lexEscape_shrinks split: if_splits)

declare lexString.simps [simp del]

lemma lexString_shrinks: "lexString s = Some (t, r) \<Longrightarrow> length r < length s"
proof (induction s arbitrary: t r rule: lexString.induct)
  case (1 s)
  from "1.prems" obtain c cs where s: "s = c # cs"
    by (auto simp: lexString.simps [of s] split: list.splits)
  show ?case
  proof (cases "c = quote")
    case True
    with "1.prems" s show ?thesis by (simp add: lexString.simps [of "quote # cs"])
  next
    case False
    with "1.prems" s obtain d rest t' where ctl: "\<not> byte c < 32"
      and e: "(if c = bslash then lexEscape cs else Some ([c], cs)) = Some (d, rest)"
      and l: "lexString rest = Some (t', r)"
      by (auto simp: lexString.simps [of "c # cs"] split: if_splits option.splits)
    have "length r < length rest" using "1.IH" [OF s False ctl e refl l] .
    moreover have "length rest \<le> length cs"
      using e lexEscape_shrinks [of cs d rest] by (auto split: if_splits)
    ultimately show ?thesis using s by simp
  qed
qed

definition takeDigits :: "string \<Rightarrow> string \<times> string" where
  "takeDigits s = (takeWhile isDigit s, dropWhile isDigit s)"

text \<open>A number literal, and the rest of the input.\<close>

definition lexNumber :: "string \<Rightarrow> (string \<times> string) option" where
  "lexNumber s =
    (let s1 = (if prefix ''-'' s then drop 1 s else s);
         s2 = (if prefix ''0'' s1 then Some (drop 1 s1)
               else if fst (takeDigits s1) = [] then None else Some (snd (takeDigits s1)))
     in case s2 of
          None \<Rightarrow> None
        | Some s3 \<Rightarrow>
            (case (if prefix ''.'' s3
                   then (if fst (takeDigits (drop 1 s3)) = [] then None
                         else Some (snd (takeDigits (drop 1 s3))))
                   else Some s3) of
               None \<Rightarrow> None
             | Some s4 \<Rightarrow>
                 (case (if prefix ''e'' s4 \<or> prefix ''E'' s4
                        then (let s5 = drop 1 s4;
                                  s6 = (if prefix ''+'' s5 \<or> prefix ''-'' s5 then drop 1 s5 else s5)
                              in if fst (takeDigits s6) = [] then None
                                 else Some (snd (takeDigits s6)))
                        else Some s4) of
                    None \<Rightarrow> None
                  | Some s7 \<Rightarrow> Some (take (length s - length s7) s, s7))))"

lemma takeDigits_le: "length (snd (takeDigits s)) \<le> length s"
  by (simp add: takeDigits_def length_dropWhile_le)

lemma takeDigits_less: "fst (takeDigits s) \<noteq> [] \<Longrightarrow> length (snd (takeDigits s)) < length s"
  by (cases s) (auto simp: takeDigits_def less_Suc_eq_le length_dropWhile_le split: if_splits)

lemma lexNumber_shrinks: "lexNumber s = Some (t, r) \<Longrightarrow> length r < length s"
proof -
  assume a: "lexNumber s = Some (t, r)"
  define s1 where "s1 = (if prefix ''-'' s then drop 1 s else s)"
  obtain s3 where s3: "(if prefix ''0'' s1 then Some (drop 1 s1)
      else if fst (takeDigits s1) = [] then None else Some (snd (takeDigits s1))) = Some s3"
    using a by (auto simp: lexNumber_def Let_def s1_def split: option.splits if_splits)
  obtain s4 where s4: "(if prefix ''.'' s3
      then (if fst (takeDigits (drop 1 s3)) = [] then None else Some (snd (takeDigits (drop 1 s3))))
      else Some s3) = Some s4"
    using a s3 by (auto simp: lexNumber_def Let_def s1_def [symmetric] split: option.splits)
  have s7: "(if prefix ''e'' s4 \<or> prefix ''E'' s4
      then (let s5 = drop 1 s4; s6 = (if prefix ''+'' s5 \<or> prefix ''-'' s5 then drop 1 s5 else s5)
            in if fst (takeDigits s6) = [] then None else Some (snd (takeDigits s6)))
      else Some s4) = Some r"
    using a s3 s4 by (auto simp: lexNumber_def Let_def s1_def [symmetric] split: option.splits)
  have "length s1 \<le> length s" by (simp add: s1_def)
  moreover have "length s3 < length s1"
    using s3 takeDigits_less [of s1] by (cases s1) (auto split: if_splits)
  moreover have "length s4 \<le> length s3"
    using s4 takeDigits_le [of "drop 1 s3"] by (auto split: if_splits)
  moreover have "length r \<le> length s4"
    using s7 takeDigits_le [of "drop 1 s4"] takeDigits_le [of "drop (Suc (Suc 0)) s4"]
    by (auto simp: Let_def split: if_splits)
  ultimately show ?thesis by simp
qed


text \<open>\<open>decoder.Token\<close> where a value is allowed: the opening delimiter of an object or an
  array, or a whole scalar.\<close>

datatype scalar = SNull | SBool bool | SNumber string | SString string

datatype token = TObject | TArray | TScalar scalar

definition valueToken :: "string \<Rightarrow> (token \<times> string) option" where
  "valueToken s0 =
    (let s = skipWs s0 in
     if prefix ''{'' s then Some (TObject, drop 1 s)
     else if prefix ''['' s then Some (TArray, drop 1 s)
     else if prefix [quote] s then map_option (\<lambda>(t, r). (TScalar (SString t), r)) (lexString (drop 1 s))
     else if prefix ''true'' s then Some (TScalar (SBool True), drop 4 s)
     else if prefix ''false'' s then Some (TScalar (SBool False), drop 5 s)
     else if prefix ''null'' s then Some (TScalar SNull, drop 4 s)
     else map_option (\<lambda>(t, r). (TScalar (SNumber t), r)) (lexNumber s))"

text \<open>A key token with its colon, after the comma when it is not the first member.\<close>

definition keyToken :: "bool \<Rightarrow> string \<Rightarrow> (string \<times> string) option" where
  "keyToken first s0 =
    (let s = skipWs s0;
         s1 = (if first then Some s else if prefix '','' s then Some (skipWs (drop 1 s)) else None)
     in case s1 of
          None \<Rightarrow> None
        | Some s2 \<Rightarrow> if prefix [quote] s2 then lexString (drop 1 s2) else None)"

text \<open>\<open>decoder.More\<close>: the next byte exists and does not close the container.\<close>

definition moreTokens :: "string \<Rightarrow> bool" where
  "moreTokens s0 = (let s = skipWs s0 in s \<noteq> [] \<and> \<not> prefix ''}'' s \<and> \<not> prefix '']'' s)"

definition eat :: "string \<Rightarrow> string \<Rightarrow> string option" where
  "eat c s0 = (let s = skipWs s0 in if prefix c s then Some (drop (length c) s) else None)"

lemma skipWs_drop_less: "prefix c (skipWs s) \<Longrightarrow> c \<noteq> [] \<Longrightarrow> length (drop (length c) (skipWs s)) < length s"
proof -
  assume p: "prefix c (skipWs s)" and c: "c \<noteq> []"
  have "length c \<le> length (skipWs s)" using p by (rule prefix_length_le)
  moreover have "0 < length c" using c by simp
  ultimately show ?thesis using skipWs_le [of s] unfolding length_drop by linarith
qed

lemma eat_shrinks: "eat c s = Some r \<Longrightarrow> c \<noteq> [] \<Longrightarrow> length r < length s"
  using skipWs_drop_less [of c s] by (auto simp: eat_def Let_def split: if_splits)

lemma valueToken_shrinks: "valueToken s = Some (t, r) \<Longrightarrow> length r < length s"
proof -
  assume a: "valueToken s = Some (t, r)"
  note le = skipWs_le [of s]
  consider "prefix ''{'' (skipWs s)" "r = drop 1 (skipWs s)"
    | "prefix ''['' (skipWs s)" "r = drop 1 (skipWs s)"
    | t' where "prefix [quote] (skipWs s)" "lexString (drop 1 (skipWs s)) = Some (t', r)"
    | "prefix ''true'' (skipWs s)" "r = drop 4 (skipWs s)"
    | "prefix ''false'' (skipWs s)" "r = drop 5 (skipWs s)"
    | "prefix ''null'' (skipWs s)" "r = drop 4 (skipWs s)"
    | t' where "lexNumber (skipWs s) = Some (t', r)"
    using a by (auto simp: valueToken_def Let_def split: if_splits)
  then show ?thesis
  proof cases
    case 3
    then show ?thesis
      using lexString_shrinks [of "drop 1 (skipWs s)" t' r] skipWs_drop_less [of "[quote]" s] by simp
  next
    case 7
    then show ?thesis using lexNumber_shrinks [of "skipWs s" t' r] le by simp
  qed (use skipWs_drop_less [of "''{''" s] skipWs_drop_less [of "''[''" s]
      skipWs_drop_less [of "''true''" s] skipWs_drop_less [of "''false''" s]
      skipWs_drop_less [of "''null''" s] in \<open>simp_all\<close>)
qed

lemma keyToken_shrinks: "keyToken first s = Some (k, r) \<Longrightarrow> length r < length s"
proof -
  assume a: "keyToken first s = Some (k, r)"
  obtain s2 where s2: "length s2 \<le> length s" and k: "lexString (drop 1 s2) = Some (k, r)"
    and q: "prefix [quote] s2"
  proof (cases first)
    case True
    with a that [of "skipWs s"] skipWs_le [of s] show ?thesis
      by (auto simp: keyToken_def Let_def split: if_splits)
  next
    case False
    with a that [of "skipWs (drop 1 (skipWs s))"] skipWs_le [of s] skipWs_le [of "drop 1 (skipWs s)"]
    show ?thesis by (auto simp: keyToken_def Let_def split: if_splits)
  qed
  have "0 < length s2" using q by (cases s2) auto
  then show ?thesis using lexString_shrinks [OF k] s2 by simp
qed


subsection \<open>Validation\<close>

record Limits =
  MaxBytes :: nat
  MaxDepth :: nat
  MaxNodes :: nat

datatype json_error =
    ErrTooLarge | ErrTooDeep | ErrTooManyNodes | ErrRootNotObject
  | NotValidUTF8 | UnpairedHighSurrogate | UnpairedLowSurrogate
  | DuplicateKey string | SyntaxError | TrailingToken | OutOfFuel

text \<open>\<open>validateUnicodeSurrogates\<close>: the byte loop, by index.\<close>

function surrogatesFrom :: "string \<Rightarrow> nat \<Rightarrow> bool \<Rightarrow> json_error option" where
  "surrogatesFrom raw i inString =
    (if length raw \<le> i then None
     else if raw ! i = quote then surrogatesFrom raw (i + 1) (\<not> inString)
     else if raw ! i \<noteq> bslash then surrogatesFrom raw (i + 1) inString
     else if \<not> inString \<or> length raw \<le> i + 1 then surrogatesFrom raw (i + 1) inString
     else if raw ! (i + 1) \<noteq> CHR ''u'' then surrogatesFrom raw (i + 2) inString
     else
       (case decodeHex4 raw (i + 2) of
          None \<Rightarrow> surrogatesFrom raw (i + 1) inString
        | Some code \<Rightarrow>
            if 55296 \<le> code \<and> code \<le> 56319 then
              (if length raw \<le> i + 5 + 6 \<or> raw ! (i + 6) \<noteq> bslash \<or> raw ! (i + 7) \<noteq> CHR ''u''
               then Some UnpairedHighSurrogate
               else case decodeHex4 raw (i + 8) of
                 None \<Rightarrow> Some UnpairedHighSurrogate
               | Some low \<Rightarrow>
                   if low < 56320 \<or> 57343 < low then Some UnpairedHighSurrogate
                   else surrogatesFrom raw (i + 12) inString)
            else if 56320 \<le> code \<and> code \<le> 57343 then Some UnpairedLowSurrogate
            else surrogatesFrom raw (i + 6) inString))"
  by pat_completeness auto
termination
  by (relation "measure (\<lambda>(raw, i, s). length raw - i)") auto

declare surrogatesFrom.simps [simp del]

definition validateUnicodeSurrogates :: "string \<Rightarrow> json_error option" where
  "validateUnicodeSurrogates raw = surrogatesFrom raw 0 False"

text \<open>The token that starts a value, after the separator the decoder expects before it.\<close>

definition valueTokenAfter :: "string \<Rightarrow> string \<Rightarrow> (token \<times> string) option" where
  "valueTokenAfter sep s =
    (if sep = '''' then valueToken s
     else case eat sep s of None \<Rightarrow> None | Some r \<Rightarrow> valueToken r)"

function (sequential) consumeUniqueValue :: "nat \<Rightarrow> Limits \<Rightarrow> nat \<Rightarrow> nat \<Rightarrow> string \<Rightarrow> string \<Rightarrow> json_error + nat \<times> string"
and consumeMembers :: "nat \<Rightarrow> Limits \<Rightarrow> nat \<Rightarrow> nat \<Rightarrow> string list \<Rightarrow> bool \<Rightarrow> string \<Rightarrow> json_error + nat \<times> string"
and consumeElements :: "nat \<Rightarrow> Limits \<Rightarrow> nat \<Rightarrow> nat \<Rightarrow> bool \<Rightarrow> string \<Rightarrow> json_error + nat \<times> string"
where
  "consumeUniqueValue 0 lim depth nodes sep s = Inl OutOfFuel"
| "consumeUniqueValue (Suc k) lim depth nodes sep s =
    (if 0 < MaxDepth lim \<and> MaxDepth lim < depth then Inl ErrTooDeep
     else if 0 < MaxNodes lim \<and> MaxNodes lim < nodes + 1 then Inl ErrTooManyNodes
     else case valueTokenAfter sep s of
       None \<Rightarrow> Inl SyntaxError
     | Some (TScalar x, r) \<Rightarrow> Inr (nodes + 1, r)
     | Some (TObject, r) \<Rightarrow> consumeMembers k lim depth (nodes + 1) [] True r
     | Some (TArray, r) \<Rightarrow> consumeElements k lim depth (nodes + 1) True r)"
| "consumeMembers 0 lim depth nodes seen first s = Inl OutOfFuel"
| "consumeMembers (Suc k) lim depth nodes seen first s =
    (if moreTokens s then
       (case keyToken first s of
          None \<Rightarrow> Inl SyntaxError
        | Some (key, r) \<Rightarrow>
            if key \<in> set seen then Inl (DuplicateKey key)
            else rbind (consumeUniqueValue k lim (depth + 1) nodes '':'' r)
              (\<lambda>(nodes', r'). consumeMembers k lim depth nodes' (key # seen) False r'))
     else case eat ''}'' s of None \<Rightarrow> Inl SyntaxError | Some r \<Rightarrow> Inr (nodes, r))"
| "consumeElements 0 lim depth nodes first s = Inl OutOfFuel"
| "consumeElements (Suc k) lim depth nodes first s =
    (if moreTokens s then
       rbind (consumeUniqueValue k lim (depth + 1) nodes (if first then '''' else '','') s)
         (\<lambda>(nodes', r'). consumeElements k lim depth nodes' False r')
     else case eat '']'' s of None \<Rightarrow> Inl SyntaxError | Some r \<Rightarrow> Inr (nodes, r))"
  by pat_completeness auto
termination
  by (relation "measure (case_sum (\<lambda>(k, l, d, n, sep, s). k)
       (case_sum (\<lambda>(k, l, d, n, seen, f, s). k) (\<lambda>(k, l, d, n, f, s). k)))") auto

definition validate :: "string \<Rightarrow> Limits \<Rightarrow> json_error option" where
  "validate raw lim =
    (if 0 < MaxBytes lim \<and> MaxBytes lim < length raw then Some ErrTooLarge
     else if \<not> validString raw then Some NotValidUTF8
     else case validateUnicodeSurrogates raw of
       Some e \<Rightarrow> Some e
     | None \<Rightarrow>
         (case consumeUniqueValue (2 * length raw + 2) lim 1 0 '''' raw of
            Inl e \<Rightarrow> Some e
          | Inr (nodes, rest) \<Rightarrow>
              if skipWs rest = [] then None
              else if valueToken rest = None then Some SyntaxError else Some TrailingToken))"

subsection \<open>The tree the decoder builds\<close>

datatype json = JScalar scalar | JArray "json list" | JObject "(string \<times> json) list"

fun parseValue :: "nat \<Rightarrow> string \<Rightarrow> string \<Rightarrow> (json \<times> string) option"
and parseMembers :: "nat \<Rightarrow> bool \<Rightarrow> string \<Rightarrow> ((string \<times> json) list \<times> string) option"
and parseElements :: "nat \<Rightarrow> bool \<Rightarrow> string \<Rightarrow> (json list \<times> string) option"
where
  "parseValue 0 sep s = None"
| "parseValue (Suc k) sep s =
    (case valueTokenAfter sep s of
       None \<Rightarrow> None
     | Some (TScalar x, r) \<Rightarrow> Some (JScalar x, r)
     | Some (TObject, r) \<Rightarrow> map_option (\<lambda>(ms, r'). (JObject ms, r')) (parseMembers k True r)
     | Some (TArray, r) \<Rightarrow> map_option (\<lambda>(vs, r'). (JArray vs, r')) (parseElements k True r))"
| "parseMembers 0 first s = None"
| "parseMembers (Suc k) first s =
    (if moreTokens s then
       (case keyToken first s of
          None \<Rightarrow> None
        | Some (key, r) \<Rightarrow>
            (case parseValue k '':'' r of
               None \<Rightarrow> None
             | Some (v, r') \<Rightarrow> map_option (\<lambda>(ms, r''). ((key, v) # ms, r'')) (parseMembers k False r')))
     else map_option (\<lambda>r. ([], r)) (eat ''}'' s))"
| "parseElements 0 first s = None"
| "parseElements (Suc k) first s =
    (if moreTokens s then
       (case parseValue k (if first then '''' else '','') s of
          None \<Rightarrow> None
        | Some (v, r') \<Rightarrow> map_option (\<lambda>(vs, r''). (v # vs, r'')) (parseElements k False r'))
     else map_option (\<lambda>r. ([], r)) (eat '']'' s))"

definition decodeJson :: "string \<Rightarrow> json option" where
  "decodeJson raw = map_option fst (parseValue (2 * length raw + 2) '''' raw)"

text \<open>\<open>DecodeObject\<close>: the object's members, keyed by their decoded names.\<close>

definition decodeObject :: "string \<Rightarrow> Limits \<Rightarrow> json_error + (string \<times> json) list" where
  "decodeObject raw lim =
    (case validate raw lim of
       Some e \<Rightarrow> Inl e
     | None \<Rightarrow>
         if \<not> prefix ''{'' (trimSpace raw) then Inl ErrRootNotObject
         else case decodeJson raw of
           Some (JObject ms) \<Rightarrow> Inr ms
         | _ \<Rightarrow> Inl SyntaxError)"


subsection \<open>What validation accepts\<close>

fun nodeCount :: "json \<Rightarrow> nat" where
  "nodeCount (JScalar x) = 1"
| "nodeCount (JArray vs) = 1 + sum_list (map nodeCount vs)"
| "nodeCount (JObject ms) = 1 + sum_list (map (\<lambda>m. nodeCount (snd m)) ms)"

fun nesting :: "json \<Rightarrow> nat" where
  "nesting (JScalar x) = 1"
| "nesting (JArray vs) = 1 + Max (set (0 # map nesting vs))"
| "nesting (JObject ms) = 1 + Max (set (0 # map (\<lambda>m. nesting (snd m)) ms))"

fun uniqueKeys :: "json \<Rightarrow> bool" where
  "uniqueKeys (JScalar x) = True"
| "uniqueKeys (JArray vs) = list_all uniqueKeys vs"
| "uniqueKeys (JObject ms) = (distinct (map fst ms) \<and> list_all (\<lambda>m. uniqueKeys (snd m)) ms)"

definition depthOK :: "Limits \<Rightarrow> nat \<Rightarrow> bool" where
  "depthOK lim d \<longleftrightarrow> (MaxDepth lim = 0 \<or> d \<le> MaxDepth lim)"

definition nodesOK :: "Limits \<Rightarrow> nat \<Rightarrow> bool" where
  "nodesOK lim n \<longleftrightarrow> (MaxNodes lim = 0 \<or> n \<le> MaxNodes lim)"

lemma nodeCount_pos: "0 < nodeCount v"
  by (cases v) auto

lemma nesting_pos: "0 < nesting v"
  by (cases v) auto

lemma valueTokenAfter_shrinks: "valueTokenAfter sep s = Some (t, r) \<Longrightarrow> length r < length s"
  by (auto simp: valueTokenAfter_def dest!: valueToken_shrinks eat_shrinks split: if_splits option.splits)

lemma consume_shrinks:
  "consumeUniqueValue k lim d n sep s = Inr (n', r) \<Longrightarrow> length r < length s"
  "consumeMembers k lim d n seen first s = Inr (n', r) \<Longrightarrow> length r < length s"
  "consumeElements k lim d n first s = Inr (n', r) \<Longrightarrow> length r < length s"
proof (induction k lim d n sep s and k lim d n seen first s and k lim d n first s
    arbitrary: n' r and n' r and n' r
    rule: consumeUniqueValue_consumeMembers_consumeElements.induct)
  case (2 k lim depth nodes sep s)
  then show ?case
    by (fastforce split: if_splits option.splits token.splits dest: valueTokenAfter_shrinks)
next
  case (4 k lim depth nodes seen first s)
  show ?case
  proof (cases "moreTokens s")
    case True
    with "4.prems" obtain key r1 n2 r2 where k: "keyToken first s = Some (key, r1)"
      and nk: "key \<notin> set seen"
      and c: "consumeUniqueValue k lim (depth + 1) nodes '':'' r1 = Inr (n2, r2)"
      and m: "consumeMembers k lim depth n2 (key # seen) False r2 = Inr (n', r)"
      by (auto simp: result_simps split: option.splits if_splits)
    have "length r2 < length r1" using "4.IH"(1) [OF True k refl nk c] .
    moreover have "length r < length r2" using "4.IH"(2) [OF True k refl nk c refl m] .
    ultimately show ?thesis using keyToken_shrinks [OF k] by simp
  qed (use "4.prems" in \<open>auto dest!: eat_shrinks split: option.splits\<close>)
next
  case (6 k lim depth nodes first s)
  show ?case
  proof (cases "moreTokens s")
    case True
    with "6.prems" obtain n2 r2 where
      c: "consumeUniqueValue k lim (depth + 1) nodes (if first then '''' else '','') s = Inr (n2, r2)"
      and m: "consumeElements k lim depth n2 False r2 = Inr (n', r)"
      by (auto simp: result_simps)
    have "length r2 < length s" using "6.IH"(1) [OF True c] .
    moreover have "length r < length r2" using "6.IH"(2) [OF True c refl m] .
    ultimately show ?thesis by simp
  qed (use "6.prems" in \<open>auto dest!: eat_shrinks split: option.splits\<close>)
qed simp_all

lemma consume_fuel:
  "2 * length s + 1 \<le> k \<Longrightarrow> consumeUniqueValue k lim d n sep s \<noteq> Inl OutOfFuel"
  "2 * length s + 1 \<le> k \<Longrightarrow> consumeMembers k lim d n seen first s \<noteq> Inl OutOfFuel"
  "2 * length s + 2 \<le> k \<Longrightarrow> consumeElements k lim d n first s \<noteq> Inl OutOfFuel"
proof (induction k lim d n sep s and k lim d n seen first s and k lim d n first s
    rule: consumeUniqueValue_consumeMembers_consumeElements.induct)
  case (2 k lim depth nodes sep s)
  then show ?case
    by (fastforce split: option.splits token.splits if_splits dest: valueTokenAfter_shrinks)
next
  case (4 k lim depth nodes seen first s)
  then show ?case
    by (fastforce simp: result_simps split: option.splits if_splits
        dest: keyToken_shrinks consume_shrinks(1))
next
  case (6 k lim depth nodes first s)
  then show ?case
    by (fastforce simp: result_simps split: option.splits if_splits dest: consume_shrinks(1))
qed simp_all


lemma consume_sound:
  "consumeUniqueValue k lim d n sep s = Inr (n', r) \<Longrightarrow>
     \<exists>v. parseValue k sep s = Some (v, r) \<and> uniqueKeys v \<and> depthOK lim (d + nesting v - 1)
       \<and> n' = n + nodeCount v \<and> nodesOK lim n'"
  "consumeMembers k lim d n seen first s = Inr (n', r) \<Longrightarrow>
     nodesOK lim n \<Longrightarrow> depthOK lim d \<Longrightarrow>
     \<exists>ms. parseMembers k first s = Some (ms, r) \<and> distinct (map fst ms)
       \<and> set (map fst ms) \<inter> set seen = {} \<and> list_all (\<lambda>m. uniqueKeys (snd m)) ms
       \<and> depthOK lim (d + Max (set (0 # map (\<lambda>m. nesting (snd m)) ms)))
       \<and> n' = n + sum_list (map (\<lambda>m. nodeCount (snd m)) ms) \<and> nodesOK lim n'"
  "consumeElements k lim d n first s = Inr (n', r) \<Longrightarrow>
     nodesOK lim n \<Longrightarrow> depthOK lim d \<Longrightarrow>
     \<exists>vs. parseElements k first s = Some (vs, r) \<and> list_all uniqueKeys vs
       \<and> depthOK lim (d + Max (set (0 # map nesting vs)))
       \<and> n' = n + sum_list (map nodeCount vs) \<and> nodesOK lim n'"
proof (induction k lim d n sep s and k lim d n seen first s and k lim d n first s
    arbitrary: n' r and n' r and n' r
    rule: consumeUniqueValue_consumeMembers_consumeElements.induct)
  case (2 k lim depth nodes sep s)
  from "2.prems" have d: "depthOK lim depth" and n: "nodesOK lim (nodes + 1)"
    and nd: "\<not> (0 < MaxDepth lim \<and> MaxDepth lim < depth)"
    and nn: "\<not> (0 < MaxNodes lim \<and> MaxNodes lim < nodes + 1)"
    by (auto simp: depthOK_def nodesOK_def split: if_splits)
  from "2.prems" nd nn obtain t r0 where t: "valueTokenAfter sep s = Some (t, r0)"
    by (auto split: option.splits)
  show ?case
  proof (cases t)
    case TObject
    with "2.prems" t nd nn have m: "consumeMembers k lim depth (nodes + 1) [] True r0 = Inr (n', r)"
      by (simp split: if_splits)
    from "2.IH"(1) [OF nd nn t refl TObject m n d] obtain ms where
      "parseMembers k True r0 = Some (ms, r)" "distinct (map fst ms)"
      "list_all (\<lambda>m. uniqueKeys (snd m)) ms"
      "depthOK lim (depth + Max (set (0 # map (\<lambda>m. nesting (snd m)) ms)))"
      "n' = nodes + 1 + sum_list (map (\<lambda>m. nodeCount (snd m)) ms)" "nodesOK lim n'" by blast
    with t TObject show ?thesis by (intro exI [of _ "JObject ms"]) simp
  next
    case TArray
    with "2.prems" t nd nn have m: "consumeElements k lim depth (nodes + 1) True r0 = Inr (n', r)"
      by (simp split: if_splits)
    from "2.IH"(2) [OF nd nn t refl TArray m n d] obtain vs where
      "parseElements k True r0 = Some (vs, r)" "list_all uniqueKeys vs"
      "depthOK lim (depth + Max (set (0 # map nesting vs)))"
      "n' = nodes + 1 + sum_list (map nodeCount vs)" "nodesOK lim n'" by blast
    with t TArray show ?thesis by (intro exI [of _ "JArray vs"]) simp
  next
    case (TScalar x)
    with "2.prems" t nd nn n d show ?thesis by (auto split: if_splits)
  qed
next
  case (4 k lim depth nodes seen first s)
  show ?case
  proof (cases "moreTokens s")
    case True
    with "4.prems" obtain key r1 n2 r2 where k: "keyToken first s = Some (key, r1)"
      and nk: "key \<notin> set seen"
      and c: "consumeUniqueValue k lim (depth + 1) nodes '':'' r1 = Inr (n2, r2)"
      and m: "consumeMembers k lim depth n2 (key # seen) False r2 = Inr (n', r)"
      by (auto simp: result_simps split: option.splits if_splits)
    from "4.IH"(1) [OF True k refl nk c] obtain v where
      v: "parseValue k '':'' r1 = Some (v, r2)" "uniqueKeys v" "depthOK lim (depth + nesting v)"
        "n2 = nodes + nodeCount v" "nodesOK lim n2" by auto
    from "4.IH"(2) [OF True k refl nk c refl m v(5) "4.prems"(3)] obtain ms where
      "parseMembers k False r2 = Some (ms, r)" "distinct (map fst ms)"
      "set (map fst ms) \<inter> set (key # seen) = {}" "list_all (\<lambda>m. uniqueKeys (snd m)) ms"
      "depthOK lim (depth + Max (set (0 # map (\<lambda>m. nesting (snd m)) ms)))"
      "n' = n2 + sum_list (map (\<lambda>m. nodeCount (snd m)) ms)" "nodesOK lim n'" by blast
    with v k nk True show ?thesis
      by (intro exI [of _ "(key, v) # ms"])
        (auto simp: depthOK_def insert_commute [of 0] Max_insert [where A = "insert 0 _"])
  qed (use "4.prems" in \<open>auto split: option.splits\<close>)
next
  case (6 k lim depth nodes first s)
  show ?case
  proof (cases "moreTokens s")
    case True
    with "6.prems" obtain n2 r2 where
      c: "consumeUniqueValue k lim (depth + 1) nodes (if first then '''' else '','') s = Inr (n2, r2)"
      and m: "consumeElements k lim depth n2 False r2 = Inr (n', r)"
      by (auto simp: result_simps)
    from "6.IH"(1) [OF True c] obtain v where
      v: "parseValue k (if first then '''' else '','') s = Some (v, r2)" "uniqueKeys v"
        "depthOK lim (depth + nesting v)" "n2 = nodes + nodeCount v" "nodesOK lim n2" by auto
    from "6.IH"(2) [OF True c refl m v(5) "6.prems"(3)] obtain vs where
      "parseElements k False r2 = Some (vs, r)" "list_all uniqueKeys vs"
      "depthOK lim (depth + Max (set (0 # map nesting vs)))"
      "n' = n2 + sum_list (map nodeCount vs)" "nodesOK lim n'" by blast
    with v True show ?thesis
      by (intro exI [of _ "v # vs"])
        (auto simp: depthOK_def insert_commute [of 0] Max_insert [where A = "insert 0 _"])
  qed (use "6.prems" in \<open>auto split: option.splits\<close>)
qed simp_all

lemma consume_complete:
  "parseValue k sep s = Some (v, r) \<Longrightarrow> uniqueKeys v \<Longrightarrow> 0 < d \<Longrightarrow>
     depthOK lim (d + nesting v - 1) \<Longrightarrow> nodesOK lim (n + nodeCount v) \<Longrightarrow>
     consumeUniqueValue k lim d n sep s = Inr (n + nodeCount v, r)"
  "parseMembers k first s = Some (ms, r) \<Longrightarrow> distinct (map fst ms) \<Longrightarrow>
     set (map fst ms) \<inter> set seen = {} \<Longrightarrow> list_all (\<lambda>m. uniqueKeys (snd m)) ms \<Longrightarrow>
     (\<forall>m \<in> set ms. depthOK lim (d + nesting (snd m))) \<Longrightarrow>
     nodesOK lim (n + sum_list (map (\<lambda>m. nodeCount (snd m)) ms)) \<Longrightarrow>
     consumeMembers k lim d n seen first s
       = Inr (n + sum_list (map (\<lambda>m. nodeCount (snd m)) ms), r)"
  "parseElements k first s = Some (vs, r) \<Longrightarrow> list_all uniqueKeys vs \<Longrightarrow>
     (\<forall>w \<in> set vs. depthOK lim (d + nesting w)) \<Longrightarrow>
     nodesOK lim (n + sum_list (map nodeCount vs)) \<Longrightarrow>
     consumeElements k lim d n first s = Inr (n + sum_list (map nodeCount vs), r)"
proof (induction k sep s and k first s and k first s
    arbitrary: d n v r and d n seen ms r and d n vs r
    rule: parseValue_parseMembers_parseElements.induct)
  case (2 k sep s)
  from "2.prems"(1) obtain t r0 where t: "valueTokenAfter sep s = Some (t, r0)"
    by (auto split: option.splits)
  have d: "\<not> (0 < MaxDepth lim \<and> MaxDepth lim < d)"
    using "2.prems"(3,4) nesting_pos [of v] by (auto simp: depthOK_def)
  have n: "\<not> (0 < MaxNodes lim \<and> MaxNodes lim < n + 1)"
    using "2.prems"(5) nodeCount_pos [of v] by (auto simp: nodesOK_def)
  show ?case
  proof (cases t)
    case TObject
    with t "2.prems"(1) obtain ms where ms: "parseMembers k True r0 = Some (ms, r)" "v = JObject ms"
      by auto
    have "\<forall>m \<in> set ms. depthOK lim (d + nesting (snd m))"
    proof
      fix m assume "m \<in> set ms"
      then have "nesting (snd m) \<le> Max (set (0 # map (\<lambda>m. nesting (snd m)) ms))" by (intro Max_ge) auto
      then show "depthOK lim (d + nesting (snd m))"
        using "2.prems"(4) ms(2) by (auto simp: depthOK_def)
    qed
    with "2.IH"(1) [OF t refl TObject, of ms r "[]" d "n + 1"] ms t TObject d n "2.prems"
    show ?thesis by (simp add: add.assoc)
  next
    case TArray
    with t "2.prems"(1) obtain vs where vs: "parseElements k True r0 = Some (vs, r)" "v = JArray vs"
      by auto
    have "\<forall>w \<in> set vs. depthOK lim (d + nesting w)"
    proof
      fix w assume "w \<in> set vs"
      then have "nesting w \<le> Max (set (0 # map nesting vs))" by (intro Max_ge) auto
      then show "depthOK lim (d + nesting w)"
        using "2.prems"(4) vs(2) by (auto simp: depthOK_def)
    qed
    with "2.IH"(2) [OF t refl TArray, of vs r d "n + 1"] vs t TArray d n "2.prems"
    show ?thesis by (simp add: add.assoc)
  next
    case (TScalar x)
    with "2.prems"(1) t d n show ?thesis by auto
  qed
next
  case (4 k first s)
  show ?case
  proof (cases "moreTokens s")
    case True
    with "4.prems"(1) obtain key r1 v r2 ms' where k: "keyToken first s = Some (key, r1)"
      and v: "parseValue k '':'' r1 = Some (v, r2)" and m: "parseMembers k False r2 = Some (ms', r)"
      and ms: "ms = (key, v) # ms'"
      by (auto split: option.splits)
    have c: "consumeUniqueValue k lim (d + 1) n '':'' r1 = Inr (n + nodeCount v, r2)"
      by (rule "4.IH"(1) [OF True k refl v]) (use "4.prems" ms in \<open>auto simp: nodesOK_def\<close>)
    have "consumeMembers k lim d (n + nodeCount v) (key # seen) False r2
        = Inr (n + nodeCount v + sum_list (map (\<lambda>m. nodeCount (snd m)) ms'), r)"
      by (rule "4.IH"(2) [OF True k refl v refl m]) (use "4.prems" ms in \<open>auto simp: add.assoc\<close>)
    with c k True ms "4.prems"(3) show ?thesis by (simp add: add.assoc)
  qed (use "4.prems" in auto)
next
  case (6 k first s)
  show ?case
  proof (cases "moreTokens s")
    case True
    with "6.prems"(1) obtain v r2 vs' where
      v: "parseValue k (if first then '''' else '','') s = Some (v, r2)"
      and m: "parseElements k False r2 = Some (vs', r)" and vs: "vs = v # vs'"
      by (auto split: option.splits)
    have c: "consumeUniqueValue k lim (d + 1) n (if first then '''' else '','') s
        = Inr (n + nodeCount v, r2)"
      by (rule "6.IH"(1) [OF True v]) (use "6.prems" vs in \<open>auto simp: nodesOK_def\<close>)
    have "consumeElements k lim d (n + nodeCount v) False r2
        = Inr (n + nodeCount v + sum_list (map nodeCount vs'), r)"
      by (rule "6.IH"(2) [OF True v refl m]) (use "6.prems" vs in \<open>auto simp: add.assoc\<close>)
    with c True vs show ?thesis by (simp add: add.assoc)
  qed (use "6.prems" in auto)
qed simp_all


lemma validate_fuel_enough:
  "consumeUniqueValue (2 * length raw + 2) lim 1 0 '''' raw \<noteq> Inl OutOfFuel"
  by (rule consume_fuel(1)) simp

lemma surrogatesFrom_fuel: "surrogatesFrom raw i b \<noteq> Some OutOfFuel"
proof (induction raw i b rule: surrogatesFrom.induct)
  case (1 raw i b)
  then show ?case
    by (subst surrogatesFrom.simps) (simp split: option.splits if_splits del: not_None_eq)
qed

lemma json_accepted_iff:
  "validate raw lim = None \<longleftrightarrow>
     (MaxBytes lim = 0 \<or> length raw \<le> MaxBytes lim) \<and> validString raw
     \<and> validateUnicodeSurrogates raw = None
     \<and> (\<exists>v rest. parseValue (2 * length raw + 2) '''' raw = Some (v, rest) \<and> skipWs rest = []
          \<and> uniqueKeys v \<and> depthOK lim (nesting v) \<and> nodesOK lim (nodeCount v))"
  (is "_ \<longleftrightarrow> ?R")
proof
  assume v: "validate raw lim = None"
  then obtain n rest where c: "consumeUniqueValue (2 * length raw + 2) lim 1 0 '''' raw = Inr (n, rest)"
    and pre: "\<not> (0 < MaxBytes lim \<and> MaxBytes lim < length raw)" "validString raw"
      "validateUnicodeSurrogates raw = None" "skipWs rest = []"
    unfolding validate_def by (simp split: if_splits option.splits sum.splits prod.splits)
  from consume_sound(1) [OF c] pre show ?R by auto
next
  assume r: ?R
  then obtain v rest where p: "parseValue (2 * length raw + 2) '''' raw = Some (v, rest)"
    and w: "skipWs rest = []" and u: "uniqueKeys v" and d: "depthOK lim (nesting v)"
    and n: "nodesOK lim (nodeCount v)" by blast
  have "consumeUniqueValue (2 * length raw + 2) lim 1 0 '''' raw = Inr (0 + nodeCount v, rest)"
    by (rule consume_complete(1) [OF p u]) (use d n in simp_all)
  with r w show "validate raw lim = None" by (auto simp: validate_def)
qed

text \<open>C39: \<open>Validate\<close> accepts an input exactly when it is within the byte limit, is valid
  UTF-8, has no unpaired surrogate escape, and is one JSON value (with nothing after it but
  white space) whose objects have distinct decoded keys at every level, whose nesting is
  within \<open>MaxDepth\<close> and whose node count is within \<open>MaxNodes\<close>; a zero limit disables its
  bound.  The tree is the one the decoder builds from the same bytes.\<close>

theorem json_accepted_exactly:
  "validate raw lim = None \<longleftrightarrow>
     (MaxBytes lim = 0 \<or> length raw \<le> MaxBytes lim) \<and> validString raw
     \<and> validateUnicodeSurrogates raw = None
     \<and> (\<exists>v rest. parseValue (2 * length raw + 2) '''' raw = Some (v, rest) \<and> skipWs rest = []
          \<and> uniqueKeys v \<and> depthOK lim (nesting v) \<and> nodesOK lim (nodeCount v))"
  by (rule json_accepted_iff)

text \<open>Validation always returns: the recursion the model puts on fuel never runs out,
  whatever the bytes and the limits, so every refusal is one the code makes.\<close>

lemma json_validate_returns: "validate raw lim \<noteq> Some OutOfFuel"
  using validate_fuel_enough [of raw lim] surrogatesFrom_fuel [of raw 0 False]
  by (auto simp: validate_def validateUnicodeSurrogates_def split: option.splits sum.splits)

lemma decodeObject_ok:
  assumes "decodeObject raw lim = Inr ms"
  shows "validate raw lim = None \<and> uniqueKeys (JObject ms) \<and> nodesOK lim (nodeCount (JObject ms))
    \<and> depthOK lim (nesting (JObject ms))"
proof -
  from assms have v: "validate raw lim = None" and d: "decodeJson raw = Some (JObject ms)"
    by (auto simp: decodeObject_def split: option.splits if_splits json.splits)
  from v obtain n rest where c: "consumeUniqueValue (2 * length raw + 2) lim 1 0 '''' raw = Inr (n, rest)"
    unfolding validate_def by (simp split: if_splits option.splits sum.splits prod.splits)
  from consume_sound(1) [OF c] v d show ?thesis by (auto simp: decodeJson_def)
qed

end
