(* ===== verification/Json_Fields.thy ===== *)
theory Json_Fields
  imports Json_Value
begin

text \<open>
  How \<open>encoding/json\<close> decodes an object into named fields: the raw bytes of each member
  (\<open>map[string]json.RawMessage\<close>) and the typed reads of a struct's fields from them.  A
  missing field or \<open>null\<close> leaves the zero value; a value of the wrong type is an error
  (\<open>None\<close>).  When a name is repeated, the last member wins.
\<close>

subsection \<open>Raw members\<close>

definition decodeAll :: "string \<Rightarrow> json option" where
  "decodeAll raw =
    (case parseValue (2 * length raw + 2) '''' raw of
       Some (v, rest) \<Rightarrow> if skipWs rest = [] then Some v else None
     | None \<Rightarrow> None)"

fun rawMembers :: "nat \<Rightarrow> bool \<Rightarrow> string \<Rightarrow> (string \<times> string) list \<Rightarrow> (string \<times> string) list option"
where
  "rawMembers 0 first s acc = None"
| "rawMembers (Suc k) first s acc =
    (if \<not> moreTokens s then Some (rev acc)
     else case keyToken first s of
       None \<Rightarrow> None
     | Some (key, r) \<Rightarrow>
         (case eat '':'' r of
            None \<Rightarrow> None
          | Some r1 \<Rightarrow>
              (case parseValue (2 * length r1 + 2) '''' (skipWs r1) of
                 None \<Rightarrow> None
               | Some (v, r2) \<Rightarrow>
                   rawMembers k False r2
                     ((key, take (length (skipWs r1) - length r2) (skipWs r1)) # acc))))"

datatype decodedFields = NotObject | NullValue | Fields "(string \<times> string) list"

definition unmarshalFields :: "string \<Rightarrow> decodedFields" where
  "unmarshalFields raw =
    (case decodeAll raw of
       Some (JScalar SNull) \<Rightarrow> NullValue
     | Some (JObject ms) \<Rightarrow>
         (case rawMembers (length raw + 1) True (drop 1 (skipWs raw)) [] of
            Some kvs \<Rightarrow> Fields kvs
          | None \<Rightarrow> NotObject)
     | _ \<Rightarrow> NotObject)"

definition field :: "(string \<times> string) list \<Rightarrow> string \<Rightarrow> string option" where
  "field kvs name = map_of (rev kvs) name"

subsection \<open>Typed reads\<close>

definition readString :: "(string \<times> string) list \<Rightarrow> string \<Rightarrow> string option" where
  "readString kvs name =
    (case field kvs name of
       None \<Rightarrow> Some ''''
     | Some r \<Rightarrow>
         (case decodeAll r of
            Some (JScalar (SString t)) \<Rightarrow> Some t
          | Some (JScalar SNull) \<Rightarrow> Some ''''
          | _ \<Rightarrow> None))"

text \<open>A pointer to an integer: \<open>Some None\<close> is the nil pointer.\<close>

definition readIntPtr :: "(string \<times> string) list \<Rightarrow> string \<Rightarrow> int option option" where
  "readIntPtr kvs name =
    (case field kvs name of
       None \<Rightarrow> Some None
     | Some r \<Rightarrow>
         (case decodeAll r of
            Some (JScalar (SNumber t)) \<Rightarrow> map_option Some (parseInt t)
          | Some (JScalar SNull) \<Rightarrow> Some None
          | _ \<Rightarrow> None))"

definition readInt :: "(string \<times> string) list \<Rightarrow> string \<Rightarrow> int option" where
  "readInt kvs name =
    map_option (\<lambda>p. case p of None \<Rightarrow> 0 | Some v \<Rightarrow> v) (readIntPtr kvs name)"

fun jsonStrings :: "json list \<Rightarrow> string list option" where
  "jsonStrings [] = Some []"
| "jsonStrings (v # vs) =
    (case v of
       JScalar (SString t) \<Rightarrow> map_option ((#) t) (jsonStrings vs)
     | JScalar SNull \<Rightarrow> map_option ((#) '''') (jsonStrings vs)
     | _ \<Rightarrow> None)"

definition readStrings :: "(string \<times> string) list \<Rightarrow> string \<Rightarrow> string list option" where
  "readStrings kvs name =
    (case field kvs name of
       None \<Rightarrow> Some []
     | Some r \<Rightarrow>
         (case decodeAll r of
            Some (JArray vs) \<Rightarrow> jsonStrings vs
          | Some (JScalar SNull) \<Rightarrow> Some []
          | _ \<Rightarrow> None))"

definition readRaw :: "(string \<times> string) list \<Rightarrow> string \<Rightarrow> string" where
  "readRaw kvs name = (case field kvs name of None \<Rightarrow> '''' | Some r \<Rightarrow> r)"

lemma readIntPtr_range:
  "readIntPtr kvs name = Some (Some v) \<Longrightarrow> minInt64 \<le> v \<and> v \<le> maxInt64"
  by (auto simp: readIntPtr_def dest: parseInt_range split: option.splits json.splits scalar.splits)

end
