(* ===== verification/Wire.thy ===== *)
theory Wire
  imports Json_Fields
begin

text \<open>
  The wire protocol between the runner and the control plane
  (\<open>runner/internal/cloud/protocol.go\<close>): the message records, the hostile-input decoding
  of \<open>run_action\<close> (size, duplicate names, case aliases, option bounds, request id, exact
  argument bytes) and the bounded command text of a result.  The alias checks compare with
  \<open>strings.EqualFold\<close>, whose folding table is the argument \<open>fld\<close>.
\<close>

subsection \<open>Messages\<close>

type_synonym MessageType = string

definition ProtocolVersion :: int where "ProtocolVersion = 1"

definition MsgRunAction :: MessageType where "MsgRunAction = ''run_action''"
definition MsgCancel :: MessageType where "MsgCancel = ''cancel''"
definition MsgAckResult :: MessageType where "MsgAckResult = ''ack_result''"
definition MsgShutdown :: MessageType where "MsgShutdown = ''shutdown''"
definition MsgRefreshCredentials :: MessageType where
  "MsgRefreshCredentials = ''refresh_credentials''"
definition MsgRunnerState :: MessageType where "MsgRunnerState = ''runner_state''"
definition MsgActionStarted :: MessageType where "MsgActionStarted = ''action_started''"
definition MsgActionProgress :: MessageType where "MsgActionProgress = ''action_progress''"
definition MsgActionResult :: MessageType where "MsgActionResult = ''action_result''"
definition MsgHeartbeat :: MessageType where "MsgHeartbeat = ''heartbeat''"
definition MsgError :: MessageType where "MsgError = ''error''"

lemmas message_types = MsgRunAction_def MsgCancel_def MsgAckResult_def MsgShutdown_def
  MsgRefreshCredentials_def MsgRunnerState_def MsgActionStarted_def MsgActionProgress_def
  MsgActionResult_def MsgHeartbeat_def MsgError_def

record Envelope =
  EnvType :: MessageType
  EnvVersion :: int
  EnvRequestID :: string

definition envelope :: "MessageType \<Rightarrow> string \<Rightarrow> Envelope" where
  "envelope t rid = \<lparr>EnvType = t, EnvVersion = ProtocolVersion, EnvRequestID = rid\<rparr>"

definition zeroEnvelope :: Envelope where
  "zeroEnvelope = \<lparr>EnvType = '''', EnvVersion = 0, EnvRequestID = ''''\<rparr>"

record RunOpts =
  TimeoutMS :: int
  MaxStdoutBytes :: int
  MaxStderrBytes :: int

text \<open>The relayed attestation (\<open>attest.Envelope\<close>).\<close>

record Attestation =
  AttVersion :: string
  AttTool :: string
  AttPortalOrigin :: string
  AttActionID :: string
  AttPackRef :: string
  AttArgsSHA256 :: string
  AttRunnerRefs :: "string list"
  AttReason :: string
  AttEvidenceSHA256 :: string
  AttExpectedSHA256 :: string
  AttOperationID :: string
  AttSignature :: string
  AttNonce :: string
  AttIssuedAt :: string
  AttCertChain :: "string list"

record RunActionMsg =
  runEnvelope :: Envelope
  ActionID :: string
  ExpectedPackHash :: string
  PackRef :: string
  RunArgs :: "(string \<times> json) list"
  ArgsRaw :: string
  RunOptions :: "RunOpts option"
  RunReason :: string
  OperationID :: string
  RunAttestation :: "Attestation option"

record ActionProgressMsg =
  progEnvelope :: Envelope
  Seq :: int
  Stream :: string
  Chunk :: string

record ActionResultMsg =
  resEnvelope :: Envelope
  Status :: string
  ExitCode :: int
  DurationMS :: int
  TimedOut :: bool
  EmittedStdoutBytes :: int
  EmittedStderrBytes :: int
  ProgressChunks :: int
  DroppedProgressChunks :: int
  TruncatedOut :: bool
  TruncatedErr :: bool
  ResReason :: string
  ResError :: string
  StructuredOutput :: string
  EventID :: string
  LocalAuditFailed :: bool
  ExecutedCommand :: string
  ExecutedCommandTruncated :: bool

definition zeroResult :: ActionResultMsg where
  "zeroResult = \<lparr>resEnvelope = zeroEnvelope, Status = '''', ExitCode = 0, DurationMS = 0,
     TimedOut = False, EmittedStdoutBytes = 0, EmittedStderrBytes = 0, ProgressChunks = 0,
     DroppedProgressChunks = 0, TruncatedOut = False, TruncatedErr = False, ResReason = '''',
     ResError = '''', StructuredOutput = '''', EventID = '''', LocalAuditFailed = False,
     ExecutedCommand = '''', ExecutedCommandTruncated = False\<rparr>"

abbreviation resRequestID :: "ActionResultMsg \<Rightarrow> string" where
  "resRequestID r \<equiv> EnvRequestID (resEnvelope r)"

abbreviation runRequestID :: "RunActionMsg \<Rightarrow> string" where
  "runRequestID m \<equiv> EnvRequestID (runEnvelope m)"

subsection \<open>Decoding a dispatch\<close>

definition maxActionArgsBytes :: nat where "maxActionArgsBytes = 32768"
definition maxRunActionMessageBytes :: nat where "maxRunActionMessageBytes = 131072"
definition maxRequestIDBytes :: nat where "maxRequestIDBytes = 64"

datatype wire_error =
    MessageTooLarge | InvalidJSON json_error | NotAnObject string
  | NotCanonical string string string
  | BadFieldType | TimeoutNotPositive | StdoutNotPositive | StderrNotPositive
  | ArgsRequired | RequestIDRequired | RequestIDInvalid
  | ArgsTooLarge | ArgsInvalid json_error | ArgsNotObject | ArgsUndecodable

definition validateUniqueJSON :: "string \<Rightarrow> json_error option" where
  "validateUniqueJSON raw = validate raw \<lparr>MaxBytes = 0, MaxDepth = 64, MaxNodes = 0\<rparr>"

record runOptsWire =
  wireTimeoutMS :: "int option"
  wireMaxStdoutBytes :: "int option"
  wireMaxStderrBytes :: "int option"

definition orZero :: "int option \<Rightarrow> int" where
  "orZero p = (case p of None \<Rightarrow> 0 | Some v \<Rightarrow> v)"

definition notPositive :: "int option \<Rightarrow> bool" where
  "notPositive p = (case p of None \<Rightarrow> False | Some v \<Rightarrow> v \<le> 0)"

definition optsValue :: "runOptsWire option \<Rightarrow> wire_error + RunOpts option" where
  "optsValue o' =
    (case o' of
       None \<Rightarrow> Inr None
     | Some w \<Rightarrow>
         if notPositive (wireTimeoutMS w) then Inl TimeoutNotPositive
         else if notPositive (wireMaxStdoutBytes w) then Inl StdoutNotPositive
         else if notPositive (wireMaxStderrBytes w) then Inl StderrNotPositive
         else Inr (Some \<lparr>TimeoutMS = orZero (wireTimeoutMS w),
                         MaxStdoutBytes = orZero (wireMaxStdoutBytes w),
                         MaxStderrBytes = orZero (wireMaxStderrBytes w)\<rparr>))"

definition base64urlChar :: "char \<Rightarrow> bool" where
  "base64urlChar c \<longleftrightarrow>
     (97 \<le> byte c \<and> byte c \<le> 122) \<or> (65 \<le> byte c \<and> byte c \<le> 90)
     \<or> (48 \<le> byte c \<and> byte c \<le> 57) \<or> c = CHR ''_'' \<or> c = CHR ''-''"

definition validateRequestID :: "string \<Rightarrow> wire_error option" where
  "validateRequestID rid =
    (if trimSpace rid = '''' then Some RequestIDRequired
     else if maxRequestIDBytes < length rid then Some RequestIDInvalid
     else if \<not> list_all base64urlChar rid then Some RequestIDInvalid
     else None)"

definition runActionFieldNames :: "string list" where
  "runActionFieldNames = [''type'', ''protocol_version'', ''request_id'', ''action_id'',
     ''expected_pack_hash'', ''pack_ref'', ''args'', ''opts'', ''reason'', ''operation_id'',
     ''attestation'']"

definition runOptsFieldNames :: "string list" where
  "runOptsFieldNames = [''timeout_ms'', ''max_stdout_bytes'', ''max_stderr_bytes'']"

definition attestationFieldNames :: "string list" where
  "attestationFieldNames = [''version'', ''tool'', ''portal_origin'', ''action_id'', ''pack_ref'',
     ''args_sha256'', ''runner_refs'', ''reason'', ''evidence_sha256'', ''expected_sha256'',
     ''operation_id'', ''sig'', ''nonce'', ''issued_at'', ''cert_chain'']"

definition inboundFieldNames :: "MessageType \<Rightarrow> string list option" where
  "inboundFieldNames t =
    (if t = MsgCancel \<or> t = MsgAckResult
     then Some [''type'', ''protocol_version'', ''request_id'']
     else if t = MsgShutdown
     then Some [''type'', ''protocol_version'', ''request_id'', ''reason'', ''message'']
     else if t = MsgRefreshCredentials
     then Some [''type'', ''protocol_version'', ''request_id'', ''token_prefix'']
     else if t = MsgError
     then Some [''type'', ''protocol_version'', ''request_id'', ''code'', ''message'']
     else None)"

definition rawJSONObject :: "string \<Rightarrow> string \<Rightarrow> wire_error + (string \<times> string) list" where
  "rawJSONObject raw label =
    (case unmarshalFields raw of
       Fields kvs \<Rightarrow> Inr kvs
     | NullValue \<Rightarrow> Inl (NotAnObject label)
     | NotObject \<Rightarrow> Inl (NotAnObject label))"

definition rejectKnownAliases ::
  "(nat \<Rightarrow> nat) \<Rightarrow> (string \<times> string) list \<Rightarrow> string \<Rightarrow> string list \<Rightarrow> wire_error option" where
  "rejectKnownAliases fld object label canonical =
    firstErr (concat (map (\<lambda>name.
      map (\<lambda>want. check (name \<noteq> want \<and> equalFold fld name want) (NotCanonical label name want))
        canonical) (map fst object)))"

definition rejectInboundAliases ::
  "(nat \<Rightarrow> nat) \<Rightarrow> string \<Rightarrow> MessageType \<Rightarrow> wire_error option" where
  "rejectInboundAliases fld raw t =
    (case inboundFieldNames t of
       None \<Rightarrow> None
     | Some canonical \<Rightarrow>
         (case rawJSONObject raw t of
            Inl e \<Rightarrow> Some e
          | Inr object \<Rightarrow> rejectKnownAliases fld object t canonical))"

text \<open>The names of one nested object, when it is present and not \<open>null\<close>.\<close>

definition nestedAliases ::
  "(nat \<Rightarrow> nat) \<Rightarrow> (string \<times> string) list \<Rightarrow> string \<Rightarrow> string \<Rightarrow> string list \<Rightarrow> wire_error option" where
  "nestedAliases fld root name label canonical =
    (case field root name of
       None \<Rightarrow> None
     | Some raw \<Rightarrow>
         if raw = ''null'' then None
         else (case rawJSONObject raw label of
                 Inl e \<Rightarrow> Some e
               | Inr object \<Rightarrow> rejectKnownAliases fld object label canonical))"

definition validateRunActionFieldNames :: "(nat \<Rightarrow> nat) \<Rightarrow> string \<Rightarrow> wire_error option" where
  "validateRunActionFieldNames fld data =
    (case rawJSONObject data ''run_action'' of
       Inl e \<Rightarrow> Some e
     | Inr root \<Rightarrow>
         firstErr [rejectKnownAliases fld root ''run_action'' runActionFieldNames,
           nestedAliases fld root ''opts'' ''run_action opts'' runOptsFieldNames,
           nestedAliases fld root ''attestation'' ''run_action attestation'' attestationFieldNames])"

definition normalizedArgsRaw :: "string \<Rightarrow> string" where
  "normalizedArgsRaw raw = (if raw = '''' then ''{}'' else raw)"

definition decodeActionArgs :: "string \<Rightarrow> wire_error + (string \<times> json) list" where
  "decodeActionArgs raw0 =
    (let raw = normalizedArgsRaw raw0 in
     if maxActionArgsBytes < length raw then Inl ArgsTooLarge
     else case validateUniqueJSON raw of
       Some e \<Rightarrow> Inl (ArgsInvalid e)
     | None \<Rightarrow>
         if \<not> prefix ''{'' (trimSpace raw) then Inl ArgsNotObject
         else (case decodeAll raw of
                 Some (JObject ms) \<Rightarrow> Inr ms
               | _ \<Rightarrow> Inl ArgsUndecodable))"

text \<open>The struct decoding of \<open>runActionMsgWire\<close> and its nested objects: \<open>None\<close> is a field of
  the wrong type, and a missing or \<open>null\<close> nested object is a nil pointer.\<close>

definition nestedFields :: "(string \<times> string) list \<Rightarrow> string \<Rightarrow> (string \<times> string) list option option"
where
  "nestedFields kvs name =
    (case field kvs name of
       None \<Rightarrow> Some None
     | Some raw \<Rightarrow>
         (case unmarshalFields raw of
            Fields sub \<Rightarrow> Some (Some sub) | NullValue \<Rightarrow> Some None | NotObject \<Rightarrow> None))"

definition decodeOptsWire :: "(string \<times> string) list \<Rightarrow> runOptsWire option" where
  "decodeOptsWire kvs =
    Option.bind (readIntPtr kvs ''timeout_ms'') (\<lambda>t.
    Option.bind (readIntPtr kvs ''max_stdout_bytes'') (\<lambda>out.
    Option.bind (readIntPtr kvs ''max_stderr_bytes'') (\<lambda>err.
      Some \<lparr>wireTimeoutMS = t, wireMaxStdoutBytes = out, wireMaxStderrBytes = err\<rparr>)))"

definition decodeAttestation :: "(string \<times> string) list \<Rightarrow> Attestation option" where
  "decodeAttestation kvs =
    Option.bind (readString kvs ''version'') (\<lambda>v.
    Option.bind (readString kvs ''tool'') (\<lambda>tool.
    Option.bind (readString kvs ''portal_origin'') (\<lambda>po.
    Option.bind (readString kvs ''action_id'') (\<lambda>act.
    Option.bind (readString kvs ''pack_ref'') (\<lambda>pack.
    Option.bind (readString kvs ''args_sha256'') (\<lambda>argsSum.
    Option.bind (readStrings kvs ''runner_refs'') (\<lambda>refs.
    Option.bind (readString kvs ''reason'') (\<lambda>reason.
    Option.bind (readString kvs ''evidence_sha256'') (\<lambda>ev.
    Option.bind (readString kvs ''expected_sha256'') (\<lambda>ex.
    Option.bind (readString kvs ''operation_id'') (\<lambda>opid.
    Option.bind (readString kvs ''sig'') (\<lambda>sig.
    Option.bind (readString kvs ''nonce'') (\<lambda>nonce.
    Option.bind (readString kvs ''issued_at'') (\<lambda>issued.
    Option.bind (readStrings kvs ''cert_chain'') (\<lambda>chain.
      Some \<lparr>AttVersion = v, AttTool = tool, AttPortalOrigin = po, AttActionID = act,
        AttPackRef = pack, AttArgsSHA256 = argsSum, AttRunnerRefs = refs, AttReason = reason,
        AttEvidenceSHA256 = ev, AttExpectedSHA256 = ex, AttOperationID = opid,
        AttSignature = sig, AttNonce = nonce, AttIssuedAt = issued, AttCertChain = chain\<rparr>)))))))))))))))"

record runActionMsgWire =
  wireEnvelope :: Envelope
  wireActionID :: string
  wireExpectedPackHash :: string
  wirePackRef :: string
  wireArgs :: string
  wireOpts :: "runOptsWire option"
  wireReason :: string
  wireOperationID :: string
  wireAttestation :: "Attestation option"

definition decodeEnvelope :: "(string \<times> string) list \<Rightarrow> Envelope option" where
  "decodeEnvelope kvs =
    Option.bind (readString kvs ''type'') (\<lambda>t.
    Option.bind (readInt kvs ''protocol_version'') (\<lambda>v.
    Option.bind (readString kvs ''request_id'') (\<lambda>rid.
      Some \<lparr>EnvType = t, EnvVersion = v, EnvRequestID = rid\<rparr>)))"

definition optionalNested ::
  "((string \<times> string) list \<Rightarrow> 'a option) \<Rightarrow> (string \<times> string) list \<Rightarrow> string \<Rightarrow> 'a option option" where
  "optionalNested dec kvs name =
    Option.bind (nestedFields kvs name)
      (\<lambda>sub. case sub of None \<Rightarrow> Some None | Some s \<Rightarrow> map_option Some (dec s))"

definition decodeRunActionWire :: "(string \<times> string) list \<Rightarrow> runActionMsgWire option" where
  "decodeRunActionWire kvs =
    Option.bind (decodeEnvelope kvs) (\<lambda>env.
    Option.bind (readString kvs ''action_id'') (\<lambda>act.
    Option.bind (readString kvs ''expected_pack_hash'') (\<lambda>hash.
    Option.bind (readString kvs ''pack_ref'') (\<lambda>ref.
    Option.bind (optionalNested decodeOptsWire kvs ''opts'') (\<lambda>opts.
    Option.bind (readString kvs ''reason'') (\<lambda>reason.
    Option.bind (readString kvs ''operation_id'') (\<lambda>opid.
    Option.bind (optionalNested decodeAttestation kvs ''attestation'') (\<lambda>att.
      Some \<lparr>wireEnvelope = env, wireActionID = act, wireExpectedPackHash = hash,
        wirePackRef = ref, wireArgs = readRaw kvs ''args'', wireOpts = opts,
        wireReason = reason, wireOperationID = opid, wireAttestation = att\<rparr>))))))))"

definition buildRunAction :: "runActionMsgWire \<Rightarrow> wire_error + RunActionMsg" where
  "buildRunAction w =
    rbind (optsValue (wireOpts w)) (\<lambda>opts.
      if wireArgs w = '''' then Inl ArgsRequired
      else case validateRequestID (EnvRequestID (wireEnvelope w)) of
        Some e \<Rightarrow> Inl e
      | None \<Rightarrow>
          rbind (decodeActionArgs (wireArgs w)) (\<lambda>args.
            Inr \<lparr>runEnvelope = wireEnvelope w, ActionID = wireActionID w,
                 ExpectedPackHash = wireExpectedPackHash w, PackRef = wirePackRef w,
                 RunArgs = args, ArgsRaw = normalizedArgsRaw (wireArgs w),
                 RunOptions = opts, RunReason = wireReason w, OperationID = wireOperationID w,
                 RunAttestation = wireAttestation w\<rparr>))"

text \<open>\<open>RunActionMsg.UnmarshalJSON\<close>.\<close>

definition unmarshalRunAction :: "(nat \<Rightarrow> nat) \<Rightarrow> string \<Rightarrow> wire_error + RunActionMsg" where
  "unmarshalRunAction fld data =
    (if maxRunActionMessageBytes < length data then Inl MessageTooLarge
     else case validateUniqueJSON data of
       Some e \<Rightarrow> Inl (InvalidJSON e)
     | None \<Rightarrow>
         (case validateRunActionFieldNames fld data of
            Some e \<Rightarrow> Inl e
          | None \<Rightarrow>
              (case unmarshalFields data of
                 Fields kvs \<Rightarrow>
                   (case decodeRunActionWire kvs of
                      None \<Rightarrow> Inl BadFieldType
                    | Some w \<Rightarrow> buildRunAction w)
               | _ \<Rightarrow> Inl BadFieldType)))"

subsection \<open>Options\<close>

text \<open>\<open>RunOpts.Timeout\<close> in nanoseconds: \<open>time.Duration\<close> is a 64-bit integer and the product
  wraps.\<close>

definition optsTimeout :: "RunOpts option \<Rightarrow> int" where
  "optsTimeout o' = (case o' of None \<Rightarrow> 0 | Some r \<Rightarrow> wrap64 (TimeoutMS r * 1000000))"

definition hasOverrides :: "RunOpts option \<Rightarrow> bool" where
  "hasOverrides o' =
    (case o' of
       None \<Rightarrow> False
     | Some r \<Rightarrow> TimeoutMS r \<noteq> 0 \<or> MaxStdoutBytes r \<noteq> 0 \<or> MaxStderrBytes r \<noteq> 0)"

subsection \<open>The command text of a result\<close>

definition maxExecutedCommandBytes :: nat where "maxExecutedCommandBytes = 16384"

text \<open>\<open>bytes.ToValidUTF8\<close>: each run of undecodable bytes becomes one replacement.\<close>

definition replacement :: string where
  "replacement = encodeRune runeError"

fun toValid :: "bool \<Rightarrow> (nat \<times> string) list \<Rightarrow> string" where
  "toValid inBad [] = ''''"
| "toValid inBad ((r, b) # segs) =
    (if r = runeError \<and> length b = 1
     then (if inBad then '''' else replacement) @ toValid True segs
     else b @ toValid False segs)"

definition toValidUTF8 :: "string \<Rightarrow> string" where
  "toValidUTF8 s = toValid False (segments s)"

fun validCut :: "string \<Rightarrow> nat \<Rightarrow> nat" where
  "validCut s 0 = 0"
| "validCut s (Suc n) = (if validString (take (Suc n) s) then Suc n else validCut s n)"

definition boundExecutedCommand :: "string \<Rightarrow> string \<times> bool" where
  "boundExecutedCommand command0 =
    (let command = (if validString command0 then command0 else toValidUTF8 command0) in
     if length command \<le> maxExecutedCommandBytes then (command, False)
     else (take (validCut command maxExecutedCommandBytes) command, True))"

subsection \<open>The envelope\<close>

text \<open>\<open>PeekEnvelope\<close> decodes with Go's case-insensitive field names: a member whose name
  folds to a field's name is that field.\<close>

definition canonicalName :: "(nat \<Rightarrow> nat) \<Rightarrow> string list \<Rightarrow> string \<Rightarrow> string" where
  "canonicalName fld names k =
    (if k \<in> set names then k
     else case List.find (\<lambda>n. equalFold fld k n) names of Some n \<Rightarrow> n | None \<Rightarrow> k)"

definition foldNames ::
  "(nat \<Rightarrow> nat) \<Rightarrow> string list \<Rightarrow> (string \<times> string) list \<Rightarrow> (string \<times> string) list" where
  "foldNames fld names kvs = map (\<lambda>(k, r). (canonicalName fld names k, r)) kvs"

definition peekEnvelope :: "(nat \<Rightarrow> nat) \<Rightarrow> string \<Rightarrow> Envelope option" where
  "peekEnvelope fld raw =
    (case unmarshalFields raw of
       Fields kvs \<Rightarrow>
         decodeEnvelope (foldNames fld [''type'', ''protocol_version'', ''request_id''] kvs)
     | NullValue \<Rightarrow> Some zeroEnvelope
     | NotObject \<Rightarrow> None)"

subsection \<open>What decoding guarantees\<close>

lemma validateRequestID_ok:
  "validateRequestID rid = None \<Longrightarrow>
     rid \<noteq> '''' \<and> length rid \<le> maxRequestIDBytes \<and> list_all base64urlChar rid"
  by (auto simp: validateRequestID_def split: if_splits)

lemma decodeActionArgs_ok:
  "decodeActionArgs raw = Inr args \<Longrightarrow>
     length (normalizedArgsRaw raw) \<le> maxActionArgsBytes
     \<and> validateUniqueJSON (normalizedArgsRaw raw) = None
     \<and> decodeAll (normalizedArgsRaw raw) = Some (JObject args)"
  by (auto simp: decodeActionArgs_def Let_def split: if_splits option.splits json.splits)

definition optsPositive :: "RunOpts \<Rightarrow> bool" where
  "optsPositive r \<longleftrightarrow> 0 \<le> TimeoutMS r \<and> 0 \<le> MaxStdoutBytes r \<and> 0 \<le> MaxStderrBytes r"

lemma optsValue_ok: "optsValue w = Inr (Some r) \<Longrightarrow> optsPositive r"
  by (auto simp: optsValue_def optsPositive_def notPositive_def orZero_def
      split: option.splits if_splits)

lemma buildRunAction_ok:
  assumes "buildRunAction w = Inr m"
  shows "validateRequestID (runRequestID m) = None"
    and "decodeActionArgs (ArgsRaw m) = Inr (RunArgs m)"
    and "case RunOptions m of None \<Rightarrow> True | Some r \<Rightarrow> optsPositive r"
    and "normalizedArgsRaw (ArgsRaw m) = ArgsRaw m"
proof -
  from assms obtain opts args where o: "optsValue (wireOpts w) = Inr opts"
    and ne: "wireArgs w \<noteq> ''''" and v: "validateRequestID (EnvRequestID (wireEnvelope w)) = None"
    and a: "decodeActionArgs (wireArgs w) = Inr args"
    and m: "runEnvelope m = wireEnvelope w" "RunArgs m = args" "RunOptions m = opts"
      "ArgsRaw m = normalizedArgsRaw (wireArgs w)"
    by (auto simp: buildRunAction_def result_simps split: if_splits option.splits)
  show "validateRequestID (runRequestID m) = None" using v m by simp
  show "decodeActionArgs (ArgsRaw m) = Inr (RunArgs m)"
    using a m ne by (simp add: normalizedArgsRaw_def)
  show "case RunOptions m of None \<Rightarrow> True | Some r \<Rightarrow> optsPositive r"
    using o m optsValue_ok by (auto split: option.split)
  show "normalizedArgsRaw (ArgsRaw m) = ArgsRaw m" using m by (simp add: normalizedArgsRaw_def)
qed


definition sampleDispatch :: string where
  "sampleDispatch = concat [''{'', [quote], ''request_id'', [quote], '':'', [quote], ''r1'', [quote],
     '','', [quote], ''args'', [quote], '':{}'', '','', [quote], ''opts'', [quote], '':{'',
     [quote], ''timeout_ms'', [quote], '':5000}}'']"



subsection \<open>The bounded command text\<close>

lemma validCut_le: "validCut s n \<le> n"
  by (induction n) auto

lemma validCut_valid: "validString (take (validCut s n) s)"
  by (induction n) (auto simp: validString_def)

lemma validCut_greatest: "validCut s n < m \<Longrightarrow> m \<le> n \<Longrightarrow> \<not> validString (take m s)"
  by (induction n) (auto simp: le_Suc_eq split: if_splits)

lemma replacement_segment:
  "decodeRune replacement = (runeError, length replacement) \<and> replacement \<noteq> [] \<and> length replacement = 3"
  by code_simp

lemma toValid_segments:
  "(\<forall>x \<in> set ss. \<not> badSegment x \<longrightarrow> decodeRune (snd x) = (fst x, length (snd x)) \<and> snd x \<noteq> []) \<Longrightarrow>
   \<exists>segs. toValid b ss = concat (map snd segs) \<and>
     (\<forall>x \<in> set segs. decodeRune (snd x) = (fst x, length (snd x)) \<and> snd x \<noteq> [] \<and> \<not> badSegment x)"
proof (induction b ss rule: toValid.induct)
  case (1 b)
  show ?case by (rule exI [of _ "[]"]) simp
next
  case (2 b r w segs)
  show ?case
  proof (cases "r = runeError \<and> length w = 1")
    case True
    with "2.IH"(1) "2.prems" obtain tl where tl: "toValid True segs = concat (map snd tl)"
      "\<forall>x \<in> set tl. decodeRune (snd x) = (fst x, length (snd x)) \<and> snd x \<noteq> [] \<and> \<not> badSegment x"
      by auto
    show ?thesis
      using True tl replacement_segment
      by (intro exI [of _ "(if b then [] else [(runeError, replacement)]) @ tl"])
        (auto simp: badSegment_def)
  next
    case False
    with "2.IH"(2) "2.prems" obtain tl where tl: "toValid False segs = concat (map snd tl)"
      "\<forall>x \<in> set tl. decodeRune (snd x) = (fst x, length (snd x)) \<and> snd x \<noteq> [] \<and> \<not> badSegment x"
      by auto
    have nb: "\<not> badSegment (r, w)" using False by (simp add: badSegment_def)
    show ?thesis
      using False nb tl "2.prems" by (intro exI [of _ "(r, w) # tl"]) auto
  qed
qed

lemma toValidUTF8_valid: "validString (toValidUTF8 s)"
proof -
  obtain segs where s: "toValidUTF8 s = concat (map snd segs)"
    and g: "\<forall>x \<in> set segs. decodeRune (snd x) = (fst x, length (snd x)) \<and> snd x \<noteq> [] \<and> \<not> badSegment x"
    unfolding toValidUTF8_def using toValid_segments [of "segments s" False] segment_self by blast
  then show ?thesis using segments_concat_valid [OF g] by (simp add: validString_iff)
qed

definition sanitizedCommand :: "string \<Rightarrow> string" where
  "sanitizedCommand command = (if validString command then command else toValidUTF8 command)"

text \<open>The command text put on the wire is always valid UTF-8 and at most 16384 bytes, and
  it is a prefix of the sanitised command: the whole of it when it fits, and otherwise the
  longest prefix within the limit that does not split a character, flagged as truncated.\<close>

lemma command_text_bounded:
  "validString (fst (boundExecutedCommand command))
   \<and> length (fst (boundExecutedCommand command)) \<le> maxExecutedCommandBytes
   \<and> prefix (fst (boundExecutedCommand command)) (sanitizedCommand command)
   \<and> (snd (boundExecutedCommand command) \<longleftrightarrow> maxExecutedCommandBytes < length (sanitizedCommand command))
   \<and> (snd (boundExecutedCommand command) \<or> fst (boundExecutedCommand command) = sanitizedCommand command)
   \<and> \<not> (\<exists>n. length (fst (boundExecutedCommand command)) < n \<and> n \<le> maxExecutedCommandBytes
         \<and> n \<le> length (sanitizedCommand command) \<and> validString (take n (sanitizedCommand command)))"
proof -
  define c where "c = sanitizedCommand command"
  have v: "validString c" by (simp add: c_def sanitizedCommand_def toValidUTF8_valid)
  have b: "boundExecutedCommand command =
      (if length c \<le> maxExecutedCommandBytes then (c, False)
       else (take (validCut c maxExecutedCommandBytes) c, True))"
    by (simp add: boundExecutedCommand_def c_def sanitizedCommand_def Let_def)
  show ?thesis
    unfolding b c_def [symmetric]
    using validCut_greatest [of c maxExecutedCommandBytes] validCut_le [of c maxExecutedCommandBytes] v
    by (auto simp: validCut_valid take_is_prefix not_le)
qed

end
