(* ===== verification/Dispatch_Log.thy ===== *)
theory Dispatch_Log
  imports Wire
begin

text \<open>
  The durable dispatch log (\<open>runner/internal/cloud/dedup.go\<close>): the bounded ring of dispatch
  records in memory.  A line of the log file is represented by what it decodes to
  (\<open>logLine\<close>); \<open>Dispatch_Store\<close> models the file and its input/output.  The SHA-256 function
  is the argument \<open>sha\<close> (the lower-case hexadecimal digest of its input).
\<close>

subsection \<open>Entries\<close>

datatype dispatchState =
    dispatchReserved | dispatchCompleted | dispatchAcknowledged | OtherState string

record dedupEntry =
  EntRequestID :: string
  DispatchSHA256 :: string
  State :: dispatchState
  EntResult :: ActionResultMsg

record dispatchTransition =
  Version :: int
  Entry :: dedupEntry
  Evict :: string

datatype reservationDecision =
  reservationNew | reservationReplay | reservationPending | reservationConflict

datatype log_error =
    InvalidDigest | CapacityReached | InvalidTerminalResult string | CompleteUnreserved string
  | DigestChanged string | ResultChanged string | CompleteInvalidState string dispatchState
  | AcknowledgeIncomplete string | AcknowledgeInvalidState string dispatchState
  | InvalidTransition | InvalidEviction | InvalidStateTransition
  | InvalidEntryLine nat | InvalidTransitionLine nat | SnapshotAfterTransition nat
  | DuplicateEntryLine nat
  | FileNotExist | NotRegularFile | IOFailed string | RecordTooLarge | SnapshotChanged
  | ChangedWhilePreparing | RollbackFailed log_error | MigrateFailed log_error

subsection \<open>Validity\<close>

definition engineStatuses :: "string list" where
  "engineStatuses = [''success'', ''failed'', ''error'', ''validation_failed'', ''unknown_action'',
     ''timed_out'', ''cancelled'', ''blocked_by_admission'']"

definition runnerResultStatuses :: "string list" where
  "runnerResultStatuses = engineStatuses @ [''signature_invalid'', ''pack_hash_mismatch'']"

fun memberOf :: "string list \<Rightarrow> string \<Rightarrow> bool" where
  "memberOf [] s = False"
| "memberOf (x # xs) s = (if s = x then True else memberOf xs s)"

definition validActionResultStatus :: "string \<Rightarrow> bool" where
  "validActionResultStatus s = memberOf runnerResultStatuses s"

definition resultLimits :: Limits where
  "resultLimits = \<lparr>MaxBytes = 8192, MaxDepth = 16, MaxNodes = 1024\<rparr>"

definition isObject :: "string \<Rightarrow> Limits \<Rightarrow> bool" where
  "isObject raw lim = (case decodeObject raw lim of Inl _ \<Rightarrow> False | Inr _ \<Rightarrow> True)"

definition validActionResult :: "ActionResultMsg \<Rightarrow> string \<Rightarrow> bool" where
  "validActionResult r rid =
    (if EnvType (resEnvelope r) \<noteq> MsgActionResult
        \<or> EnvVersion (resEnvelope r) \<noteq> ProtocolVersion \<or> resRequestID r \<noteq> rid then False
     else if LocalAuditFailed r \<noteq> (EventID r = '''') then False
     else if 0 < length (StructuredOutput r)
             \<and> (Status r \<noteq> ''success'' \<or> \<not> isObject (StructuredOutput r) resultLimits) then False
     else validActionResultStatus (Status r))"

definition isHex :: "string \<Rightarrow> bool" where
  "isHex s \<longleftrightarrow> even (length s) \<and> list_all (\<lambda>c. hexVal c \<noteq> None) s"

definition validDispatchDigest :: "string \<Rightarrow> bool" where
  "validDispatchDigest d \<longleftrightarrow> length d = 64 \<and> isHex d"

definition validDedupEntry :: "dedupEntry \<Rightarrow> bool" where
  "validDedupEntry e =
    (if EntRequestID e = '''' \<or> length (DispatchSHA256 e) \<noteq> 64 then False
     else if \<not> isHex (DispatchSHA256 e) then False
     else case State e of
       dispatchReserved \<Rightarrow> EntResult e = zeroResult
     | dispatchCompleted \<Rightarrow> validActionResult (EntResult e) (EntRequestID e)
     | dispatchAcknowledged \<Rightarrow> validActionResult (EntResult e) (EntRequestID e)
     | OtherState s \<Rightarrow> False)"

definition validLegacyActionResult :: "ActionResultMsg \<Rightarrow> string \<Rightarrow> bool" where
  "validLegacyActionResult r rid =
    (if EnvType (resEnvelope r) \<noteq> MsgActionResult \<or> resRequestID r \<noteq> rid then False
     else validActionResultStatus (Status r))"

definition legacyDispatchDigest :: "(string \<Rightarrow> string) \<Rightarrow> string \<Rightarrow> string" where
  "legacyDispatchDigest sha rid = sha (''emisar-legacy-dispatch-v1'' @ [CHR 0x00] @ rid)"

text \<open>A pre-v0.10 line, once decoded, becomes an acknowledged entry under the sentinel digest.\<close>

definition decodeLegacyDedupEntry ::
  "(string \<Rightarrow> string) \<Rightarrow> string \<Rightarrow> ActionResultMsg \<Rightarrow> dedupEntry option" where
  "decodeLegacyDedupEntry sha rid r =
    (if rid = '''' then None
     else if \<not> validLegacyActionResult r rid then None
     else Some \<lparr>EntRequestID = rid, DispatchSHA256 = legacyDispatchDigest sha rid,
                State = dispatchAcknowledged,
                EntResult = r\<lparr>resEnvelope := envelope MsgActionResult rid, EventID := '''',
                              LocalAuditFailed := True\<rparr>\<rparr>)"

text \<open>What a line of the log is, after JSON decoding: a current entry, a current entry that
  still carried \<open>result.redactions\<close>, a pre-v0.10 line, a transition, or anything else.\<close>

datatype logLine =
    EntryLine dedupEntry
  | RedactionsLine dedupEntry
  | LegacyLine string ActionResultMsg
  | TransitionLine dispatchTransition
  | BadLine

text \<open>\<open>decodeDedupEntry\<close>: the entry, and whether the line used an older shape.\<close>

definition decodeDedupEntry :: "(string \<Rightarrow> string) \<Rightarrow> logLine \<Rightarrow> (dedupEntry \<times> bool) option" where
  "decodeDedupEntry sha l =
    (case l of
       EntryLine e \<Rightarrow> if validDedupEntry e then Some (e, False) else None
     | RedactionsLine e \<Rightarrow> if validDedupEntry e then Some (e, True) else None
     | LegacyLine rid r \<Rightarrow> map_option (\<lambda>e. (e, True)) (decodeLegacyDedupEntry sha rid r)
     | TransitionLine t \<Rightarrow> None
     | BadLine \<Rightarrow> None)"

subsection \<open>Transitions\<close>

type_synonym entries = "string \<rightharpoonup> dedupEntry"

definition stateOf :: "entries \<Rightarrow> string \<Rightarrow> dispatchState" where
  "stateOf records k = (case records k of None \<Rightarrow> OtherState '''' | Some e \<Rightarrow> State e)"

definition validateDispatchTransition :: "entries \<Rightarrow> dispatchTransition \<Rightarrow> log_error option" where
  "validateDispatchTransition records t =
    (let entry = Entry t; previous = records (EntRequestID entry) in
     if Version t \<noteq> 1 \<or> \<not> validDedupEntry entry then Some InvalidTransition
     else if Evict t \<noteq> '''' \<and> (State entry \<noteq> dispatchReserved \<or> Evict t = EntRequestID entry
               \<or> stateOf records (Evict t) \<noteq> dispatchAcknowledged) then Some InvalidEviction
     else case State entry of
       dispatchReserved \<Rightarrow> if previous = None then None else Some InvalidStateTransition
     | dispatchCompleted \<Rightarrow>
         (case previous of
            Some p \<Rightarrow> if State p = dispatchReserved \<and> DispatchSHA256 p = DispatchSHA256 entry
                      then None else Some InvalidStateTransition
          | None \<Rightarrow> Some InvalidStateTransition)
     | dispatchAcknowledged \<Rightarrow>
         (case previous of
            Some p \<Rightarrow> if State p = dispatchCompleted \<and> DispatchSHA256 p = DispatchSHA256 entry
                         \<and> EntResult p = EntResult entry
                      then None else Some InvalidStateTransition
          | None \<Rightarrow> Some InvalidStateTransition)
     | OtherState s \<Rightarrow> Some InvalidStateTransition)"

definition applyDispatchTransition ::
  "string list \<Rightarrow> entries \<Rightarrow> dispatchTransition \<Rightarrow> string list \<times> entries" where
  "applyDispatchTransition keys records t =
    (let keys1 = (if Evict t \<noteq> '''' then deleteFirst (\<lambda>k. k = Evict t) keys else keys);
         records1 = (if Evict t \<noteq> '''' then records(Evict t := None) else records);
         keys2 = (if State (Entry t) = dispatchReserved
                  then keys1 @ [EntRequestID (Entry t)] else keys1)
     in (keys2, records1(EntRequestID (Entry t) \<mapsto> Entry t)))"

subsection \<open>Classification\<close>

definition classifyLocked ::
  "entries \<Rightarrow> string \<Rightarrow> string \<Rightarrow> reservationDecision \<times> ActionResultMsg \<times> bool" where
  "classifyLocked records rid digest =
    (case records rid of
       None \<Rightarrow> (reservationNew, zeroResult, False)
     | Some e \<Rightarrow>
         if DispatchSHA256 e \<noteq> digest then (reservationConflict, zeroResult, True)
         else if State e = dispatchCompleted \<or> State e = dispatchAcknowledged
           then (reservationReplay, EntResult e, True)
         else (reservationPending, zeroResult, True))"

fun oldestAcknowledged :: "entries \<Rightarrow> string list \<Rightarrow> string" where
  "oldestAcknowledged records [] = ''''"
| "oldestAcknowledged records (k # ks) =
    (if stateOf records k = dispatchAcknowledged then k else oldestAcknowledged records ks)"

fun evictOldestAcknowledged ::
  "entries \<Rightarrow> string list \<Rightarrow> (string list \<times> entries) option" where
  "evictOldestAcknowledged records [] = None"
| "evictOldestAcknowledged records (k # ks) =
    (if stateOf records k = dispatchAcknowledged then Some (ks, records(k := None))
     else map_option (\<lambda>(ks', r). (k # ks', r)) (evictOldestAcknowledged records ks))"

lemma evictOldest_length:
  "evictOldestAcknowledged records ks = Some (ks', r) \<Longrightarrow> length ks' < length ks"
  by (induction ks arbitrary: ks' r) (auto split: if_splits)

function evictToMax :: "nat \<Rightarrow> string list \<Rightarrow> entries \<Rightarrow> string list \<times> entries" where
  "evictToMax mx keys records =
    (if mx < length keys then
       (case evictOldestAcknowledged records keys of
          None \<Rightarrow> (keys, records)
        | Some (keys', records') \<Rightarrow> evictToMax mx keys' records')
     else (keys, records))"
  by pat_completeness auto
termination
  by (relation "measure (\<lambda>(mx, keys, records). length keys)") (auto dest: evictOldest_length)

declare evictToMax.simps [simp del]

end
