(* ===== verification/Dispatch_Store.thy ===== *)
theory Dispatch_Store
  imports Dispatch_Log
begin

text \<open>
  The file behind the dispatch log (\<open>runner/internal/cloud/dedup_store.go\<close> and the loading
  half of \<open>dedup.go\<close>).  A file is its identity, its modification time and its lines with
  their byte lengths; \<open>synced\<close> bytes survive a host crash.  Every input/output call takes its
  outcome from the \<open>script\<close> of the world, so a statement about all scripts covers every
  pattern of failures; \<open>After n\<close> fails having done the first \<open>n\<close> bytes of the work.  The
  length of an encoded line without its newline is the argument \<open>bl\<close>.
\<close>

subsection \<open>Files and faults\<close>

record DispatchFile =
  fileId :: nat
  fileTime :: nat
  fileRegular :: bool
  fileLines :: "(logLine \<times> nat) list"
  fileNewline :: bool
  fileSynced :: nat

definition sizeOf :: "(logLine \<times> nat) list \<Rightarrow> nat" where
  "sizeOf ls = sum_list (map snd ls)"

definition fileSize :: "DispatchFile \<Rightarrow> nat" where
  "fileSize f = sizeOf (fileLines f)"

record FileInfo =
  infoId :: nat
  infoTime :: nat
  infoSize :: nat
  infoRegular :: bool

definition infoOf :: "DispatchFile \<Rightarrow> FileInfo" where
  "infoOf f = \<lparr>infoId = fileId f, infoTime = fileTime f, infoSize = fileSize f,
               infoRegular = fileRegular f\<rparr>"

datatype fault = Works | Fails | After nat

record World =
  files :: "string \<rightharpoonup> DispatchFile"
  replaced :: "string \<Rightarrow> DispatchFile option list"
  clock :: nat
  script :: "fault list"

definition nextFault :: "World \<Rightarrow> fault \<times> World" where
  "nextFault w =
    (case script w of [] \<Rightarrow> (Works, w) | f # fs \<Rightarrow> (f, w\<lparr>script := fs\<rparr>))"

definition setFile :: "string \<Rightarrow> DispatchFile \<Rightarrow> World \<Rightarrow> World" where
  "setFile p f w = w\<lparr>files := (files w)(p \<mapsto> f), clock := Suc (clock w)\<rparr>"

text \<open>Opening, then \<open>Stat\<close> on the handle: the two calls the code makes before using a file.\<close>

definition openFile :: "string \<Rightarrow> World \<Rightarrow> (log_error + DispatchFile) \<times> World" where
  "openFile p w =
    (case nextFault w of (f, w1) \<Rightarrow>
      (case files w p of
         None \<Rightarrow> (Inl FileNotExist, w1)
       | Some d \<Rightarrow> if f = Works then (Inr d, w1) else (Inl (IOFailed ''open''), w1)))"

definition statFile :: "string \<Rightarrow> World \<Rightarrow> (log_error + FileInfo) \<times> World" where
  "statFile p w =
    (case nextFault w of (f, w1) \<Rightarrow>
      (case files w p of
         None \<Rightarrow> (Inl FileNotExist, w1)
       | Some d \<Rightarrow> if f = Works then (Inr (infoOf d), w1) else (Inl (IOFailed ''stat''), w1)))"

fun truncateLines :: "nat \<Rightarrow> (logLine \<times> nat) list \<Rightarrow> (logLine \<times> nat) list" where
  "truncateLines n [] = []"
| "truncateLines n ((l, k) # ls) =
    (if k \<le> n then (l, k) # truncateLines (n - k) ls
     else if n = 0 then [] else [(BadLine, n)])"

text \<open>Whether byte \<open>n\<close> is a line boundary of the file.\<close>

fun atBoundary :: "nat \<Rightarrow> (logLine \<times> nat) list \<Rightarrow> bool" where
  "atBoundary n [] = (n = 0)"
| "atBoundary n ((l, k) # ls) = (if k \<le> n then n = 0 \<or> atBoundary (n - k) ls else n = 0)"

definition truncateFile :: "nat \<Rightarrow> DispatchFile \<Rightarrow> DispatchFile" where
  "truncateFile n d =
    d\<lparr>fileLines := truncateLines n (fileLines d),
      fileNewline := (if fileSize d \<le> n then fileNewline d else atBoundary n (fileLines d)),
      fileSynced := min n (fileSynced d)\<rparr>"

subsection \<open>Reading\<close>

record dispatchStore =
  stEntries :: "dedupEntry list"
  stInfo :: FileInfo
  stLegacy :: bool
  stNeedsSnapshot :: bool
  stSnapshotBytes :: nat
  stTransitions :: nat

text \<open>The state of the scanning loop of \<open>readDispatchStore\<close>.\<close>

record scan =
  scKeys :: "string list"
  scRecords :: entries
  scLegacy :: bool
  scTransitions :: nat
  scConsumed :: nat
  scSnapshotBytes :: nat

definition scanStart :: scan where
  "scanStart = \<lparr>scKeys = [], scRecords = Map.empty, scLegacy = False, scTransitions = 0,
     scConsumed = 0, scSnapshotBytes = 0\<rparr>"

definition scanLine ::
  "(string \<Rightarrow> string) \<Rightarrow> nat \<Rightarrow> logLine \<times> nat \<Rightarrow> scan \<Rightarrow> log_error + scan" where
  "scanLine sha n lk s0 =
    (let s = s0\<lparr>scConsumed := scConsumed s0 + snd lk\<rparr> in
     case fst lk of
       TransitionLine t \<Rightarrow>
         (if validateDispatchTransition (scRecords s) t \<noteq> None then Inl (InvalidTransitionLine n)
          else case applyDispatchTransition (scKeys s) (scRecords s) t of
            (keys, records) \<Rightarrow>
              Inr (s\<lparr>scKeys := keys, scRecords := records, scTransitions := Suc (scTransitions s)\<rparr>))
     | BadLine \<Rightarrow> Inl (InvalidEntryLine n)
     | _ \<Rightarrow>
         (if scTransitions s \<noteq> 0 then Inl (SnapshotAfterTransition n)
          else case decodeDedupEntry sha (fst lk) of
            None \<Rightarrow> Inl (InvalidEntryLine n)
          | Some (e, legacy) \<Rightarrow>
              if scRecords s (EntRequestID e) \<noteq> None then Inl (DuplicateEntryLine n)
              else Inr (s\<lparr>scKeys := scKeys s @ [EntRequestID e],
                         scRecords := (scRecords s)(EntRequestID e \<mapsto> e),
                         scLegacy := scLegacy s \<or> legacy,
                         scSnapshotBytes := scConsumed s\<rparr>)))"

fun scanLines ::
  "(string \<Rightarrow> string) \<Rightarrow> nat \<Rightarrow> (logLine \<times> nat) list \<Rightarrow> scan \<Rightarrow> log_error + scan" where
  "scanLines sha n [] s = Inr s"
| "scanLines sha n (l # ls) s = rbind (scanLine sha n l s) (scanLines sha (Suc n) ls)"

definition entriesOf :: "string list \<Rightarrow> entries \<Rightarrow> dedupEntry list" where
  "entriesOf keys records = List.map_filter records keys"

text \<open>\<open>readDispatchStore\<close>: open, stat, scan, stat again and the check of the final byte.\<close>

definition readDispatchStore ::
  "(string \<Rightarrow> string) \<Rightarrow> string \<Rightarrow> World \<Rightarrow> (log_error + dispatchStore) \<times> World" where
  "readDispatchStore sha p w =
    (case openFile p w of
       (Inl e, w1) \<Rightarrow> (Inl e, w1)
     | (Inr d, w1) \<Rightarrow>
         (case statFile p w1 of
            (Inl e, w2) \<Rightarrow> (Inl e, w2)
          | (Inr info, w2) \<Rightarrow>
              if \<not> infoRegular info then (Inl NotRegularFile, w2)
              else (case scanLines sha 1 (fileLines d) scanStart of
                Inl e \<Rightarrow> (Inl e, w2)
              | Inr s \<Rightarrow>
                  (case nextFault w2 of (rd, w3) \<Rightarrow>
                     if rd \<noteq> Works then (Inl (IOFailed ''read''), w3)
                     else (case statFile p w3 of
                       (Inl e, w4) \<Rightarrow> (Inl e, w4)
                     | (Inr info2, w4) \<Rightarrow>
                         if info2 \<noteq> info then (Inl (IOFailed ''changed while reading''), w4)
                         else (case nextFault w4 of (f, w5) \<Rightarrow>
                           if 0 < infoSize info \<and> f \<noteq> Works
                             then (Inl (IOFailed ''read ending''), w5)
                           else (Inr \<lparr>stEntries = entriesOf (scKeys s) (scRecords s),
                                 stInfo = info, stLegacy = scLegacy s,
                                 stNeedsSnapshot = (0 < infoSize info \<and> \<not> fileNewline d),
                                 stSnapshotBytes = scSnapshotBytes s,
                                 stTransitions = scTransitions s\<rparr>, w5)))))))"

subsection \<open>The ring\<close>

record dedupRing =
  ringMax :: nat
  ringKeys :: "string list"
  ringRecords :: entries
  storePath :: string
  legacyPath :: string
  loadErr :: "log_error option"
  loadErrPath :: string
  loadErrWrite :: bool
  backing :: "FileInfo option"
  needsSnapshot :: bool
  snapshotBytes :: nat
  appendBytes :: nat
  transitionCount :: nat
  persistErr :: "log_error option"

definition unusableLocked :: "dedupRing \<Rightarrow> log_error option" where
  "unusableLocked d = (case loadErr d of Some e \<Rightarrow> Some e | None \<Rightarrow> persistErr d)"

definition maxDispatchLogLineBytes :: nat where
  "maxDispatchLogLineBytes = 16777216"

text \<open>\<open>dispatchLogLine\<close>: the line with its length, newline included.\<close>

definition dispatchLogLine :: "(logLine \<Rightarrow> nat) \<Rightarrow> logLine \<Rightarrow> log_error + logLine \<times> nat" where
  "dispatchLogLine bl l =
    (if maxDispatchLogLineBytes < bl l + 1 then Inl RecordTooLarge else Inr (l, Suc (bl l)))"

definition snapshotLines ::
  "(logLine \<Rightarrow> nat) \<Rightarrow> string list \<Rightarrow> entries \<Rightarrow> log_error + (logLine \<times> nat) list" where
  "snapshotLines bl keys records =
    mapRes (\<lambda>e. dispatchLogLine bl (EntryLine e)) (entriesOf keys records)"

text \<open>\<open>fsutil.ReplaceFile\<close>: nothing visible until the rename; a failure after it
  (the directory sync) leaves a replacement whose survival of a crash is not known.\<close>

definition replaceFile ::
  "string \<Rightarrow> log_error + (logLine \<times> nat) list \<Rightarrow> World \<Rightarrow> log_error option \<times> World" where
  "replaceFile p content w =
    (case content of
       Inl e \<Rightarrow> (Some e, w)
     | Inr ls \<Rightarrow>
         (case nextFault w of (f, w1) \<Rightarrow>
            let new = \<lparr>fileId = clock w1, fileTime = clock w1, fileRegular = True,
                       fileLines = ls, fileNewline = True, fileSynced = sizeOf ls\<rparr>
            in case f of
                 Works \<Rightarrow> (None, setFile p new (w1\<lparr>replaced := (replaced w1)(p := [])\<rparr>))
               | Fails \<Rightarrow> (Some (IOFailed ''replace''), w1)
               | After n \<Rightarrow> (Some (IOFailed ''sync directory''),
                   setFile p new (w1\<lparr>replaced := (replaced w1)(p := files w1 p # replaced w1 p)\<rparr>))))"

definition writeStore ::
  "(logLine \<Rightarrow> nat) \<Rightarrow> dedupRing \<Rightarrow> World \<Rightarrow> log_error option \<times> dedupRing \<times> World" where
  "writeStore bl d0 w0 =
    (if storePath d0 = '''' then (None, d0, w0)
     else let d = d0\<lparr>needsSnapshot := True\<rparr> in
       (case statFile (storePath d) w0 of (info, w) \<Rightarrow>
         (case (case info of
                  Inr i \<Rightarrow> if \<not> infoRegular i then Some NotRegularFile else None
                | Inl e \<Rightarrow> if e = FileNotExist then None else Some e) of
            Some e \<Rightarrow> (Some e, d, w)
          | None \<Rightarrow>
              (case replaceFile (storePath d) (snapshotLines bl (ringKeys d) (ringRecords d)) w of
                 (Some e, w1) \<Rightarrow> (Some e, d, w1)
               | (None, w1) \<Rightarrow>
                   (case openFile (storePath d) w1 of
                      (Inl e, w2) \<Rightarrow> (Some e, d, w2)
                    | (Inr f, w2) \<Rightarrow>
                        (case statFile (storePath d) w2 of
                           (Inl e, w3) \<Rightarrow> (Some e, d, w3)
                         | (Inr i, w3) \<Rightarrow>
                             if \<not> infoRegular i
                                \<or> infoSize i \<noteq> (case snapshotLines bl (ringKeys d) (ringRecords d) of
                                     Inr ls \<Rightarrow> sizeOf ls | Inl e \<Rightarrow> 0)
                             then (Some SnapshotChanged, d, w3)
                             else (None, d\<lparr>backing := Some i, needsSnapshot := False,
                                     snapshotBytes := infoSize i, appendBytes := 0,
                                     transitionCount := 0\<rparr>, w3)))))))"


subsection \<open>Appending a transition\<close>

definition sameDispatchFile :: "FileInfo option \<Rightarrow> FileInfo \<Rightarrow> bool" where
  "sameDispatchFile expected actual =
    (case expected of
       None \<Rightarrow> False
     | Some e \<Rightarrow> infoId e = infoId actual \<and> infoSize e = infoSize actual
                 \<and> infoTime e = infoTime actual)"

definition mustSnapshot :: "dedupRing \<Rightarrow> nat \<Rightarrow> bool" where
  "mustSnapshot d nextBytes \<longleftrightarrow>
     needsSnapshot d \<or> backing d = None \<or> max 64 (3 * ringMax d) \<le> transitionCount d
     \<or> (0 < appendBytes d \<and> max 1048576 (snapshotBytes d) < appendBytes d + nextBytes)"

fun prepareAppend ::
  "nat \<Rightarrow> (logLine \<Rightarrow> nat) \<Rightarrow> nat \<Rightarrow> dedupRing \<Rightarrow> World \<Rightarrow> log_error option \<times> dedupRing \<times> World"
where
  "prepareAppend 0 bl nextBytes d w = (Some ChangedWhilePreparing, d, w)"
| "prepareAppend (Suc attempts) bl nextBytes d0 w0 =
    (case (if mustSnapshot d0 nextBytes then writeStore bl d0 w0 else (None, d0, w0)) of
       (Some e, d, w) \<Rightarrow> (Some e, d, w)
     | (None, d, w) \<Rightarrow>
         (case openFile (storePath d) w of
            (Inl e, w1) \<Rightarrow>
              if e = FileNotExist
              then prepareAppend attempts bl nextBytes (d\<lparr>needsSnapshot := True\<rparr>) w1
              else (Some e, d, w1)
          | (Inr f, w1) \<Rightarrow>
              (case statFile (storePath d) w1 of
                 (Inl e, w2) \<Rightarrow> (Some e, d, w2)
               | (Inr info, w2) \<Rightarrow>
                   if \<not> infoRegular info then (Some NotRegularFile, d, w2)
                   else if sameDispatchFile (backing d) info then (None, d, w2)
                   else prepareAppend attempts bl nextBytes (d\<lparr>needsSnapshot := True\<rparr>) w2)))"

text \<open>\<open>writeDispatchLine\<close> on the append handle: all of the line, none of it, or a torn part.\<close>

definition writeDispatchLine ::
  "string \<Rightarrow> logLine \<times> nat \<Rightarrow> World \<Rightarrow> log_error option \<times> World" where
  "writeDispatchLine p line w =
    (case nextFault w of (f, w1) \<Rightarrow>
      (case files w1 p of
         None \<Rightarrow> (Some (IOFailed ''write''), w1)
       | Some d \<Rightarrow>
           (case f of
              Works \<Rightarrow> (None, setFile p (d\<lparr>fileLines := fileLines d @ [line],
                                     fileNewline := True, fileTime := clock w1\<rparr>) w1)
            | Fails \<Rightarrow> (Some (IOFailed ''write''), w1)
            | After n \<Rightarrow>
                (Some (IOFailed ''short write''),
                 (if n = 0 then w1
                  else if snd line \<le> n then
                    setFile p (d\<lparr>fileLines := fileLines d @ [line], fileNewline := True,
                                 fileTime := clock w1\<rparr>) w1
                  else
                    setFile p (d\<lparr>fileLines := fileLines d @ [(BadLine, n)], fileNewline := False,
                                 fileTime := clock w1\<rparr>) w1)))))"

definition syncFile :: "string \<Rightarrow> World \<Rightarrow> log_error option \<times> World" where
  "syncFile p w =
    (case nextFault w of (f, w1) \<Rightarrow>
      (case files w1 p of
         None \<Rightarrow> (Some (IOFailed ''sync''), w1)
       | Some d \<Rightarrow>
           if f = Works
           then (None, w1\<lparr>files := (files w1)(p \<mapsto> d\<lparr>fileSynced := fileSize d\<rparr>)\<rparr>)
           else (Some (IOFailed ''sync''), w1)))"

definition truncateOp :: "string \<Rightarrow> nat \<Rightarrow> World \<Rightarrow> log_error option \<times> World" where
  "truncateOp p n w =
    (case nextFault w of (f, w1) \<Rightarrow>
      (case files w1 p of
         None \<Rightarrow> (Some (IOFailed ''truncate''), w1)
       | Some d \<Rightarrow>
           if f = Works
           then (None, setFile p (truncateFile n d\<lparr>fileTime := clock w1\<rparr>) w1)
           else (Some (IOFailed ''truncate''), w1)))"

definition rollbackAppend ::
  "nat \<Rightarrow> log_error \<Rightarrow> dedupRing \<Rightarrow> World \<Rightarrow> log_error option \<times> dedupRing \<times> World" where
  "rollbackAppend oldEOF cause d w =
    (case truncateOp (storePath d) oldEOF w of
       (Some e, w1) \<Rightarrow> (Some (RollbackFailed cause), d\<lparr>persistErr := Some (RollbackFailed cause)\<rparr>, w1)
     | (None, w1) \<Rightarrow>
         (case syncFile (storePath d) w1 of
            (Some e, w2) \<Rightarrow>
              (Some (RollbackFailed cause), d\<lparr>persistErr := Some (RollbackFailed cause)\<rparr>, w2)
          | (None, w2) \<Rightarrow>
              (case statFile (storePath d) w2 of
                 (Inl e, w3) \<Rightarrow> (Some cause, d\<lparr>needsSnapshot := True\<rparr>, w3)
               | (Inr info, w3) \<Rightarrow> (Some cause, d\<lparr>backing := Some info\<rparr>, w3))))"

text \<open>What \<open>Stat\<close> finds after the append is committed: the new backing stamp, or a store that
  must be snapshotted before the next append.\<close>

definition afterCommit :: "nat \<Rightarrow> FileInfo \<Rightarrow> nat \<Rightarrow> dedupRing \<Rightarrow> World \<Rightarrow> dedupRing \<times> World" where
  "afterCommit oldEOF old len d w =
    (case statFile (storePath d) w of
       (Inl e, w1) \<Rightarrow> (d\<lparr>needsSnapshot := True\<rparr>, w1)
     | (Inr info, w1) \<Rightarrow>
         if \<not> infoRegular info \<or> infoId old \<noteq> infoId info \<or> infoSize info \<noteq> oldEOF + len
         then (d\<lparr>needsSnapshot := True\<rparr>, w1)
         else (d\<lparr>backing := Some info\<rparr>, w1))"

definition applyInMemory :: "dispatchTransition \<Rightarrow> dedupRing \<Rightarrow> dedupRing" where
  "applyInMemory t d =
    (case applyDispatchTransition (ringKeys d) (ringRecords d) t of
       (keys, records) \<Rightarrow> d\<lparr>ringKeys := keys, ringRecords := records\<rparr>)"

definition appendTransition ::
  "logLine \<times> nat \<Rightarrow> dispatchTransition \<Rightarrow> dedupRing \<Rightarrow> World \<Rightarrow> log_error option \<times> dedupRing \<times> World"
where
  "appendTransition line t d w =
    (case backing d of
       None \<Rightarrow> (Some ChangedWhilePreparing, d, w)
     | Some old \<Rightarrow>
         (case writeDispatchLine (storePath d) line w of
            (Some e, w1) \<Rightarrow> rollbackAppend (infoSize old) e d w1
          | (None, w1) \<Rightarrow>
              (case syncFile (storePath d) w1 of
                 (Some e, w2) \<Rightarrow> rollbackAppend (infoSize old) e d w2
               | (None, w2) \<Rightarrow>
                   (case afterCommit (infoSize old) old (snd line) d w2 of (d1, w3) \<Rightarrow>
                      (None,
                       applyInMemory t (d1\<lparr>transitionCount := Suc (transitionCount d1),
                                           appendBytes := appendBytes d1 + snd line\<rparr>), w3)))))"

definition commitTransition ::
  "(logLine \<Rightarrow> nat) \<Rightarrow> dispatchTransition \<Rightarrow> dedupRing \<Rightarrow> World \<Rightarrow> log_error option \<times> dedupRing \<times> World"
where
  "commitTransition bl t d w =
    (case validateDispatchTransition (ringRecords d) t of
       Some e \<Rightarrow> (Some e, d, w)
     | None \<Rightarrow>
         if storePath d = '''' then (None, applyInMemory t d, w)
         else (case dispatchLogLine bl (TransitionLine t) of
           Inl e \<Rightarrow> (Some e, d, w)
         | Inr line \<Rightarrow>
             (case prepareAppend 2 bl (snd line) d w of
                (Some e, d1, w1) \<Rightarrow> (Some e, d1, w1)
              | (None, d1, w1) \<Rightarrow> appendTransition line t d1 w1)))"

subsection \<open>The operations\<close>

definition newReservation :: "string \<Rightarrow> string \<Rightarrow> dedupEntry" where
  "newReservation rid digest =
    \<lparr>EntRequestID = rid, DispatchSHA256 = digest, State = dispatchReserved, EntResult = zeroResult\<rparr>"

definition reserve ::
  "(logLine \<Rightarrow> nat) \<Rightarrow> string \<Rightarrow> string \<Rightarrow> dedupRing \<Rightarrow> World \<Rightarrow>
     (log_error + reservationDecision \<times> ActionResultMsg) \<times> dedupRing \<times> World" where
  "reserve bl rid digest d w =
    (case unusableLocked d of
       Some e \<Rightarrow> (Inl e, d, w)
     | None \<Rightarrow>
         if \<not> validDispatchDigest digest then (Inl InvalidDigest, d, w)
         else (case classifyLocked (ringRecords d) rid digest of (decision, result, known) \<Rightarrow>
           if known then (Inr (decision, result), d, w)
           else
             (let evict = (if ringMax d \<le> length (ringKeys d)
                           then oldestAcknowledged (ringRecords d) (ringKeys d) else '''')
              in if ringMax d \<le> length (ringKeys d) \<and> evict = ''''
                 then (Inl CapacityReached, d, w)
                 else (case commitTransition bl
                         \<lparr>Version = 1, Entry = newReservation rid digest, Evict = evict\<rparr> d w of
                   (Some e, d1, w1) \<Rightarrow> (Inl e, d1, w1)
                 | (None, d1, w1) \<Rightarrow> (Inr (reservationNew, zeroResult), d1, w1)))))"

definition inspect ::
  "string \<Rightarrow> string \<Rightarrow> dedupRing \<Rightarrow> log_error + reservationDecision \<times> ActionResultMsg" where
  "inspect rid digest d =
    (case unusableLocked d of
       Some e \<Rightarrow> Inl e
     | None \<Rightarrow>
         if \<not> validDispatchDigest digest then Inl InvalidDigest
         else (case classifyLocked (ringRecords d) rid digest of (decision, result, known) \<Rightarrow>
           Inr (decision, result)))"

definition complete ::
  "(logLine \<Rightarrow> nat) \<Rightarrow> string \<Rightarrow> string \<Rightarrow> ActionResultMsg \<Rightarrow> dedupRing \<Rightarrow> World \<Rightarrow>
     log_error option \<times> dedupRing \<times> World" where
  "complete bl rid digest result d w =
    (case unusableLocked d of
       Some e \<Rightarrow> (Some e, d, w)
     | None \<Rightarrow>
         if \<not> validActionResult result rid then (Some (InvalidTerminalResult rid), d, w)
         else (case ringRecords d rid of
           None \<Rightarrow> (Some (CompleteUnreserved rid), d, w)
         | Some e \<Rightarrow>
             if DispatchSHA256 e \<noteq> digest then (Some (DigestChanged rid), d, w)
             else if State e = dispatchCompleted \<or> State e = dispatchAcknowledged then
               (if EntResult e = result then (None, d, w) else (Some (ResultChanged rid), d, w))
             else if State e \<noteq> dispatchReserved
               then (Some (CompleteInvalidState rid (State e)), d, w)
             else commitTransition bl
               \<lparr>Version = 1, Entry = e\<lparr>State := dispatchCompleted, EntResult := result\<rparr>,
                Evict = ''''\<rparr> d w))"

definition acknowledge ::
  "(logLine \<Rightarrow> nat) \<Rightarrow> string \<Rightarrow> dedupRing \<Rightarrow> World \<Rightarrow> log_error option \<times> dedupRing \<times> World" where
  "acknowledge bl rid d w =
    (case unusableLocked d of
       Some e \<Rightarrow> (Some e, d, w)
     | None \<Rightarrow>
         (case ringRecords d rid of
            None \<Rightarrow> (None, d, w)
          | Some e \<Rightarrow>
              (case State e of
                 dispatchReserved \<Rightarrow> (Some (AcknowledgeIncomplete rid), d, w)
               | dispatchAcknowledged \<Rightarrow> (None, d, w)
               | dispatchCompleted \<Rightarrow>
                   commitTransition bl
                     \<lparr>Version = 1, Entry = e\<lparr>State := dispatchAcknowledged\<rparr>, Evict = ''''\<rparr> d w
               | OtherState s \<Rightarrow> (Some (AcknowledgeInvalidState rid (State e)), d, w))))"

definition unacknowledgedResults :: "dedupRing \<Rightarrow> ActionResultMsg list" where
  "unacknowledgedResults d =
    (if unusableLocked d \<noteq> None then []
     else List.map_filter (\<lambda>k. case ringRecords d k of
            Some e \<Rightarrow> if State e = dispatchCompleted then Some (EntResult e) else None
          | None \<Rightarrow> None) (ringKeys d))"

definition unacknowledgedResult :: "string \<Rightarrow> dedupRing \<Rightarrow> ActionResultMsg option" where
  "unacknowledgedResult rid d =
    (if unusableLocked d \<noteq> None then None
     else case ringRecords d rid of
       None \<Rightarrow> None
     | Some e \<Rightarrow> if State e = dispatchCompleted then Some (EntResult e) else None)"

definition containsId :: "string \<Rightarrow> dedupRing \<Rightarrow> bool" where
  "containsId rid d = (unusableLocked d = None \<and> ringRecords d rid \<noteq> None)"


subsection \<open>Loading\<close>

definition emptyRing :: "nat \<Rightarrow> string \<Rightarrow> string \<Rightarrow> dedupRing" where
  "emptyRing mx store legacy =
    \<lparr>ringMax = (if mx = 0 then 1024 else mx), ringKeys = [], ringRecords = Map.empty,
     storePath = store, legacyPath = legacy, loadErr = None, loadErrPath = '''',
     loadErrWrite = False, backing = None, needsSnapshot = True, snapshotBytes = 0,
     appendBytes = 0, transitionCount = 0, persistErr = None\<rparr>"

definition withEntries :: "dedupEntry list \<Rightarrow> dedupRing \<Rightarrow> dedupRing" where
  "withEntries es d =
    d\<lparr>ringKeys := ringKeys d @ map EntRequestID es,
      ringRecords := foldl (\<lambda>m e. m(EntRequestID e \<mapsto> e)) (ringRecords d) es\<rparr>"

definition failedWrite :: "log_error \<Rightarrow> dedupRing \<Rightarrow> dedupRing" where
  "failedWrite e d = d\<lparr>ringKeys := [], ringRecords := Map.empty, loadErr := Some e,
     loadErrPath := storePath d, loadErrWrite := True\<rparr>"

definition evictRing :: "dedupRing \<Rightarrow> dedupRing" where
  "evictRing d =
    (case evictToMax (ringMax d) (ringKeys d) (ringRecords d) of
       (keys, records) \<Rightarrow> d\<lparr>ringKeys := keys, ringRecords := records\<rparr>)"

definition renameLegacy :: "string \<Rightarrow> World \<Rightarrow> World" where
  "renameLegacy p w =
    (case nextFault w of (f, w1) \<Rightarrow>
      if f = Works
      then w1\<lparr>files := (files w1)(p := None, (p @ ''.migrated'') := files w1 p)\<rparr> else w1)"

definition adoptLegacyStore ::
  "(string \<Rightarrow> string) \<Rightarrow> (logLine \<Rightarrow> nat) \<Rightarrow> dedupRing \<Rightarrow> World \<Rightarrow> dedupRing \<times> World" where
  "adoptLegacyStore sha bl d w =
    (if legacyPath d = '''' then (d, w)
     else case readDispatchStore sha (legacyPath d) w of
       (Inl e, w1) \<Rightarrow>
         (if e = FileNotExist then d
          else d\<lparr>loadErr := Some e, loadErrPath := legacyPath d\<rparr>, w1)
     | (Inr log, w1) \<Rightarrow>
         (case writeStore bl (evictRing (withEntries (stEntries log) d)) w1 of
            (Some e, d1, w2) \<Rightarrow> (failedWrite (MigrateFailed e) d1, w2)
          | (None, d1, w2) \<Rightarrow> (d1, renameLegacy (legacyPath d1) w2)))"

definition load ::
  "(string \<Rightarrow> string) \<Rightarrow> (logLine \<Rightarrow> nat) \<Rightarrow> dedupRing \<Rightarrow> World \<Rightarrow> dedupRing \<times> World" where
  "load sha bl d w =
    (if storePath d = '''' then (d, w)
     else case readDispatchStore sha (storePath d) w of
       (Inl e, w1) \<Rightarrow>
         (if e = FileNotExist then adoptLegacyStore sha bl d w1
          else (d\<lparr>loadErr := Some e, loadErrPath := storePath d\<rparr>, w1))
     | (Inr log, w1) \<Rightarrow>
         (let d1 = withEntries (stEntries log) d;
              d2 = evictRing (d1\<lparr>backing := Some (stInfo log),
                     needsSnapshot := stNeedsSnapshot log,
                     snapshotBytes := stSnapshotBytes log,
                     appendBytes := infoSize (stInfo log) - stSnapshotBytes log,
                     transitionCount := stTransitions log\<rparr>);
              d3 = d2\<lparr>needsSnapshot := needsSnapshot d2
                        \<or> length (ringKeys d2) \<noteq> length (ringKeys d1)\<rparr>
          in if stLegacy log then
               (case writeStore bl d3 w1 of
                  (Some e, d4, w2) \<Rightarrow> (failedWrite (MigrateFailed e) d4, w2)
                | (None, d4, w2) \<Rightarrow> (d4, w2))
             else (d3, w1)))"

definition newDedupRing ::
  "(string \<Rightarrow> string) \<Rightarrow> (logLine \<Rightarrow> nat) \<Rightarrow> nat \<Rightarrow> string \<Rightarrow> string \<Rightarrow> World \<Rightarrow> dedupRing \<times> World"
where
  "newDedupRing sha bl mx store legacy w = load sha bl (emptyRing mx store legacy) w"

text \<open>\<open>startupRefusal\<close>: why the runner will not start, and which remedy it names.\<close>

datatype startup_refusal =
    CannotPersist string log_error | MoveAside string log_error

definition startupRefusal :: "dedupRing \<Rightarrow> startup_refusal option" where
  "startupRefusal d =
    (case loadErr d of
       None \<Rightarrow> None
     | Some e \<Rightarrow>
         if loadErrWrite d then Some (CannotPersist (loadErrPath d) e)
         else Some (MoveAside (if loadErrPath d \<noteq> '''' then loadErrPath d else storePath d) e))"

subsection \<open>Diagnosis\<close>

datatype DispatchLogState =
    DispatchLogAbsent | DispatchLogOK | DispatchLogLegacy | DispatchLogCorrupt

record DispatchLogReport =
  repPath :: string
  repState :: DispatchLogState
  repEntries :: nat
  repErr :: "log_error option"

definition InspectDispatchLog ::
  "(string \<Rightarrow> string) \<Rightarrow> string \<Rightarrow> string \<Rightarrow> World \<Rightarrow> DispatchLogReport" where
  "InspectDispatchLog sha path legacy w =
    (case readDispatchStore sha path w of
       (Inr log, w1) \<Rightarrow>
         \<lparr>repPath = path, repState = (if stLegacy log then DispatchLogLegacy else DispatchLogOK),
          repEntries = length (stEntries log), repErr = None\<rparr>
     | (Inl e, w1) \<Rightarrow>
         if e \<noteq> FileNotExist
         then \<lparr>repPath = path, repState = DispatchLogCorrupt, repEntries = 0, repErr = Some e\<rparr>
         else (case readDispatchStore sha legacy w1 of
           (Inr log, w2) \<Rightarrow>
             \<lparr>repPath = legacy, repState = DispatchLogLegacy, repEntries = length (stEntries log),
              repErr = None\<rparr>
         | (Inl e', w2) \<Rightarrow>
             if e' = FileNotExist
             then \<lparr>repPath = path, repState = DispatchLogAbsent, repEntries = 0, repErr = None\<rparr>
             else \<lparr>repPath = legacy, repState = DispatchLogCorrupt, repEntries = 0,
                   repErr = Some e'\<rparr>))"

subsection \<open>The digest of a dispatch\<close>

record dispatchFacts =
  factActionID :: string
  factPackHash :: string
  factPackRef :: string
  factArgs :: string
  factOpts :: "RunOpts option"
  factReason :: string
  factOperationID :: string
  factAttestation :: "Attestation option"

text \<open>\<open>enc\<close> is \<open>json.Marshal\<close> on the facts, \<open>encArgs\<close> on the decoded arguments; either
  may fail.\<close>

definition dispatchDigest ::
  "(string \<Rightarrow> string) \<Rightarrow> ((string \<times> json) list \<Rightarrow> string option) \<Rightarrow> (dispatchFacts \<Rightarrow> string option) \<Rightarrow>
     RunActionMsg \<Rightarrow> string option" where
  "dispatchDigest sha encArgs enc m =
    Option.bind (if ArgsRaw m = '''' then encArgs (RunArgs m) else Some (ArgsRaw m)) (\<lambda>args.
    map_option sha (enc
      \<lparr>factActionID = ActionID m, factPackHash = ExpectedPackHash m, factPackRef = PackRef m,
       factArgs = args, factOpts = RunOptions m, factReason = RunReason m,
       factOperationID = OperationID m, factAttestation = RunAttestation m\<rparr>))"

end
