(* ===== verification/Outbox.thy ===== *)
theory Outbox
  imports Dispatch_Store
begin

text \<open>
  The per-run outbox (\<open>runner/internal/cloud/client_outbox.go\<close>, \<open>runState\<close> of
  \<open>client.go\<close>): queued messages, merging of progress lines, the drop policy of a full queue,
  and draining with requeueing after a failed send.  A run's sender and its producer
  interleave, so draining is a step relation: the sender takes the queue, sends message by
  message, and puts back what it could not send.
\<close>

subsection \<open>State\<close>

datatype outMsg =
    StartedMsg string
  | ProgressMsg ActionProgressMsg
  | ResultMsg ActionResultMsg
  | ErrorMsg string string

record runState =
  rsRequestID :: string
  rsDigest :: string
  rsCancel :: bool
  rsCancelled :: bool
  pending :: "outMsg list"
  terminal :: "ActionResultMsg option"
  droppedChunks :: nat
  rsStarted :: bool
  rsFinished :: bool
  progressSeq :: nat
  attempted :: nat

definition newRunState :: "string \<Rightarrow> string \<Rightarrow> runState" where
  "newRunState rid digest =
    \<lparr>rsRequestID = rid, rsDigest = digest, rsCancel = False, rsCancelled = False, pending = [],
     terminal = None, droppedChunks = 0, rsStarted = False, rsFinished = False, progressSeq = 0,
     attempted = 0\<rparr>"

definition maxProgressChunkBytes :: nat where
  "maxProgressChunkBytes = 32768"

subsection \<open>Progress\<close>

fun isProgress :: "outMsg \<Rightarrow> bool" where
  "isProgress (ProgressMsg p) = True"
| "isProgress _ = False"

text \<open>\<open>enqueue\<close>: a full queue sheds its oldest progress message, or the new one when it holds
  none; either way the loss is counted.\<close>

definition enqueue :: "nat \<Rightarrow> runState \<Rightarrow> ActionProgressMsg \<Rightarrow> runState" where
  "enqueue maxPending s msg =
    (if maxPending \<le> length (pending s) then
       (let s1 = s\<lparr>droppedChunks := Suc (droppedChunks s)\<rparr> in
        if \<not> list_ex isProgress (pending s) then s1
        else s1\<lparr>pending := deleteFirst isProgress (pending s) @ [ProgressMsg msg]\<rparr>)
     else s\<lparr>pending := pending s @ [ProgressMsg msg]\<rparr>)"

text \<open>Whether the last queued message is one a new chunk may still merge into.\<close>

definition mergeTarget :: "runState \<Rightarrow> string \<Rightarrow> string \<Rightarrow> ActionProgressMsg option" where
  "mergeTarget s stream chunk =
    (if pending s \<noteq> [] \<and> attempted s \<le> length (pending s) - 1 then
       (case last (pending s) of
          ProgressMsg p \<Rightarrow>
            if Stream p = stream \<and> length (Chunk p) + length chunk \<le> maxProgressChunkBytes
            then Some p else None
        | _ \<Rightarrow> None)
     else None)"

definition enqueueProgressChunk ::
  "nat \<Rightarrow> runState \<Rightarrow> string \<Rightarrow> string \<Rightarrow> string \<Rightarrow> runState" where
  "enqueueProgressChunk maxPending s rid stream chunk =
    (case mergeTarget s stream chunk of
       Some p \<Rightarrow>
         s\<lparr>pending := butlast (pending s) @ [ProgressMsg (p\<lparr>Chunk := Chunk p @ chunk\<rparr>)]\<rparr>
     | None \<Rightarrow>
         enqueue maxPending (s\<lparr>progressSeq := Suc (progressSeq s)\<rparr>)
           \<lparr>progEnvelope = envelope MsgActionProgress rid, Seq = int (Suc (progressSeq s)),
            Stream = stream, Chunk = chunk\<rparr>)"

text \<open>The cut of an oversized chunk: scanning back from the limit for the start of a rune.
  \<open>None\<close> is the scan running off the front of the chunk.\<close>

fun runeCut :: "string \<Rightarrow> nat \<Rightarrow> nat option" where
  "runeCut chunk 0 = (if runeStart (chunk ! 0) then Some 0 else None)"
| "runeCut chunk (Suc n) = (if runeStart (chunk ! Suc n) then Some (Suc n) else runeCut chunk n)"

text \<open>The pieces of a chunk; \<open>None\<close> when the loop of \<open>enqueueProgress\<close> would not return.\<close>

function splitProgress :: "string \<Rightarrow> string list option" where
  "splitProgress chunk =
    (if length chunk \<le> maxProgressChunkBytes then Some (if chunk = [] then [] else [chunk])
     else case runeCut chunk maxProgressChunkBytes of
       None \<Rightarrow> None
     | Some e \<Rightarrow>
         if e = 0 then None
         else map_option ((#) (take e chunk)) (splitProgress (drop e chunk)))"
  by pat_completeness auto
termination
  by (relation "measure length") auto

declare splitProgress.simps [simp del]

definition enqueueProgress ::
  "nat \<Rightarrow> runState \<Rightarrow> string \<Rightarrow> string \<Rightarrow> string \<Rightarrow> runState option" where
  "enqueueProgress maxPending s rid stream chunk =
    map_option (foldl (\<lambda>s c. enqueueProgressChunk maxPending s rid stream c) s)
      (splitProgress chunk)"

subsection \<open>Draining\<close>

text \<open>The sender's view of one run: the state, the messages it has taken and not yet sent, and
  every message handed to \<open>Send\<close> so far.\<close>

record sending =
  run :: runState
  inflight :: "outMsg list"
  handed :: "outMsg list"

definition takePending :: "runState \<Rightarrow> outMsg list \<times> runState" where
  "takePending s = (pending s, s\<lparr>pending := [], attempted := 0\<rparr>)"

definition requeueUnsent :: "outMsg list \<Rightarrow> runState \<Rightarrow> runState" where
  "requeueUnsent msgs s = s\<lparr>pending := msgs @ pending s, attempted := length msgs\<rparr>"

text \<open>Whether the run can be forgotten after its queue was sent.\<close>

definition drained :: "runState \<Rightarrow> bool" where
  "drained s \<longleftrightarrow> rsFinished s \<and> terminal s = None \<and> pending s = []"

fun isStartedFor :: "string \<Rightarrow> outMsg \<Rightarrow> bool" where
  "isStartedFor rid (StartedMsg r) = (r = rid)"
| "isStartedFor rid _ = False"

definition hasActionStarted :: "outMsg list \<Rightarrow> string \<Rightarrow> bool" where
  "hasActionStarted msgs rid = list_ex (isStartedFor rid) msgs"

definition requeueActiveStart :: "runState \<Rightarrow> runState option" where
  "requeueActiveStart s =
    (if \<not> rsStarted s \<or> rsFinished s \<or> hasActionStarted (pending s) (rsRequestID s) then None
     else Some (s\<lparr>pending := StartedMsg (rsRequestID s) # pending s,
                  attempted := Suc (attempted s)\<rparr>))"

definition markRunStarted :: "runState \<Rightarrow> runState" where
  "markRunStarted s = s\<lparr>rsStarted := True, pending := pending s @ [StartedMsg (rsRequestID s)]\<rparr>"

text \<open>\<open>finishRun\<close> and \<open>retryTerminalPersistence\<close>: the result is queued only once its durable
  record is complete, and is held otherwise.\<close>

definition finishRun ::
  "(logLine \<Rightarrow> nat) \<Rightarrow> runState \<Rightarrow> ActionResultMsg \<Rightarrow> dedupRing \<Rightarrow> World \<Rightarrow>
     runState \<times> dedupRing \<times> World" where
  "finishRun bl s result d w =
    (case complete bl (rsRequestID s) (rsDigest s) result d w of
       (Some e, d1, w1) \<Rightarrow> (s\<lparr>rsFinished := True, terminal := Some result\<rparr>, d1, w1)
     | (None, d1, w1) \<Rightarrow>
         (s\<lparr>rsFinished := True, pending := pending s @ [ResultMsg result]\<rparr>, d1, w1))"

definition retryTerminalPersistence ::
  "(logLine \<Rightarrow> nat) \<Rightarrow> runState \<Rightarrow> dedupRing \<Rightarrow> World \<Rightarrow> bool \<times> runState \<times> dedupRing \<times> World" where
  "retryTerminalPersistence bl s d w =
    (case terminal s of
       None \<Rightarrow> (False, s, d, w)
     | Some result \<Rightarrow>
         (case complete bl (rsRequestID s) (rsDigest s) result d w of
            (Some e, d1, w1) \<Rightarrow> (False, s, d1, w1)
          | (None, d1, w1) \<Rightarrow>
              (True, s\<lparr>pending := pending s @ [ResultMsg result], terminal := None\<rparr>, d1, w1)))"

inductive sendStep :: "nat \<Rightarrow> sending \<Rightarrow> sending \<Rightarrow> bool" for maxPending where
  produce: "sendStep maxPending x
    (x\<lparr>run := enqueueProgressChunk maxPending (run x) rid stream chunk\<rparr>)"
| taken: "inflight x = [] \<Longrightarrow> takePending (run x) = (msgs, s) \<Longrightarrow>
    sendStep maxPending x (x\<lparr>run := s, inflight := msgs\<rparr>)"
| sent: "inflight x = m # ms \<Longrightarrow>
    sendStep maxPending x (x\<lparr>inflight := ms, handed := handed x @ [m]\<rparr>)"
| failed: "inflight x = m # ms \<Longrightarrow>
    sendStep maxPending x (x\<lparr>run := requeueUnsent (m # ms) (run x), inflight := [],
      handed := handed x @ [m]\<rparr>)"
| reconnected: "requeueActiveStart (run x) = Some s \<Longrightarrow> sendStep maxPending x (x\<lparr>run := s\<rparr>)"
| began: "sendStep maxPending x (x\<lparr>run := markRunStarted (run x)\<rparr>)"
| ended: "finishRun bl (run x) result d w = (s, d', w') \<Longrightarrow> sendStep maxPending x (x\<lparr>run := s\<rparr>)"
| persisted: "retryTerminalPersistence bl (run x) d w = (b, s, d', w') \<Longrightarrow>
    sendStep maxPending x (x\<lparr>run := s\<rparr>)"


subsection \<open>No sequence number is ever reused for other bytes\<close>

fun progOf :: "outMsg \<Rightarrow> ActionProgressMsg option" where
  "progOf (ProgressMsg p) = Some p"
| "progOf _ = None"

definition progs :: "outMsg list \<Rightarrow> ActionProgressMsg list" where
  "progs ms = List.map_filter progOf ms"

lemma progs_simps [simp]:
  "progs [] = []" "progs (m # ms) = (case progOf m of None \<Rightarrow> progs ms | Some p \<Rightarrow> p # progs ms)"
  by (simp_all add: progs_def List.map_filter_simps split: option.split)

lemma progs_append [simp]: "progs (a @ b) = progs a @ progs b"
  by (induction a) (auto split: option.splits)

lemma set_progs: "set (progs ms) = {p. ProgressMsg p \<in> set ms}"
  by (induction ms) (auto split: option.splits elim: progOf.elims)

definition seqs :: "outMsg list \<Rightarrow> int set" where
  "seqs ms = Seq ` set (progs ms)"

lemma seqs_append [simp]: "seqs (a @ b) = seqs a \<union> seqs b"
  by (auto simp: seqs_def)

lemma seqs_Nil [simp]: "seqs [] = {}"
  by (simp add: seqs_def)

lemma finite_seqs [simp]: "finite (seqs ms)"
  by (simp add: seqs_def)

definition sendInv :: "sending \<Rightarrow> bool" where
  "sendInv x \<longleftrightarrow>
     (let s = run x; queued = inflight x @ pending s in
        distinct (map Seq (progs queued))
      \<and> seqs (handed x @ queued) \<subseteq> {1..int (progressSeq s)}
      \<and> (\<forall>p \<in> set (progs (handed x)). \<forall>q \<in> set (progs (handed x @ queued)). Seq p = Seq q \<longrightarrow> p = q)
      \<and> seqs (handed x) \<inter> seqs (drop (attempted s) (pending s)) = {}
      \<and> (inflight x \<noteq> [] \<longrightarrow> seqs (handed x) \<inter> seqs (pending s) = {})
      \<and> card ({1..int (progressSeq s)} - seqs (handed x @ queued)) \<le> droppedChunks s)"

lemma deleteFirst_progs:
  "list_ex isProgress ms \<Longrightarrow> \<exists>p rest. progs ms = p # rest \<and> progs (deleteFirst isProgress ms) = rest"
proof (induction ms)
  case (Cons m ms)
  then show ?case by (cases m) auto
qed simp

lemma drop_deleteFirst_subset: "set (drop n (deleteFirst P xs)) \<subseteq> set (drop n xs)"
proof (induction xs arbitrary: n)
  case (Cons x xs)
  show ?case
  proof (cases n)
    case 0
    then show ?thesis using set_deleteFirst_subset [of P "x # xs"] by simp
  next
    case (Suc m)
    have "set (drop (Suc m) xs) \<subseteq> set (drop m xs)" by (rule set_drop_subset_set_drop) simp
    with Suc Cons.IH [of m] show ?thesis by auto
  qed
qed simp

lemma seqs_mono: "set a \<subseteq> set b \<Longrightarrow> seqs a \<subseteq> seqs b"
  by (auto simp: seqs_def set_progs)

lemma sendInv_enqueue:
  assumes inv: "sendInv x" and seq: "Seq msg = int (Suc (progressSeq (run x)))"
  shows "sendInv (x\<lparr>run := enqueue mx (run x\<lparr>progressSeq := Suc (progressSeq (run x))\<rparr>) msg\<rparr>)"
proof -
  define s where "s = run x"
  define S where "S = seqs (handed x @ inflight x @ pending s)"
  let ?n = "progressSeq s"
  from inv have d: "distinct (map Seq (progs (inflight x @ pending s)))"
    and rng: "S \<subseteq> {1..int ?n}"
    and same: "\<forall>p \<in> set (progs (handed x)). \<forall>q \<in> set (progs (handed x @ inflight x @ pending s)). Seq p = Seq q \<longrightarrow> p = q"
    and tail: "seqs (handed x) \<inter> seqs (drop (attempted s) (pending s)) = {}"
    and infl: "inflight x \<noteq> [] \<longrightarrow> seqs (handed x) \<inter> seqs (pending s) = {}"
    and cnt: "card ({1..int ?n} - S) \<le> droppedChunks s"
    by (simp_all add: sendInv_def Let_def s_def S_def)
  have nin: "Seq msg \<notin> S" using rng seq by (auto simp: s_def)
  have nS: "Seq msg \<notin> seqs (handed x)" "Seq msg \<notin> Seq ` set (progs (inflight x @ pending s))"
    using nin by (auto simp: S_def seqs_def)
  have nH: "\<forall>p \<in> set (progs (handed x)). Seq p \<noteq> Seq msg"
    using nS(1) by (metis image_eqI seqs_def)
  have up: "{1..int (Suc ?n)} = insert (Seq msg) {1..int ?n}" using seq by (auto simp: s_def)
  have insert_card: "card ({1..int (Suc ?n)} - insert (Seq msg) T) = card ({1..int ?n} - T)"
    if "T \<subseteq> S" for T
  proof -
    have "{1..int (Suc ?n)} - insert (Seq msg) T = {1..int ?n} - T"
      using up seq by (auto simp: s_def)
    then show ?thesis by simp
  qed
  show ?thesis
  proof (cases "length (pending s) < mx")
    case True
    then have e: "enqueue mx (s\<lparr>progressSeq := Suc ?n\<rparr>) msg
        = s\<lparr>progressSeq := Suc ?n, pending := pending s @ [ProgressMsg msg]\<rparr>"
      by (simp add: enqueue_def)
    have dr: "seqs (drop (attempted s) (pending s @ [ProgressMsg msg])) \<subseteq>
        seqs (drop (attempted s) (pending s)) \<union> {Seq msg}"
      by (auto simp: seqs_def set_progs drop_append dest: in_set_dropD)
    have sq: "seqs (handed x @ inflight x @ pending s @ [ProgressMsg msg]) = insert (Seq msg) S"
      by (auto simp: S_def seqs_def)
    have dd: "distinct (map Seq (progs (inflight x @ pending s @ [ProgressMsg msg])))"
      using d nS(2) by auto
    have ss: "\<forall>p \<in> set (progs (handed x)). \<forall>q \<in> set (progs (handed x @ inflight x @ pending s @ [ProgressMsg msg])).
        Seq p = Seq q \<longrightarrow> p = q"
      using same nH by auto
    have tl: "seqs (handed x) \<inter> seqs (drop (attempted s) (pending s @ [ProgressMsg msg])) = {}"
      using dr tail nS(1) by auto
    have il: "inflight x \<noteq> [] \<longrightarrow> seqs (handed x) \<inter> seqs (pending s @ [ProgressMsg msg]) = {}"
      using infl nH by (auto simp: seqs_def)
    have rg: "insert (Seq msg) S \<subseteq> {1..int (Suc ?n)}" using rng up by auto
    have c: "card ({1..int (Suc ?n)} - insert (Seq msg) S) \<le> droppedChunks s"
      using insert_card [of S] cnt by simp
    show ?thesis
      unfolding sendInv_def Let_def
      using dd ss tl il rg c sq by (simp add: e s_def [symmetric])
  next
    case full: False
    show ?thesis
    proof (cases "list_ex isProgress (pending s)")
      case False
      with full have e: "enqueue mx (s\<lparr>progressSeq := Suc ?n\<rparr>) msg
          = s\<lparr>progressSeq := Suc ?n, droppedChunks := Suc (droppedChunks s)\<rparr>"
        by (simp add: enqueue_def)
      have "{1..int (Suc ?n)} - S = insert (Seq msg) ({1..int ?n} - S)" using up nin by auto
      then have "card ({1..int (Suc ?n)} - S) \<le> Suc (card ({1..int ?n} - S))"
        by (simp add: card_insert_if)
      moreover have "S \<subseteq> {1..int (Suc ?n)}" using rng by auto
      ultimately show ?thesis
        using d same tail infl cnt
        unfolding sendInv_def Let_def by (simp add: e s_def [symmetric] S_def)
    next
      case True
      let ?ps = "deleteFirst isProgress (pending s)"
      from True full have e: "enqueue mx (s\<lparr>progressSeq := Suc ?n\<rparr>) msg
          = s\<lparr>progressSeq := Suc ?n, droppedChunks := Suc (droppedChunks s),
              pending := ?ps @ [ProgressMsg msg]\<rparr>"
        by (simp add: enqueue_def)
      obtain p rest where p: "progs (pending s) = p # rest" "progs ?ps = rest"
        using deleteFirst_progs [OF True] by blast
      define T where "T = seqs (handed x @ inflight x @ ?ps)"
      have T: "T \<subseteq> S" and ST: "S \<subseteq> insert (Seq p) T"
        using p by (auto simp: T_def S_def seqs_def)
      have "{1..int ?n} - T \<subseteq> insert (Seq p) ({1..int ?n} - S)" using ST by auto
      then have "card ({1..int ?n} - T) \<le> card (insert (Seq p) ({1..int ?n} - S))"
        by (intro card_mono) auto
      also have "\<dots> \<le> Suc (card ({1..int ?n} - S))" by (simp add: card_insert_if)
      finally have c: "card ({1..int (Suc ?n)} - insert (Seq msg) T) \<le> Suc (droppedChunks s)"
        using insert_card [OF T] cnt by simp
      have dr: "seqs (drop (attempted s) (?ps @ [ProgressMsg msg])) \<subseteq>
          seqs (drop (attempted s) (pending s)) \<union> {Seq msg}"
        using drop_deleteFirst_subset [of "attempted s" isProgress "pending s"]
        by (auto simp: seqs_def set_progs drop_append dest: in_set_dropD)
      have sq: "seqs (handed x @ inflight x @ ?ps @ [ProgressMsg msg]) = insert (Seq msg) T"
        by (auto simp: T_def seqs_def)
      have sub: "set (progs ?ps) \<subseteq> set (progs (pending s))" using p by auto
      have dd: "distinct (map Seq (progs (inflight x @ ?ps @ [ProgressMsg msg])))"
        using d p nS(2) by auto
      have ss: "\<forall>p \<in> set (progs (handed x)). \<forall>q \<in> set (progs (handed x @ inflight x @ ?ps @ [ProgressMsg msg])).
          Seq p = Seq q \<longrightarrow> p = q"
        using same sub nH by auto
      have tl: "seqs (handed x) \<inter> seqs (drop (attempted s) (?ps @ [ProgressMsg msg])) = {}"
        using dr tail nS(1) by auto
      have il: "inflight x \<noteq> [] \<longrightarrow> seqs (handed x) \<inter> seqs (?ps @ [ProgressMsg msg]) = {}"
        using infl sub nH by (auto simp: seqs_def)
      have rg: "insert (Seq msg) T \<subseteq> {1..int (Suc ?n)}" using T rng up by auto
      show ?thesis
        unfolding sendInv_def Let_def
        using dd ss tl il rg c sq by (simp add: e s_def [symmetric])
    qed
  qed
qed


lemma sendInv_quiet:
  assumes inv: "sendInv x" and "progs (pending s') = progs (pending (run x))"
    and "progressSeq s' = progressSeq (run x)" and "droppedChunks s' = droppedChunks (run x)"
    and "seqs (drop (attempted s') (pending s')) \<subseteq> seqs (drop (attempted (run x)) (pending (run x)))"
  shows "sendInv (x\<lparr>run := s'\<rparr>)"
proof -
  have q: "seqs (pending s') = seqs (pending (run x))" using assms(2) by (simp add: seqs_def)
  show ?thesis
    using inv assms(2-5) q unfolding sendInv_def Let_def by auto
qed

lemma seqs_drop_other [simp]: "progOf m = None \<Longrightarrow> seqs (drop k [m]) = {}"
  by (cases k) (auto simp: seqs_def)

lemma sendInv_merge:
  assumes inv: "sendInv x" and t: "mergeTarget (run x) stream chunk = Some p"
  shows "sendInv (x\<lparr>run := run x\<lparr>pending := butlast (pending (run x)) @ [ProgressMsg (p\<lparr>Chunk := c\<rparr>)]\<rparr>\<rparr>)"
proof -
  define s where "s = run x"
  from t have ne: "pending s \<noteq> []" and a: "attempted s \<le> length (pending s) - 1"
    and l: "last (pending s) = ProgressMsg p"
    by (auto simp: mergeTarget_def s_def split: if_splits outMsg.splits)
  define ms where "ms = butlast (pending s)"
  have ps: "pending s = ms @ [ProgressMsg p]" using ne l append_butlast_last_id [OF ne] by (simp add: ms_def)
  let ?p' = "p\<lparr>Chunk := c\<rparr>"
  have at: "attempted s \<le> length ms" using a ps by simp
  have pr: "progs (pending s) = progs ms @ [p]" by (simp add: ps)
  from inv have d: "distinct (map Seq (progs (inflight x @ pending s)))"
    and rng: "seqs (handed x @ inflight x @ pending s) \<subseteq> {1..int (progressSeq s)}"
    and same: "\<forall>p \<in> set (progs (handed x)). \<forall>q \<in> set (progs (handed x @ inflight x @ pending s)). Seq p = Seq q \<longrightarrow> p = q"
    and tail: "seqs (handed x) \<inter> seqs (drop (attempted s) (pending s)) = {}"
    and infl: "inflight x \<noteq> [] \<longrightarrow> seqs (handed x) \<inter> seqs (pending s) = {}"
    and cnt: "card ({1..int (progressSeq s)} - seqs (handed x @ inflight x @ pending s)) \<le> droppedChunks s"
    by (simp_all add: sendInv_def Let_def s_def)
  have sq: "seqs (ms @ [ProgressMsg ?p']) = seqs (pending s)" by (simp add: ps seqs_def)
  have dr: "seqs (drop (attempted s) (ms @ [ProgressMsg ?p'])) = seqs (drop (attempted s) (pending s))"
    using at by (simp add: ps seqs_def)
  have "Seq p \<in> seqs (drop (attempted s) (pending s))" using at by (simp add: ps seqs_def)
  then have "Seq p \<notin> seqs (handed x)" using tail by blast
  then have nh: "\<forall>h \<in> set (progs (handed x)). Seq h \<noteq> Seq p" by (metis image_eqI seqs_def)
  have ss: "\<forall>h \<in> set (progs (handed x)). \<forall>q \<in> set (progs (handed x @ inflight x @ ms @ [ProgressMsg ?p'])).
      Seq h = Seq q \<longrightarrow> h = q"
    using same nh by (auto simp: pr)
  have dd: "distinct (map Seq (progs (inflight x @ ms @ [ProgressMsg ?p'])))" using d by (simp add: ps)
  have all: "seqs (handed x @ inflight x @ ms @ [ProgressMsg ?p']) = seqs (handed x @ inflight x @ pending s)"
    using sq by simp
  have tl: "seqs (handed x) \<inter> seqs (drop (attempted s) (ms @ [ProgressMsg ?p'])) = {}"
    using tail by (simp only: dr)
  show ?thesis
    unfolding sendInv_def Let_def s_def [symmetric] ms_def [symmetric]
    using dd ss rng tl infl cnt by (simp add: all [simplified] sq [simplified])
qed

lemma sendInv_step: "sendStep mx x y \<Longrightarrow> sendInv x \<Longrightarrow> sendInv y"
proof (induction rule: sendStep.induct)
  case (produce x rid stream chunk)
  show ?case
  proof (cases "mergeTarget (run x) stream chunk")
    case None
    then show ?thesis using sendInv_enqueue [OF produce] by (simp add: enqueueProgressChunk_def)
  next
    case (Some p)
    then show ?thesis using sendInv_merge [OF produce Some] by (simp add: enqueueProgressChunk_def)
  qed
next
  case (taken x msgs s)
  then have "msgs = pending (run x)" "s = run x\<lparr>pending := [], attempted := 0\<rparr>"
    by (auto simp: takePending_def)
  with taken show ?case by (auto simp: sendInv_def Let_def)
next
  case (sent x m ms)
  let ?ps = "pending (run x)" and ?a = "attempted (run x)"
  have sub: "seqs (drop ?a ?ps) \<subseteq> seqs ?ps" by (rule seqs_mono) (rule set_drop_subset)
  from sent have nd: "seqs (handed x) \<inter> seqs ?ps = {}"
    and d: "distinct (map Seq (progs ((m # ms) @ ?ps)))"
    by (auto simp: sendInv_def Let_def)
  have n: "seqs (handed x @ [m]) \<inter> seqs ?ps = {}"
    using nd d by (cases m) (auto simp: seqs_def image_iff)
  then have n2: "seqs (handed x @ [m]) \<inter> seqs (drop ?a ?ps) = {}" using sub by blast
  have same: "\<forall>p \<in> set (progs (handed x @ [m])). \<forall>q \<in> set (progs ((handed x @ [m]) @ ms @ ?ps)).
      Seq p = Seq q \<longrightarrow> p = q"
    using sent d by (cases "progOf m") (auto simp: sendInv_def Let_def image_iff)
  have e: "seqs ((handed x @ [m]) @ ms @ ?ps) = seqs (handed x @ (m # ms) @ ?ps)"
    by (cases "progOf m") (auto simp: seqs_def)
  have d2: "distinct (map Seq (progs (ms @ ?ps)))" using d by (cases "progOf m") auto
  have r: "seqs ((handed x @ [m]) @ ms @ ?ps) \<subseteq> {1..int (progressSeq (run x))}"
    and c: "card ({1..int (progressSeq (run x))} - seqs ((handed x @ [m]) @ ms @ ?ps)) \<le> droppedChunks (run x)"
    unfolding e using sent by (simp_all add: sendInv_def Let_def)
  show ?case
    unfolding sendInv_def Let_def using d2 r same n n2 c by simp
next
  case (failed x m ms)
  have dr: "drop (length (m # ms)) ((m # ms) @ pending (run x)) = pending (run x)" by simp
  from failed have nd: "seqs (handed x) \<inter> seqs (pending (run x)) = {}"
    and d: "distinct (map Seq (progs ((m # ms) @ pending (run x))))"
    by (auto simp: sendInv_def Let_def)
  have "seqs (handed x @ [m]) \<inter> seqs (pending (run x)) = {}"
    using nd d by (cases m) (auto simp: seqs_def image_iff)
  with failed dr show ?case
    by (cases "progOf m") (auto simp: sendInv_def Let_def requeueUnsent_def seqs_def)
next
  case (reconnected x s)
  then have "s = run x\<lparr>pending := StartedMsg (rsRequestID (run x)) # pending (run x),
      attempted := Suc (attempted (run x))\<rparr>"
    by (auto simp: requeueActiveStart_def split: if_splits)
  then show ?case by (intro sendInv_quiet [OF reconnected(2)]) auto
next
  case (began x)
  show ?case
    by (rule sendInv_quiet [OF began])
      (auto simp: markRunStarted_def)
next
  case (ended bl x result d w s d' w')
  show ?case
    by (rule sendInv_quiet [OF ended(2)])
      (use ended(1) in
        \<open>auto simp: finishRun_def split: prod.splits option.splits\<close>)
next
  case (persisted bl x d w b s d' w')
  show ?case
    by (rule sendInv_quiet [OF persisted(2)])
      (use persisted(1) in
        \<open>auto simp: retryTerminalPersistence_def split: prod.splits option.splits\<close>)
qed


lemma sendInv_start:
  "sendInv \<lparr>run = newRunState rid digest, inflight = [], handed = []\<rparr>"
  by (simp add: sendInv_def newRunState_def)

lemma sendInv_reachable: "(sendStep mx)\<^sup>*\<^sup>* x y \<Longrightarrow> sendInv x \<Longrightarrow> sendInv y"
  by (induction rule: rtranclp_induct) (auto intro: sendInv_step)

text \<open>C6: The control plane deduplicates progress on its sequence number, so a number must
  stand for the same bytes for ever.  However output lines, merging, a full queue, failed
  sends, requeues and reconnects interleave, no two progress messages handed to the
  connection ever share a sequence number and differ, and the sequence numbers that were
  minted and are neither sent nor queued are at most as many as the counted drops.\<close>

theorem progress_sequence_stable:
  assumes "(sendStep maxPending)\<^sup>*\<^sup>* \<lparr>run = newRunState rid digest, inflight = [], handed = []\<rparr> x"
  shows "\<not> (\<exists>p q. ProgressMsg p \<in> set (handed x) \<and> ProgressMsg q \<in> set (handed x)
       \<and> Seq p = Seq q \<and> p \<noteq> q)
    \<and> card ({1..int (progressSeq (run x))} - seqs (handed x @ inflight x @ pending (run x)))
       \<le> droppedChunks (run x)"
  using sendInv_reachable [OF assms sendInv_start] unfolding sendInv_def Let_def
  by (auto simp: set_progs)

theorem progress_sequence_stable_witness:
  "\<exists>x :: sending. progressSeq (run x) = 1 \<and>
     \<not> (\<exists>p q. ProgressMsg p \<in> set (handed x) \<and> ProgressMsg q \<in> set (handed x)
       \<and> Seq p = Seq q \<and> p \<noteq> q)"
proof -
  let ?x = "\<lparr>run = newRunState ''r1'' ''d'', inflight = [], handed = []\<rparr>"
  let ?y = "?x\<lparr>run := enqueueProgressChunk 4 (run ?x) ''r1'' ''stdout'' ''a''\<rparr>"
  have "(sendStep 4)\<^sup>*\<^sup>* ?x ?y" using sendStep.produce by blast
  note s = progress_sequence_stable [OF this]
  have "progressSeq (run ?y) = 1"
    by (simp add: enqueueProgressChunk_def mergeTarget_def newRunState_def enqueue_def)
  from conjI [OF this conjunct1 [OF s]] show ?thesis by (rule exI [of _ ?y])
qed

subsection \<open>Splitting oversized output\<close>

lemma runeCut_some:
  "e \<le> n \<Longrightarrow> runeStart (s ! e) \<Longrightarrow> \<exists>e'. runeCut s n = Some e' \<and> e \<le> e'"
  by (induction n) (auto simp: le_Suc_eq)

lemma runeCut_start: "runeCut s n = Some e \<Longrightarrow> e \<le> n \<and> runeStart (s ! e)"
  by (induction n) (auto split: if_splits)

text \<open>C7: Splitting always ends and loses nothing: for output that is valid UTF-8, which is
  what the engine emits, an oversized chunk is cut into non-empty pieces of at most 32 KiB,
  each valid UTF-8 itself, whose concatenation is the chunk.\<close>

theorem progress_split_complete:
  assumes "validString chunk"
  shows "\<exists>cs. splitProgress chunk = Some cs \<and> concat cs = chunk
    \<and> (\<forall>c \<in> set cs. c \<noteq> [] \<and> length c \<le> maxProgressChunkBytes \<and> validString c)"
  using assms
proof (induction chunk rule: splitProgress.induct)
  case (1 chunk)
  show ?case
  proof (cases "length chunk \<le> maxProgressChunkBytes")
    case True
    with "1.prems" show ?thesis by (simp add: splitProgress.simps [of chunk])
  next
    case False
    then have lt: "maxProgressChunkBytes < length chunk" by simp
    obtain e0 where "e0 \<le> maxProgressChunkBytes" "maxProgressChunkBytes \<le> e0 + 3" "runeStart (chunk ! e0)"
      using rune_start_near [OF valid_goodSegments [OF "1.prems"], of maxProgressChunkBytes] lt by auto
    then obtain e where e: "runeCut chunk maxProgressChunkBytes = Some e" and ge: "e0 \<le> e"
      using runeCut_some by blast
    have pos: "e \<noteq> 0" using ge \<open>maxProgressChunkBytes \<le> e0 + 3\<close> by (simp add: maxProgressChunkBytes_def)
    have le: "e \<le> maxProgressChunkBytes" "runeStart (chunk ! e)" using runeCut_start [OF e] by auto
    have v: "validString (take e chunk)" "validString (drop e chunk)"
      using valid_cut [OF "1.prems", of e] le lt by auto
    from "1.IH" [OF False e pos v(2)] obtain cs where cs: "splitProgress (drop e chunk) = Some cs"
      "concat cs = drop e chunk"
      "\<forall>c \<in> set cs. c \<noteq> [] \<and> length c \<le> maxProgressChunkBytes \<and> validString c" by blast
    have "splitProgress chunk = Some (take e chunk # cs)"
      using False e pos cs(1) by (simp add: splitProgress.simps [of chunk])
    then show ?thesis using cs v(1) le lt pos by (intro exI [of _ "take e chunk # cs"]) auto
  qed
qed

theorem progress_split_complete_witness:
  "\<exists>cs. splitProgress ''ok'' = Some cs \<and> concat cs = ''ok''"
proof -
  have "validString ''ok''" by code_simp
  from progress_split_complete [OF this] show ?thesis by blast
qed

end
