(* ===== verification/Go_Values.thy ===== *)
theory Go_Values
  imports Json_Value Complex_Main
begin

text \<open>
  Dynamically typed Go values (\<open>any\<close>) as argument maps and action defaults hold them, IEEE
  doubles as the exact rational they stand for, and the parts of Go's standard library that
  enter the model as functions: regular expressions, decimal conversion of floats, duration
  syntax and Unicode case tables.
\<close>

subsection \<open>Doubles\<close>

datatype float64 = Finite rat | PosInf | NegInf | NaN

fun isNaN :: "float64 \<Rightarrow> bool" where
  "isNaN NaN = True"
| "isNaN _ = False"

fun isInf :: "float64 \<Rightarrow> bool" where
  "isInf PosInf = True"
| "isInf NegInf = True"
| "isInf _ = False"

fun fless :: "float64 \<Rightarrow> float64 \<Rightarrow> bool" where
  "fless (Finite a) (Finite b) = (a < b)"
| "fless (Finite a) PosInf = True"
| "fless NegInf (Finite b) = True"
| "fless NegInf PosInf = True"
| "fless _ _ = False"

fun feq :: "float64 \<Rightarrow> float64 \<Rightarrow> bool" where
  "feq (Finite a) (Finite b) = (a = b)"
| "feq PosInf PosInf = True"
| "feq NegInf NegInf = True"
| "feq _ _ = False"

text \<open>\<open>math.Trunc(x) == x\<close>.\<close>

fun truncEq :: "float64 \<Rightarrow> bool" where
  "truncEq (Finite a) = (of_int \<lfloor>a\<rfloor> = a)"
| "truncEq NaN = False"
| "truncEq _ = True"

subsection \<open>Values of type any\<close>

datatype any =
    GoNil
  | GoBool bool
  | GoString string
  | GoInt int | GoInt32 int | GoInt64 int
  | GoUint int | GoUint32 int | GoUint64 int
  | GoFloat32 float64 | GoFloat64 float64
  | GoNumber string
  | GoDuration int
  | GoStrings "string list"
  | GoInts "int list"
  | GoInt64s "int list"
  | GoAnys "any list"
  | GoMap "(string \<times> any) list"

type_synonym args = "(string \<times> any) list"

text \<open>What \<open>encoding/json\<close> with \<open>UseNumber\<close> decodes into an \<open>any\<close>.\<close>

fun anyOfJson :: "json \<Rightarrow> any" where
  "anyOfJson (JScalar SNull) = GoNil"
| "anyOfJson (JScalar (SBool b)) = GoBool b"
| "anyOfJson (JScalar (SNumber n)) = GoNumber n"
| "anyOfJson (JScalar (SString s)) = GoString s"
| "anyOfJson (JArray js) = GoAnys (map anyOfJson js)"
| "anyOfJson (JObject kvs) = GoMap (map (\<lambda>kv. (fst kv, anyOfJson (snd kv))) kvs)"

definition argsOfJson :: "(string \<times> json) list \<Rightarrow> args" where
  "argsOfJson kvs = map (\<lambda>kv. (fst kv, anyOfJson (snd kv))) kvs"

subsection \<open>Library functions\<close>

record GoLib =
  regexpCompiles :: "string \<Rightarrow> bool"
  regexpMatch :: "string \<Rightarrow> string \<Rightarrow> bool"
  foldRune :: "nat \<Rightarrow> nat"
  lowerString :: "string \<Rightarrow> string"
  parseFloat :: "string \<Rightarrow> float64 option"
  formatFloat :: "float64 \<Rightarrow> string"
  floatOfInt :: "int \<Rightarrow> float64"
  intOfFloat :: "float64 \<Rightarrow> int"
  parseDuration :: "string \<Rightarrow> int option"
  durationString :: "int \<Rightarrow> string"

text \<open>\<open>strconv.FormatInt\<close> in base 10.\<close>

fun digitsOf :: "nat \<Rightarrow> string" where
  "digitsOf n =
    (if n < 10 then [char_of (48 + n)] else digitsOf (n div 10) @ [char_of (48 + n mod 10)])"

declare digitsOf.simps [simp del]

definition formatInt :: "int \<Rightarrow> string" where
  "formatInt n = (if n < 0 then ''-'' @ digitsOf (nat (- n)) else digitsOf (nat n))"

lemma digitsOf_digits: "c \<in> set (digitsOf n) \<Longrightarrow> isDigit c"
proof (induction n rule: digitsOf.induct)
  case (1 n)
  have d: "isDigit (char_of (48 + k))" if "k < 10" for k :: nat
    using that by (simp add: isDigit_def byte_def)
  show ?case using 1 d [of n] d [of "n mod 10"] by (subst (asm) (2) digitsOf.simps) (auto split: if_splits)
qed

lemma digitsOf_not_Nil [simp]: "digitsOf n \<noteq> []"
  by (subst digitsOf.simps) simp

end
