(* ===== verification/Action_Spec.thy ===== *)
theory Action_Spec
  imports Admission Go_Values
begin

text \<open>
  The action schema (\<open>runner/pkg/actionspec/action.go\<close>, \<open>args.go\<close>, \<open>model.go\<close>): the
  declared shape of an action, the checks a pack loader runs on it before it can be
  dispatched, and the canonical descriptor advertised to the control plane.  Durations are
  nanoseconds.  \<open>lib\<close> stands for the standard library functions of \<open>Go_Values\<close>.
\<close>

subsection \<open>Argument declarations\<close>

type_synonym ArgType = string

definition ArgString :: ArgType where "ArgString = ''string''"
definition ArgInteger :: ArgType where "ArgInteger = ''integer''"
definition ArgNumber :: ArgType where "ArgNumber = ''number''"
definition ArgBoolean :: ArgType where "ArgBoolean = ''boolean''"
definition ArgDuration :: ArgType where "ArgDuration = ''duration''"
definition ArgPath :: ArgType where "ArgPath = ''path''"
definition ArgStringArray :: ArgType where "ArgStringArray = ''string_array''"
definition ArgIntegerArray :: ArgType where "ArgIntegerArray = ''integer_array''"

lemmas argTypes = ArgString_def ArgInteger_def ArgNumber_def ArgBoolean_def ArgDuration_def
  ArgPath_def ArgStringArray_def ArgIntegerArray_def

definition argTypeValid :: "ArgType \<Rightarrow> bool" where
  "argTypeValid t \<longleftrightarrow> t \<in> {ArgString, ArgInteger, ArgNumber, ArgBoolean, ArgDuration, ArgPath,
     ArgStringArray, ArgIntegerArray}"

record Validation =
  Enum :: "any list"
  Pattern :: string
  Min :: "float64 option"
  Max :: "float64 option"
  Allowed :: "any list"
  AllowedPaths :: "string list"
  DeniedPaths :: "string list"
  AllowedPrefixes :: "string list"
  DeniedPrefixes :: "string list"
  MaxItems :: "int option"
  MaxLength :: "int option"
  MinDuration :: "int option"
  MaxDuration :: "int option"

record Arg =
  argName :: string
  argType :: ArgType
  Required :: bool
  Sensitive :: bool
  Default :: any
  argDescription :: string
  argValidation :: "Validation option"

datatype arg_error =
    ArgEmptyName | ArgInvalidType | RequiredWithDefault | EnumAndAllowed
  | MembershipOnDuration string | MembershipType string nat
  | PatternOnType | PatternInvalid | MaxLengthOnType | MaxLengthNotPositive
  | MinMaxOnType | BoundNotFinite string | BoundNotInteger string | MinExceedsMax
  | MaxItemsOnType | MaxItemsNegative | DurationOnType | MinDurationExceedsMax | PathRulesOnType

definition validIntegerBound :: "float64 \<Rightarrow> bool" where
  "validIntegerBound bound \<longleftrightarrow> truncEq bound \<and> fless (Finite (- 9007199254740992)) bound
     \<and> fless bound (Finite 9007199254740992)"

fun integerCandidate :: "any \<Rightarrow> bool" where
  "integerCandidate (GoInt n) = True"
| "integerCandidate (GoInt32 n) = True"
| "integerCandidate (GoInt64 n) = True"
| "integerCandidate (GoUint n) = True"
| "integerCandidate (GoUint32 n) = True"
| "integerCandidate (GoUint64 n) = (n \<le> maxInt64)"
| "integerCandidate (GoFloat32 f) = validIntegerBound f"
| "integerCandidate (GoFloat64 f) = validIntegerBound f"
| "integerCandidate _ = False"

fun numberCandidate :: "any \<Rightarrow> bool" where
  "numberCandidate (GoInt n) = True"
| "numberCandidate (GoInt32 n) = True"
| "numberCandidate (GoInt64 n) = True"
| "numberCandidate (GoUint n) = True"
| "numberCandidate (GoUint32 n) = True"
| "numberCandidate (GoUint64 n) = True"
| "numberCandidate (GoFloat32 f) = (\<not> isNaN f \<and> \<not> isInf f)"
| "numberCandidate (GoFloat64 f) = (\<not> isNaN f \<and> \<not> isInf f)"
| "numberCandidate _ = False"

fun isString :: "any \<Rightarrow> bool" where
  "isString (GoString s) = True"
| "isString _ = False"

fun isBool :: "any \<Rightarrow> bool" where
  "isBool (GoBool b) = True"
| "isBool _ = False"

definition membershipCandidateValid :: "ArgType \<Rightarrow> any \<Rightarrow> bool" where
  "membershipCandidateValid t c =
    (if t \<in> {ArgString, ArgPath, ArgStringArray} then isString c
     else if t \<in> {ArgInteger, ArgIntegerArray} then integerCandidate c
     else if t = ArgNumber then numberCandidate c
     else if t = ArgBoolean then isBool c
     else False)"

fun firstInvalidCandidate :: "ArgType \<Rightarrow> nat \<Rightarrow> any list \<Rightarrow> nat option" where
  "firstInvalidCandidate t i [] = None"
| "firstInvalidCandidate t i (c # cs) =
    (if membershipCandidateValid t c then firstInvalidCandidate t (Suc i) cs else Some i)"

definition validateMembershipCandidates :: "ArgType \<Rightarrow> string \<Rightarrow> any list \<Rightarrow> arg_error option" where
  "validateMembershipCandidates t name cs =
    (if cs = [] then None
     else if t = ArgDuration then Some (MembershipOnDuration name)
     else map_option (MembershipType name) (firstInvalidCandidate t 0 cs))"

definition hasPathValidation :: "Validation \<Rightarrow> bool" where
  "hasPathValidation v \<longleftrightarrow> AllowedPaths v \<noteq> [] \<or> DeniedPaths v \<noteq> [] \<or> AllowedPrefixes v \<noteq> []
     \<or> DeniedPrefixes v \<noteq> []"

definition boundError :: "ArgType \<Rightarrow> string \<Rightarrow> float64 option \<Rightarrow> arg_error option" where
  "boundError t name bound =
    (case bound of
       None \<Rightarrow> None
     | Some b \<Rightarrow>
         if isNaN b \<or> isInf b then Some (BoundNotFinite name)
         else if (t = ArgInteger \<or> t = ArgIntegerArray) \<and> \<not> validIntegerBound b
           then Some (BoundNotInteger name)
         else None)"

definition exceeds :: "('a \<Rightarrow> 'a \<Rightarrow> bool) \<Rightarrow> 'a option \<Rightarrow> 'a option \<Rightarrow> bool" where
  "exceeds lt lo hi = (case (lo, hi) of (Some a, Some b) \<Rightarrow> lt b a | _ \<Rightarrow> False)"

definition validateArgRules :: "GoLib \<Rightarrow> ArgType \<Rightarrow> Validation \<Rightarrow> arg_error option" where
  "validateArgRules lib t v = firstErr [
     check (Enum v \<noteq> [] \<and> Allowed v \<noteq> []) EnumAndAllowed,
     validateMembershipCandidates t ''enum'' (Enum v),
     validateMembershipCandidates t ''allowed'' (Allowed v),
     (if Pattern v \<noteq> '''' then
        (if t \<noteq> ArgString \<and> t \<noteq> ArgPath then Some PatternOnType
         else check (\<not> regexpCompiles lib (Pattern v)) PatternInvalid)
      else None),
     (case MaxLength v of
        None \<Rightarrow> None
      | Some n \<Rightarrow>
          if t \<noteq> ArgString \<and> t \<noteq> ArgPath \<and> t \<noteq> ArgStringArray then Some MaxLengthOnType
          else check (n \<le> 0) MaxLengthNotPositive),
     (if Min v \<noteq> None \<or> Max v \<noteq> None then
        firstErr [
          check (t \<noteq> ArgInteger \<and> t \<noteq> ArgIntegerArray \<and> t \<noteq> ArgNumber) MinMaxOnType,
          boundError t ''min'' (Min v), boundError t ''max'' (Max v),
          check (exceeds fless (Min v) (Max v)) MinExceedsMax]
      else None),
     (case MaxItems v of
        None \<Rightarrow> None
      | Some n \<Rightarrow>
          if t \<noteq> ArgStringArray \<and> t \<noteq> ArgIntegerArray then Some MaxItemsOnType
          else check (n < 0) MaxItemsNegative),
     (if MinDuration v \<noteq> None \<or> MaxDuration v \<noteq> None then
        firstErr [
          check (t \<noteq> ArgDuration) DurationOnType,
          check (exceeds (<) (MinDuration v) (MaxDuration v)) MinDurationExceedsMax]
      else None),
     check (hasPathValidation v \<and> t \<noteq> ArgString \<and> t \<noteq> ArgPath \<and> t \<noteq> ArgStringArray)
       PathRulesOnType]"

definition validateArg :: "GoLib \<Rightarrow> Arg \<Rightarrow> arg_error option" where
  "validateArg lib a = firstErr [
     check (argName a = '''') ArgEmptyName,
     check (\<not> argTypeValid (argType a)) ArgInvalidType,
     check (Required a \<and> Default a \<noteq> GoNil) RequiredWithDefault,
     (case argValidation a of None \<Rightarrow> None | Some v \<Rightarrow> validateArgRules lib (argType a) v)]"


subsection \<open>Durations\<close>

datatype duration_error = EmptyNumber | NotAnInteger | IntegerRange | DurationTooLong | BadDuration

definition parseLeadingInt :: "string \<Rightarrow> duration_error + int" where
  "parseLeadingInt s =
    (if s = '''' then Inl EmptyNumber
     else if \<not> list_all (\<lambda>r. 48 \<le> r \<and> r \<le> 57) (runes s) then Inl NotAnInteger
     else case parseInt s of None \<Rightarrow> Inl IntegerRange | Some n \<Rightarrow> Inr n)"

definition hour :: int where "hour = 3600000000000"

definition durationUnit :: "char \<Rightarrow> int" where
  "durationUnit c = (if c = CHR ''d'' then 24 * hour else if c = CHR ''w'' then 7 * 24 * hour else 0)"

definition parseExtendedDuration :: "GoLib \<Rightarrow> string \<Rightarrow> duration_error + int" where
  "parseExtendedDuration lib s =
    (if s \<noteq> '''' \<and> 0 < durationUnit (last s) then
       (case parseLeadingInt (butlast s) of
          Inl e \<Rightarrow> Inl e
        | Inr amount \<Rightarrow>
            if maxInt64 div durationUnit (last s) < amount then Inl DurationTooLong
            else Inr (wrap64 (amount * durationUnit (last s))))
     else case parseDuration lib s of None \<Rightarrow> Inl BadDuration | Some d \<Rightarrow> Inr d)"

subsection \<open>Actions\<close>

record Command =
  Binary :: string
  cmdArgv :: "string list"

record Script =
  scriptPath :: string
  Interpreter :: string

record Execution =
  exCommand :: "Command option"
  exScript :: "Script option"
  exArgv :: "string list"
  exTimeout :: int
  TimeoutMin :: int
  TimeoutMax :: int
  SuccessExitCodes :: "int list"
  exCancelGrace :: int
  exCWD :: string
  exEnv :: "(string \<times> string) list"
  exUser :: string

record RedactionRule =
  ruleName :: string
  ruleType :: string
  rulePattern :: string
  ruleLiteral :: string
  ruleReplacement :: string

record Output =
  outParser :: Parser
  ParserRequired :: bool
  Schema :: "args option"
  outMaxStdoutBytes :: int
  MaxStdoutBytesMin :: int
  MaxStdoutBytesMax :: int
  outMaxStderrBytes :: int
  MaxStderrBytesMin :: int
  MaxStderrBytesMax :: int
  Redact :: "RedactionRule list"

record Example =
  exampleTitle :: string
  exampleArgs :: "args option"

record Action =
  actSchemaVersion :: int
  actID :: string
  actTitle :: string
  actSummary :: string
  actKind :: Kind
  actRisk :: Risk
  actDescription :: string
  SideEffects :: "string list"
  SearchTerms :: "string list"
  actArgs :: "Arg list"
  actExecution :: Execution
  actOutput :: Output
  Examples :: "Example list"
  PackID :: string
  PackRoot :: string
  SourcePath :: string

definition hasSchema :: "Output \<Rightarrow> bool" where
  "hasSchema out \<longleftrightarrow> Schema out \<noteq> None"

datatype action_error =
    UnsupportedSchemaVersion | MissingID | InvalidID | IDTooLong | MissingTitle
  | TextBlank string | TextNotUTF8 string | TextTooLong string | TextControl string nat
  | TooManySearchTerms | BlankSearchTerm | DuplicateSearchTerm string | BadEnum enum_error
  | MissingDescription | NeedsSummary | MissingSideEffects | TooManySideEffects
  | TooManyExamples | TimeoutNotPositive' | TimeoutMinExceedsMax | TimeoutOutside
  | ExitCodeRange int | ExitCodeDuplicate int | StdoutNotPositive | StderrNotPositive
  | BytesMinExceedsMax string | BytesOutside string | SchemaNeedsJSON
  | ExecNeedsCommand | BinaryRequired | BinaryNotBare | ExecWithScript
  | ScriptRequired | ScriptPathRequired | ScriptWithCommand
  | BadArg arg_error | DuplicateArg string | RuleMissingName | RuleNeedsPattern
  | RuleBadPattern | RuleNeedsLiteral | RuleBadType | EnvKeyName string | EnvKeyForbidden string

subsection \<open>Identifiers\<close>

definition lowerLetter :: "char \<Rightarrow> bool" where
  "lowerLetter c \<longleftrightarrow> 97 \<le> byte c \<and> byte c \<le> 122"

definition upperLetter :: "char \<Rightarrow> bool" where
  "upperLetter c \<longleftrightarrow> 65 \<le> byte c \<and> byte c \<le> 90"

fun validIDSegment :: "string \<Rightarrow> bool" where
  "validIDSegment [] = False"
| "validIDSegment (f # cs) =
    (lowerLetter f \<and>
     list_all (\<lambda>c. lowerLetter c \<or> isDigit c \<or> c = CHR ''_'' \<or> c = CHR ''-'') cs)"

text \<open>The loop of \<open>validActionID\<close>: the rest of the id from \<open>i\<close>, the segment since
  \<open>start\<close>, and the segments counted.\<close>

fun actionIDFrom :: "string \<Rightarrow> string \<Rightarrow> nat \<Rightarrow> bool" where
  "actionIDFrom [] seg n = (seg \<noteq> [] \<and> validIDSegment seg \<and> 2 \<le> Suc n)"
| "actionIDFrom (c # cs) seg n =
    (if c = CHR ''.'' then
       (if seg = [] then False
        else if \<not> validIDSegment seg then False
        else actionIDFrom cs [] (Suc n))
     else actionIDFrom cs (seg @ [c]) n)"

definition validActionID :: "string \<Rightarrow> bool" where
  "validActionID aid = (if aid = '''' \<or> 128 < length aid then False else actionIDFrom aid [] 0)"

subsection \<open>Text shown to a model\<close>

definition isBidiControl :: "nat \<Rightarrow> bool" where
  "isBidiControl r \<longleftrightarrow> r = 0x061c \<or> r = 0x200e \<or> r = 0x200f \<or> (0x202a \<le> r \<and> r \<le> 0x202e)
     \<or> (0x2066 \<le> r \<and> r \<le> 0x2069)"

text \<open>\<open>unicode.IsControl\<close>: the category Cc.\<close>

definition isControl :: "nat \<Rightarrow> bool" where
  "isControl r \<longleftrightarrow> r < 32 \<or> (127 \<le> r \<and> r < 160)"

definition normalizeModelText :: "string \<Rightarrow> string" where
  "normalizeModelText s = joinWith '' '' (Go_Text.fields s)"

definition validateModelText :: "string \<Rightarrow> string \<Rightarrow> nat \<Rightarrow> action_error option" where
  "validateModelText field value maxBytes =
    (let normalized = normalizeModelText value in
     if normalized = '''' then Some (TextBlank field)
     else if \<not> validString normalized then Some (TextNotUTF8 field)
     else if maxBytes < length normalized then Some (TextTooLong field)
     else map_option (TextControl field)
       (List.find (\<lambda>r. isControl r \<or> isBidiControl r) (runes normalized)))"

fun searchTermsFrom :: "GoLib \<Rightarrow> string list \<Rightarrow> string list \<Rightarrow> action_error option" where
  "searchTermsFrom lib seen [] = None"
| "searchTermsFrom lib seen (term # terms) =
    (let trimmed = trimSpace term; key = lowerString lib trimmed in
     if trimmed = '''' then Some BlankSearchTerm
     else case validateModelText ''search term'' trimmed 80 of
       Some e \<Rightarrow> Some e
     | None \<Rightarrow>
         if key \<in> set seen then Some (DuplicateSearchTerm trimmed)
         else searchTermsFrom lib (key # seen) terms)"

definition validateSearchTerms :: "GoLib \<Rightarrow> Action \<Rightarrow> action_error option" where
  "validateSearchTerms lib a =
    (if 16 < length (SearchTerms a) then Some TooManySearchTerms
     else searchTermsFrom lib [] (SearchTerms a))"

text \<open>\<open>ModelSummary\<close>: the summary, a short description, or the description up to its first
  sentence end within 512 bytes; the scan keeps the bytes already passed.\<close>

fun firstSentence :: "nat \<Rightarrow> (nat \<times> string) list \<Rightarrow> nat option" where
  "firstSentence i [] = None"
| "firstSentence i ((r, b) # segs) =
    (let end = i + length (encodeRune r) in
     if 512 < end then None
     else if r \<in> {46, 33, 63} \<and> (segs = [] \<or> hd (snd (hd segs)) = CHR '' '') then Some end
     else firstSentence (i + length b) segs)"

definition modelSummary :: "Action \<Rightarrow> action_error + string" where
  "modelSummary a =
    (let summary = normalizeModelText (actSummary a);
         description = normalizeModelText (actDescription a) in
     if summary \<noteq> '''' then Inr summary
     else if length description \<le> 512 then Inr description
     else case firstSentence 0 (segments description) of
       Some end \<Rightarrow> Inr (take end description)
     | None \<Rightarrow> Inl NeedsSummary)"


subsection \<open>Limits\<close>

definition validateTimeoutBounds :: "Action \<Rightarrow> action_error option" where
  "validateTimeoutBounds a =
    (let t = exTimeout (actExecution a);
         lo = (if TimeoutMin (actExecution a) = 0 then t else TimeoutMin (actExecution a));
         hi = (if TimeoutMax (actExecution a) = 0 then t else TimeoutMax (actExecution a)) in
     if hi < lo then Some TimeoutMinExceedsMax
     else if t < lo \<or> hi < t then Some TimeoutOutside
     else None)"

fun exitCodesFrom :: "int list \<Rightarrow> int list \<Rightarrow> action_error option" where
  "exitCodesFrom seen [] = None"
| "exitCodesFrom seen (code # codes) =
    (if code < 1 \<or> 255 < code then Some (ExitCodeRange code)
     else if code \<in> set seen then Some (ExitCodeDuplicate code)
     else exitCodesFrom (code # seen) codes)"

definition validateSuccessExitCodes :: "Action \<Rightarrow> action_error option" where
  "validateSuccessExitCodes a = exitCodesFrom [] (SuccessExitCodes (actExecution a))"

definition checkOutputBound :: "string \<Rightarrow> int \<Rightarrow> int \<Rightarrow> int \<Rightarrow> action_error option" where
  "checkOutputBound field def lo0 hi0 =
    (let lo = (if lo0 = 0 then def else lo0); hi = (if hi0 = 0 then def else hi0) in
     if hi < lo then Some (BytesMinExceedsMax field)
     else if def < lo \<or> hi < def then Some (BytesOutside field)
     else None)"

definition validateOutputBounds :: "Action \<Rightarrow> action_error option" where
  "validateOutputBounds a =
    (let out = actOutput a in
     case checkOutputBound ''max_stdout_bytes'' (outMaxStdoutBytes out) (MaxStdoutBytesMin out)
            (MaxStdoutBytesMax out) of
       Some e \<Rightarrow> Some e
     | None \<Rightarrow> checkOutputBound ''max_stderr_bytes'' (outMaxStderrBytes out)
            (MaxStderrBytesMin out) (MaxStderrBytesMax out))"

subsection \<open>Environment and redaction rules\<close>

definition interpreterHijackEnvVars :: "string list" where
  "interpreterHijackEnvVars =
    [''BASH_ENV'', ''NODE_OPTIONS'', ''RUBYOPT'', ''PERL5OPT'', ''GIT_SSH_COMMAND'']"

definition isInterpreterHijackEnvVar :: "string \<Rightarrow> bool" where
  "isInterpreterHijackEnvVar name \<longleftrightarrow> name \<in> set interpreterHijackEnvVars"

definition envNameChar :: "bool \<Rightarrow> char \<Rightarrow> bool" where
  "envNameChar first c \<longleftrightarrow> upperLetter c \<or> lowerLetter c \<or> c = CHR ''_'' \<or> (isDigit c \<and> \<not> first)"

fun validEnvName :: "string \<Rightarrow> bool" where
  "validEnvName [] = False"
| "validEnvName (c # cs) = (envNameChar True c \<and> list_all (envNameChar False) cs)"

definition envKeyError :: "string \<Rightarrow> action_error option" where
  "envKeyError k =
    (if \<not> validEnvName k then Some (EnvKeyName k)
     else if prefix ''LD_'' k \<or> prefix ''DYLD_'' k \<or> isInterpreterHijackEnvVar k
       then Some (EnvKeyForbidden k)
     else None)"

definition validateExecutionEnv :: "Action \<Rightarrow> action_error option" where
  "validateExecutionEnv a = firstErr (map (envKeyError \<circ> fst) (exEnv (actExecution a)))"

definition validateRedactionRule :: "GoLib \<Rightarrow> RedactionRule \<Rightarrow> action_error option" where
  "validateRedactionRule lib r =
    (if ruleName r = '''' then Some RuleMissingName
     else if ruleType r = ''regex'' then
       (if rulePattern r = '''' then Some RuleNeedsPattern
        else check (\<not> regexpCompiles lib (rulePattern r)) RuleBadPattern)
     else if ruleType r = ''literal'' then check (ruleLiteral r = '''') RuleNeedsLiteral
     else Some RuleBadType)"

subsection \<open>The whole action\<close>

fun argsFrom :: "GoLib \<Rightarrow> string list \<Rightarrow> Arg list \<Rightarrow> action_error option" where
  "argsFrom lib seen [] = None"
| "argsFrom lib seen (a # as) =
    (case validateArg lib a of
       Some e \<Rightarrow> Some (BadArg e)
     | None \<Rightarrow>
         if argName a \<in> set seen then Some (DuplicateArg (argName a))
         else argsFrom lib (argName a # seen) as)"

definition validateKind :: "Action \<Rightarrow> action_error option" where
  "validateKind a =
    (let ex = actExecution a in
     if actKind a = KindExec then
       (case exCommand ex of
          None \<Rightarrow> Some ExecNeedsCommand
        | Some c \<Rightarrow>
            if Binary c = '''' then Some BinaryRequired
            else if Binary c \<noteq> ''/bin/sh'' \<and> (slash \<in> set (Binary c) \<or> backslash \<in> set (Binary c))
              then Some BinaryNotBare
            else check (exScript ex \<noteq> None) ExecWithScript)
     else if actKind a = KindScript then
       (case exScript ex of
          None \<Rightarrow> Some ScriptRequired
        | Some s \<Rightarrow>
            if scriptPath s = '''' then Some ScriptPathRequired
            else check (exCommand ex \<noteq> None) ScriptWithCommand)
     else None)"

definition SchemaVersion :: int where "SchemaVersion = 1"

definition validateAction :: "GoLib \<Rightarrow> Action \<Rightarrow> action_error option" where
  "validateAction lib a = firstErr ([
     check (actSchemaVersion a \<noteq> SchemaVersion) UnsupportedSchemaVersion,
     check (actID a = '''') MissingID,
     check (\<not> validActionID (actID a)) InvalidID,
     check (128 < length (actID a)) IDTooLong,
     check (actTitle a = '''') MissingTitle,
     validateModelText ''title'' (actTitle a) 160,
     (if actSummary a \<noteq> '''' then validateModelText ''summary'' (actSummary a) 512 else None),
     validateSearchTerms lib a,
     map_option BadEnum (validateEnums (actKind a) (actRisk a) (outParser (actOutput a))),
     check (actDescription a = '''') MissingDescription,
     validateModelText ''description'' (actDescription a) 4096,
     (case modelSummary a of Inl e \<Rightarrow> Some e | Inr s \<Rightarrow> None),
     check (SideEffects a = []) MissingSideEffects,
     check (16 < length (SideEffects a)) TooManySideEffects]
    @ map (\<lambda>effect. validateModelText ''side_effects'' effect 1024) (SideEffects a)
    @ [check (16 < length (Examples a)) TooManyExamples]
    @ map (\<lambda>e. validateModelText ''example title'' (exampleTitle e) 160) (Examples a)
    @ [check (exTimeout (actExecution a) \<le> 0) TimeoutNotPositive',
       validateTimeoutBounds a,
       validateSuccessExitCodes a,
       check (outMaxStdoutBytes (actOutput a) \<le> 0) StdoutNotPositive,
       check (outMaxStderrBytes (actOutput a) \<le> 0) StderrNotPositive,
       validateOutputBounds a,
       check (hasSchema (actOutput a) \<and>
         (outParser (actOutput a) \<noteq> ParserJSON \<or> \<not> ParserRequired (actOutput a))) SchemaNeedsJSON,
       validateKind a,
       argsFrom lib [] (actArgs a)]
    @ map (validateRedactionRule lib) (Redact (actOutput a))
    @ [validateExecutionEnv a])"


subsection \<open>The canonical descriptor\<close>

record ModelValidation =
  mvEnum :: "any list"
  mvPattern :: string
  mvMin :: "float64 option"
  mvMax :: "float64 option"
  mvAllowed :: "any list"
  mvAllowedPaths :: "string list"
  mvDeniedPaths :: "string list"
  mvAllowedPrefixes :: "string list"
  mvDeniedPrefixes :: "string list"
  mvMaxItems :: "int option"
  mvMaxLength :: "int option"
  mvMinDuration :: "string option"
  mvMaxDuration :: "string option"

record ModelArg =
  maName :: string
  maType :: string
  maRequired :: bool
  maSensitive :: bool
  maDefault :: any
  maDescription :: string
  maValidation :: "ModelValidation option"

record ModelExample =
  meTitle :: string
  meArgs :: args

record ModelDescriptor =
  mdID :: string
  mdTitle :: string
  mdSummary :: string
  mdDescription :: string
  mdKind :: string
  mdRisk :: string
  mdSideEffects :: "string list"
  mdArgs :: "ModelArg list"
  mdExamples :: "ModelExample list"
  mdSearchTerms :: "string list"
  mdOutputSchema :: "args option"

definition normalizedModelStrings :: "string list \<Rightarrow> string list" where
  "normalizedModelStrings values = map normalizeModelText values"

definition modelSideEffects :: "GoLib \<Rightarrow> string list \<Rightarrow> string list" where
  "modelSideEffects lib values =
    (let out = normalizedModelStrings values in
     if length out = 1 \<and> equalFold (foldRune lib) (out ! 0) ''none'' then [] else out)"

definition modelDuration :: "GoLib \<Rightarrow> int option \<Rightarrow> string option" where
  "modelDuration lib d = map_option (durationString lib) d"

definition modelValidation :: "GoLib \<Rightarrow> Validation option \<Rightarrow> ModelValidation option" where
  "modelValidation lib v = map_option (\<lambda>v.
     \<lparr>mvEnum = Enum v, mvPattern = Pattern v, mvMin = Min v, mvMax = Max v, mvAllowed = Allowed v,
      mvAllowedPaths = AllowedPaths v, mvDeniedPaths = DeniedPaths v,
      mvAllowedPrefixes = AllowedPrefixes v, mvDeniedPrefixes = DeniedPrefixes v,
      mvMaxItems = MaxItems v, mvMaxLength = MaxLength v,
      mvMinDuration = modelDuration lib (MinDuration v),
      mvMaxDuration = modelDuration lib (MaxDuration v)\<rparr>) v"

definition modelArgs :: "GoLib \<Rightarrow> Arg list \<Rightarrow> ModelArg list" where
  "modelArgs lib as = map (\<lambda>a.
     \<lparr>maName = argName a, maType = argType a, maRequired = Required a, maSensitive = Sensitive a,
      maDefault = Default a, maDescription = normalizeModelText (argDescription a),
      maValidation = modelValidation lib (argValidation a)\<rparr>) as"

definition modelExamples :: "Example list \<Rightarrow> ModelExample list" where
  "modelExamples es = map (\<lambda>e.
     \<lparr>meTitle = normalizeModelText (exampleTitle e),
      meArgs = (case exampleArgs e of None \<Rightarrow> [] | Some as \<Rightarrow> as)\<rparr>) es"

definition modelDescriptor :: "GoLib \<Rightarrow> Action \<Rightarrow> ModelDescriptor" where
  "modelDescriptor lib a =
    \<lparr>mdID = actID a, mdTitle = normalizeModelText (actTitle a),
     mdSummary = (case modelSummary a of Inr s \<Rightarrow> s | Inl e \<Rightarrow> ''''),
     mdDescription = normalizeModelText (actDescription a), mdKind = actKind a, mdRisk = actRisk a,
     mdSideEffects = modelSideEffects lib (SideEffects a), mdArgs = modelArgs lib (actArgs a),
     mdExamples = modelExamples (Examples a),
     mdSearchTerms = normalizedModelStrings (SearchTerms a),
     mdOutputSchema = Schema (actOutput a)\<rparr>"

subsection \<open>What a loaded action guarantees\<close>

lemma actionIDFrom_split:
  "actionIDFrom s seg n \<longleftrightarrow>
     (\<forall>p \<in> set ((seg @ hd (splitOn (CHR ''.'') s)) # tl (splitOn (CHR ''.'') s)). validIDSegment p)
     \<and> 2 \<le> n + length (splitOn (CHR ''.'') s)"
proof (induction s arbitrary: seg n)
  case Nil
  show ?case by (cases seg) auto
next
  case (Cons c s)
  obtain w ws where w: "splitOn (CHR ''.'') s = w # ws"
    using splitOn_nonempty by (metis list.exhaust)
  show ?case
  proof (cases "c = CHR ''.''")
    case True
    with w show ?thesis by (cases seg) (auto simp: Cons.IH)
  next
    case False
    with w show ?thesis by (auto simp: Cons.IH)
  qed
qed

lemma validIDSegment_no_dot: "validIDSegment p \<Longrightarrow> CHR ''.'' \<notin> set p"
  by (cases p) (auto simp: list_all_iff lowerLetter_def isDigit_def byte_def)

text \<open>An action id is accepted exactly when it is at most 128 bytes long and is two or
  more segments joined by dots, each a lower-case letter followed by lower-case letters, digits,
  underscores and dashes.\<close>

lemma action_id_grammar:
  "validActionID aid \<longleftrightarrow>
     length aid \<le> 128 \<and>
     (\<exists>segs. 2 \<le> length segs \<and> list_all validIDSegment segs \<and> aid = joinWith ''.'' segs)"
proof -
  let ?ps = "splitOn (CHR ''.'') aid"
  have "actionIDFrom aid [] 0 \<longleftrightarrow> list_all validIDSegment ?ps \<and> 2 \<le> length ?ps"
    using actionIDFrom_split [of aid "[]" 0] splitOn_nonempty [of "CHR ''.''" aid]
    by (cases ?ps) (auto simp: list_all_iff)
  also have "\<dots> \<longleftrightarrow> (\<exists>segs. 2 \<le> length segs \<and> list_all validIDSegment segs \<and> aid = joinWith ''.'' segs)"
  proof
    assume "list_all validIDSegment ?ps \<and> 2 \<le> length ?ps"
    then show "\<exists>segs. 2 \<le> length segs \<and> list_all validIDSegment segs \<and> aid = joinWith ''.'' segs"
      by (intro exI [of _ ?ps]) (simp add: joinWith_splitOn)
  next
    assume "\<exists>segs. 2 \<le> length segs \<and> list_all validIDSegment segs \<and> aid = joinWith ''.'' segs"
    then obtain segs where s: "2 \<le> length segs" "list_all validIDSegment segs" "aid = joinWith ''.'' segs"
      by blast
    then have "?ps = segs"
      using splitOn_joinWith [of segs "CHR ''.''"] validIDSegment_no_dot
      by (cases segs) (auto simp: list_all_iff)
    with s show "list_all validIDSegment ?ps \<and> 2 \<le> length ?ps" by simp
  qed
  finally have "actionIDFrom aid [] 0 \<longleftrightarrow>
    (\<exists>segs. 2 \<le> length segs \<and> list_all validIDSegment segs \<and> aid = joinWith ''.'' segs)" .
  moreover have "\<not> actionIDFrom [] [] 0" by simp
  ultimately show ?thesis by (auto simp: validActionID_def)
qed

lemma validateAction_checks:
  assumes "validateAction lib a = None"
  shows "0 < exTimeout (actExecution a)" "validateTimeoutBounds a = None"
    "validateSuccessExitCodes a = None" "0 < outMaxStdoutBytes (actOutput a)"
    "0 < outMaxStderrBytes (actOutput a)" "validateOutputBounds a = None"
    "hasSchema (actOutput a) \<Longrightarrow> outParser (actOutput a) = ParserJSON \<and> ParserRequired (actOutput a)"
    "validateKind a = None" "argsFrom lib [] (actArgs a) = None" "validateExecutionEnv a = None"
    "modelSummary a \<noteq> Inl e" "validActionID (actID a)"
    "validateModelText ''description'' (actDescription a) 4096 = None"
    "actSummary a \<noteq> '''' \<Longrightarrow> validateModelText ''summary'' (actSummary a) 512 = None"
  using assms by (auto simp: validateAction_def firstErr_append firstErr_Cons
      split: option.splits sum.splits if_splits)

lemma envKeyError_None: "envKeyError k = None \<Longrightarrow> validEnvName k \<and> \<not> prefix ''LD_'' k
    \<and> \<not> prefix ''DYLD_'' k \<and> \<not> isInterpreterHijackEnvVar k"
  by (auto simp: envKeyError_def split: if_splits)

lemma validEnvName_chars: "validEnvName k \<Longrightarrow> CHR ''='' \<notin> set k"
  by (cases k) (auto simp: list_all_iff envNameChar_def upperLetter_def lowerLetter_def isDigit_def byte_def)



lemma encodeRune_ascii: "r < 128 \<Longrightarrow> length (encodeRune r) = 1"
  by (simp add: encodeRune_def)

lemma firstSentence_cut:
  "goodSegments segs \<Longrightarrow> firstSentence i segs = Some e \<Longrightarrow>
   \<exists>a b. segs = a @ b \<and> a \<noteq> [] \<and> e = i + length (concat (map snd a)) \<and> e \<le> 512"
proof (induction i segs rule: firstSentence.induct)
  case (2 i r b segs)
  have g: "decodeRune b = (r, length b)" "b \<noteq> []" "goodSegments segs"
    using "2.prems"(1) by (auto simp: goodSegments_def)
  show ?case
  proof (cases "r \<in> {46, 33, 63} \<and> (segs = [] \<or> hd (snd (hd segs)) = CHR '' '')")
    case True
    then have "length b = 1" "length (encodeRune r) = 1"
      using ascii_rune_bytes [OF g(1,2)] encodeRune_ascii [of r] by auto
    with True "2.prems"(2) show ?thesis
      by (intro exI [of _ "[(r, b)]"] exI [of _ segs]) (auto simp: Let_def split: if_splits)
  next
    case False
    with "2.prems"(2) have "firstSentence (i + length b) segs = Some e" "\<not> 512 < i + length (encodeRune r)"
      by (auto simp: Let_def split: if_splits)
    from "2.IH" [OF refl this(2) False g(3) this(1)] obtain a c where
      "segs = a @ c" "a \<noteq> []" "e = i + length b + length (concat (map snd a))" "e \<le> 512" by blast
    then show ?thesis by (intro exI [of _ "(r, b) # a"] exI [of _ c]) simp
  qed
qed simp

definition cleanText :: "nat \<Rightarrow> string \<Rightarrow> bool" where
  "cleanText n s \<longleftrightarrow> s \<noteq> '''' \<and> length s \<le> n \<and> validString s
     \<and> (\<forall>r \<in> set (runes s). \<not> isControl r \<and> \<not> isBidiControl r)"

lemma validateModelText_clean:
  "validateModelText f v n = None \<Longrightarrow> cleanText n (normalizeModelText v)"
  by (auto simp: validateModelText_def cleanText_def Let_def find_None_all split: if_splits)

lemma cleanText_cut:
  assumes "cleanText n s" and "segments s = a @ b" and "a \<noteq> []" and "e = length (concat (map snd a))"
    and "e \<le> m"
  shows "cleanText m (take e s)"
proof -
  have g: "goodSegments (a @ b)"
    using valid_goodSegments [of s] assms(1,2) by (simp add: cleanText_def)
  then have ga: "goodSegments a" by (simp add: goodSegments_def)
  have t: "take e s = concat (map snd a)"
    using concat_segments [of s] assms(2,4) by (metis append_eq_conv_conj concat_append map_append)
  have "segments (concat (map snd a)) = a"
    using segments_concat_valid [of a] ga by (simp add: goodSegments_def)
  then have r: "runes (take e s) = map fst a" by (simp add: t runes_def)
  have "take e s \<noteq> []" using ga assms(3) by (cases a) (auto simp: t goodSegments_def)
  moreover have "validString (take e s)" using goodSegments_valid [OF ga] by (simp add: t)
  moreover have "runes s = map fst a @ map fst b" by (simp add: runes_def assms(2))
  then have "set (runes (take e s)) \<subseteq> set (runes s)" by (simp add: r)
  moreover have "length (take e s) \<le> m" using assms(5) by simp
  ultimately show ?thesis using assms(1) unfolding cleanText_def by blast
qed

lemma modelSummary_Inr:
  "modelSummary a = Inr s \<Longrightarrow>
     (normalizeModelText (actSummary a) \<noteq> '''' \<and> s = normalizeModelText (actSummary a))
   \<or> (length (normalizeModelText (actDescription a)) \<le> 512 \<and> s = normalizeModelText (actDescription a))
   \<or> (\<exists>e. firstSentence 0 (segments (normalizeModelText (actDescription a))) = Some e
        \<and> s = take e (normalizeModelText (actDescription a)))"
  unfolding modelSummary_def Let_def by (simp split: if_splits option.splits)

text \<open>The summary advertised for a loaded action is never blank, at most 512 bytes of valid
  UTF-8, and free of control and bidirectional characters, whether it was authored or derived
  from the description.\<close>

lemma advertised_summary_clean:
  assumes "validateAction lib a = None"
  shows "cleanText 512 (mdSummary (modelDescriptor lib a))"
proof -
  note v = validateAction_checks [OF assms]
  let ?d = "normalizeModelText (actDescription a)"
  have d: "cleanText 4096 ?d" using validateModelText_clean [OF v(13)] .
  obtain s where s: "modelSummary a = Inr s" using v(11) by (cases "modelSummary a") auto
  consider "normalizeModelText (actSummary a) \<noteq> ''''" "s = normalizeModelText (actSummary a)"
    | "length ?d \<le> 512" "s = ?d"
    | e where "firstSentence 0 (segments ?d) = Some e" "s = take e ?d"
    using modelSummary_Inr [OF s] by blast
  then have "cleanText 512 s"
  proof cases
    case 1
    have "actSummary a \<noteq> ''''"
    proof
      assume "actSummary a = ''''"
      then have "normalizeModelText (actSummary a) = ''''"
        by (simp add: normalizeModelText_def Go_Text.fields_def)
      with 1 show False by simp
    qed
    with validateModelText_clean [OF v(14)] 1 show ?thesis by simp
  next
    case 2
    with d show ?thesis by (simp add: cleanText_def)
  next
    case 3
    have "goodSegments (segments ?d)" using valid_goodSegments [of ?d] d by (simp add: cleanText_def)
    from firstSentence_cut [OF this 3(1)] obtain x y where
      "segments ?d = x @ y" "x \<noteq> []" "e = length (concat (map snd x))" "e \<le> 512" by auto
    from cleanText_cut [OF d this] 3 show ?thesis by simp
  qed
  with s show ?thesis by (simp add: modelDescriptor_def)
qed


text \<open>A small action that loads, for the concrete instances.\<close>

definition sampleLib :: GoLib where
  "sampleLib = \<lparr>regexpCompiles = (\<lambda>p. True), regexpMatch = (\<lambda>p s. True), foldRune = (\<lambda>r. r),
     lowerString = (\<lambda>s. s), parseFloat = (\<lambda>s. None), formatFloat = (\<lambda>f. ''''),
     floatOfInt = (\<lambda>n. Finite (of_int n)), intOfFloat = (\<lambda>f. 0), parseDuration = (\<lambda>s. None),
     durationString = (\<lambda>d. '''')\<rparr>"

definition sampleAction :: Action where
  "sampleAction =
    \<lparr>actSchemaVersion = 1, actID = ''fs.head'', actTitle = ''Head'', actSummary = '''',
     actKind = KindExec, actRisk = RiskLow, actDescription = ''Show the head.'',
     SideEffects = [''none''], SearchTerms = [],
     actArgs = [\<lparr>argName = ''lines'', argType = ArgInteger, Required = False, Sensitive = False,
        Default = GoNil, argDescription = '''', argValidation = None\<rparr>],
     actExecution = \<lparr>exCommand = Some \<lparr>Binary = ''head'', cmdArgv = [''-n'']\<rparr>, exScript = None,
        exArgv = [], exTimeout = 10, TimeoutMin = 0, TimeoutMax = 60, SuccessExitCodes = [1],
        exCancelGrace = 0, exCWD = '''', exEnv = [(''LANG'', ''C'')], exUser = ''''\<rparr>,
     actOutput = \<lparr>outParser = ParserText, ParserRequired = False, Schema = None,
        outMaxStdoutBytes = 1000, MaxStdoutBytesMin = 0, MaxStdoutBytesMax = 4000,
        outMaxStderrBytes = 1000, MaxStderrBytesMin = 0, MaxStderrBytesMax = 0, Redact = []\<rparr>,
     Examples = [], PackID = ''fs'', PackRoot = ''/packs/fs'', SourcePath = ''head.yaml''\<rparr>"

lemma sampleAction_loads: "validateAction sampleLib sampleAction = None"
  by code_simp


end
