(* ===== verification/Pack_Registry.thy ===== *)
theory Pack_Registry
  imports Action_Spec "HOL-Library.Multiset" "HOL-Library.List_Lexorder" "HOL-Library.Char_ord"
begin

text \<open>
  The in-memory index of packs and actions (\<open>runner/internal/packs/registry.go\<close>) and the
  content hash of a pack (\<open>computePackHash\<close> of \<open>loader.go\<close>).  Go's maps are association
  lists with distinct keys.  \<open>readFile\<close> is the disk as \<open>os.ReadFile\<close> sees it and \<open>sha\<close>
  the hexadecimal SHA-256 of a byte string.
\<close>

record Pack =
  packID :: string
  packName :: string
  packVersion :: string
  packRootDir :: string

record ScriptInfo =
  siPath :: string
  siSHA256 :: string

record hashEntry =
  rel :: string
  hashData :: string

record PackFile =
  pfRel :: string
  pfData :: string

record 'v Registry =
  packs :: "(string \<times> Pack) list"
  actions :: "(string \<times> Action) list"
  scripts :: "(string \<times> ScriptInfo) list"
  outputSchemas :: "(string \<times> 'v) list"
  packHashes :: "(string \<times> string) list"
  packHashInputs :: "(string \<times> hashEntry list) list"

definition newRegistry :: "'v Registry" where
  "newRegistry = \<lparr>packs = [], actions = [], scripts = [], outputSchemas = [], packHashes = [],
     packHashInputs = []\<rparr>"

definition outputSchema :: "'v Registry \<Rightarrow> string \<Rightarrow> 'v option" where
  "outputSchema r aid = map_of (outputSchemas r) aid"

definition packOf :: "'v Registry \<Rightarrow> string \<Rightarrow> Pack option" where
  "packOf r pid = map_of (packs r) pid"

definition actionOf :: "'v Registry \<Rightarrow> string \<Rightarrow> Action option" where
  "actionOf r aid = map_of (actions r) aid"

definition scriptInfo :: "'v Registry \<Rightarrow> string \<Rightarrow> ScriptInfo option" where
  "scriptInfo r aid = map_of (scripts r) aid"

definition packHash :: "'v Registry \<Rightarrow> string \<Rightarrow> string option" where
  "packHash r pid = map_of (packHashes r) pid"

datatype pack_error = PackNotLoaded string | NoHashInputs string | ReadFailed string

fun readEntries ::
  "(string \<Rightarrow> string option) \<Rightarrow> string \<Rightarrow> hashEntry list \<Rightarrow> pack_error + PackFile list" where
  "readEntries readFile dir [] = Inr []"
| "readEntries readFile dir (e # es) =
    (case readFile (pathJoin dir (rel e)) of
       None \<Rightarrow> Inl (ReadFailed (pathJoin dir (rel e)))
     | Some data \<Rightarrow>
         rbind (readEntries readFile dir es) (\<lambda>fs. Inr (\<lparr>pfRel = rel e, pfData = data\<rparr> # fs)))"

definition packFiles ::
  "(string \<Rightarrow> string option) \<Rightarrow> 'v Registry \<Rightarrow> string \<Rightarrow> pack_error + PackFile list" where
  "packFiles readFile r pid =
    (case packOf r pid of
       None \<Rightarrow> Inl (PackNotLoaded pid)
     | Some pack \<Rightarrow>
         (let entries = (case map_of (packHashInputs r) pid of None \<Rightarrow> [] | Some es \<Rightarrow> es) in
          if entries = [] then Inl (NoHashInputs pid)
          else readEntries readFile (packRootDir pack) entries))"

definition hashPreimage :: "hashEntry list \<Rightarrow> string" where
  "hashPreimage entries =
    concat (map (\<lambda>e. rel e @ [CHR 0x00] @ hashData e @ [CHR 0x00]) (sort_key rel entries))"

definition computePackHash :: "(string \<Rightarrow> string) \<Rightarrow> hashEntry list \<Rightarrow> string" where
  "computePackHash sha entries = ''sha256:'' @ sha (hashPreimage entries)"

definition recomputePackHash ::
  "(string \<Rightarrow> string) \<Rightarrow> (string \<Rightarrow> string option) \<Rightarrow> 'v Registry \<Rightarrow> string \<Rightarrow> pack_error + string" where
  "recomputePackHash sha readFile r pid =
    rbind (packFiles readFile r pid) (\<lambda>files.
      Inr (computePackHash sha (map (\<lambda>f. \<lparr>rel = pfRel f, hashData = pfData f\<rparr>) files)))"

text \<open>\<open>removePack\<close>: a pack that failed part-way leaves nothing behind.\<close>

definition removeKey :: "string \<Rightarrow> (string \<times> 'a) list \<Rightarrow> (string \<times> 'a) list" where
  "removeKey k m = filter (\<lambda>kv. fst kv \<noteq> k) m"

definition removePack :: "'v Registry \<Rightarrow> string \<Rightarrow> 'v Registry" where
  "removePack r pid =
    (let gone = map fst (filter (\<lambda>ia. PackID (snd ia) = pid) (actions r)) in
     r\<lparr>packs := removeKey pid (packs r), packHashes := removeKey pid (packHashes r),
       packHashInputs := removeKey pid (packHashInputs r),
       actions := filter (\<lambda>ia. PackID (snd ia) \<noteq> pid) (actions r),
       scripts := filter (\<lambda>kv. fst kv \<notin> set gone) (scripts r),
       outputSchemas := filter (\<lambda>kv. fst kv \<notin> set gone) (outputSchemas r)\<rparr>)"

definition sortedPacks :: "'v Registry \<Rightarrow> Pack list" where
  "sortedPacks r = sort_key packID (map snd (packs r))"

definition sortedActions :: "'v Registry \<Rightarrow> Action list" where
  "sortedActions r = sort_key actID (map snd (actions r))"

subsection \<open>The hash covers every file\<close>

definition nulFree :: "string \<Rightarrow> bool" where
  "nulFree s \<longleftrightarrow> CHR 0x00 \<notin> set s"

definition flatEntries :: "hashEntry list \<Rightarrow> string" where
  "flatEntries es = concat (map (\<lambda>e. rel e @ [CHR 0x00] @ hashData e @ [CHR 0x00]) es)"

lemma nulFree_append_inj:
  "nulFree a \<Longrightarrow> nulFree b \<Longrightarrow> a @ CHR 0x00 # x = b @ CHR 0x00 # y \<Longrightarrow> a = b \<and> x = y"
  by (induction a arbitrary: b) (auto simp: nulFree_def Cons_eq_append_conv append_eq_Cons_conv)

lemma flatEntries_inj:
  "(\<forall>e \<in> set es. nulFree (rel e) \<and> nulFree (hashData e)) \<Longrightarrow>
   (\<forall>e \<in> set fs. nulFree (rel e) \<and> nulFree (hashData e)) \<Longrightarrow>
   flatEntries es = flatEntries fs \<Longrightarrow> es = fs"
proof (induction es arbitrary: fs)
  case Nil
  then show ?case by (cases fs) (auto simp: flatEntries_def)
next
  case (Cons e es)
  from Cons.prems(3) obtain f fs' where fs: "fs = f # fs'"
    by (cases fs) (auto simp: flatEntries_def)
  from Cons.prems have n: "nulFree (rel e)" "nulFree (hashData e)" "nulFree (rel f)" "nulFree (hashData f)"
    by (auto simp: fs)
  have "rel e @ CHR 0x00 # (hashData e @ CHR 0x00 # flatEntries es)
      = rel f @ CHR 0x00 # (hashData f @ CHR 0x00 # flatEntries fs')"
    using Cons.prems(3) by (simp add: flatEntries_def fs)
  from nulFree_append_inj [OF n(1,3) this] have r: "rel e = rel f"
    and "hashData e @ CHR 0x00 # flatEntries es = hashData f @ CHR 0x00 # flatEntries fs'" by auto
  from nulFree_append_inj [OF n(2,4) this(2)] have d: "hashData e = hashData f"
    and "flatEntries es = flatEntries fs'" by auto
  with Cons.IH [of fs'] Cons.prems have "es = fs'" by (simp add: fs)
  with r d show ?case by (simp add: fs)
qed

text \<open>C4: A pack hash covers every file of the pack: two file sets without NUL bytes that give
  the same hash input are the same paths with the same contents, so under a collision-free hash
  any changed, added, removed or renamed file changes the hash.\<close>

theorem pack_hash_covers_files:
  assumes "\<forall>e \<in> set es. nulFree (rel e) \<and> nulFree (hashData e)"
    and "\<forall>e \<in> set fs. nulFree (rel e) \<and> nulFree (hashData e)"
    and "computePackHash sha es = computePackHash sha fs"
    and "sha (hashPreimage es) = sha (hashPreimage fs) \<Longrightarrow> hashPreimage es = hashPreimage fs"
  shows "mset es = mset fs"
proof -
  have "flatEntries (sort_key rel es) = flatEntries (sort_key rel fs)"
    using assms(3,4) by (simp add: computePackHash_def hashPreimage_def flatEntries_def)
  then have "sort_key rel es = sort_key rel fs"
    using flatEntries_inj [of "sort_key rel es" "sort_key rel fs"] assms(1,2) by simp
  then show ?thesis by (metis mset_sort)
qed


definition sampleEntries :: "hashEntry list" where
  "sampleEntries = [\<lparr>rel = ''pack.yaml'', hashData = ''p''\<rparr>, \<lparr>rel = ''a.yaml'', hashData = ''q''\<rparr>]"

theorem pack_hash_covers_files_witness:
  "computePackHash (\<lambda>s. s) sampleEntries = computePackHash (\<lambda>s. s) (rev sampleEntries)
   \<and> mset sampleEntries = mset (rev sampleEntries)"
proof -
  have n: "\<forall>e \<in> set sampleEntries. nulFree (rel e) \<and> nulFree (hashData e)"
    "\<forall>e \<in> set (rev sampleEntries). nulFree (rel e) \<and> nulFree (hashData e)"
    by (simp_all add: sampleEntries_def nulFree_def)
  have h: "computePackHash (\<lambda>s. s) sampleEntries = computePackHash (\<lambda>s. s) (rev sampleEntries)"
    by code_simp
  from pack_hash_covers_files [OF n h] h show ?thesis by blast
qed

text \<open>C5: The hash input separates fields by NUL bytes only, so file contents that hold NUL
  bytes can move across a file boundary without changing the hash: for the same list of paths,
  two different sets of contents have the same pack hash under every hash function.\<close>

theorem pack_hash_nul_ambiguity:
  "\<exists>es fs. map rel es = map rel fs \<and> mset es \<noteq> mset fs
     \<and> (\<forall>sha. computePackHash sha es = computePackHash sha fs)"
proof -
  let ?es = "[\<lparr>rel = ''a'', hashData = ''x'' @ [CHR 0x00] @ ''b'' @ [CHR 0x00] @ ''y''\<rparr>,
    \<lparr>rel = ''b'', hashData = ''z''\<rparr>]"
  let ?fs = "[\<lparr>rel = ''a'', hashData = ''x''\<rparr>,
    \<lparr>rel = ''b'', hashData = ''y'' @ [CHR 0x00] @ ''b'' @ [CHR 0x00] @ ''z''\<rparr>]"
  have "hashPreimage ?es = hashPreimage ?fs" by code_simp
  moreover have "mset ?es \<noteq> mset ?fs"
  proof
    assume "mset ?es = mset ?fs"
    then have "set ?es = set ?fs" by (rule mset_eq_setD)
    then have "\<lparr>rel = ''b'', hashData = ''z''\<rparr> \<in> set ?fs" by (metis list.set_intros)
    then show False by simp
  qed
  moreover have "map rel ?es = map rel ?fs" by simp
  ultimately show ?thesis unfolding computePackHash_def by metis
qed

lemma map_of_removeKey: "map_of (removeKey k m) q = (if q = k then None else map_of m q)"
  by (induction m) (auto simp: removeKey_def)

lemma map_of_filter_key: "map_of (filter (\<lambda>kv. P (fst kv)) m) q = (if P q then map_of m q else None)"
  by (induction m) auto

lemma map_of_filter_val:
  "distinct (map fst m) \<Longrightarrow> map_of m k = Some v \<Longrightarrow> P v \<Longrightarrow>
   map_of (filter (\<lambda>kv. P (snd kv)) m) k = Some v"
  by (induction m) (auto split: if_splits)

lemma removePack_fields [simp]:
  "packs (removePack r pid) = removeKey pid (packs r)"
  "packHashes (removePack r pid) = removeKey pid (packHashes r)"
  "actions (removePack r pid) = filter (\<lambda>ia. PackID (snd ia) \<noteq> pid) (actions r)"
  by (simp_all add: removePack_def Let_def)

lemma removePack_other_action:
  assumes "distinct (map fst (actions r))" and "actionOf r aid = Some a" and "PackID a \<noteq> pid"
  shows "actionOf (removePack r pid) aid = Some a
    \<and> scriptInfo (removePack r pid) aid = scriptInfo r aid
    \<and> outputSchema (removePack r pid) aid = outputSchema r aid"
proof -
  have "aid \<notin> set (map fst (filter (\<lambda>ia. PackID (snd ia) = pid) (actions r)))"
    using assms by (auto simp: actionOf_def dest!: map_of_SomeD dest: eq_key_imp_eq_value)
  then show ?thesis
    using assms map_of_filter_val [OF assms(1), of aid a "\<lambda>x. PackID x \<noteq> pid"]
    by (simp add: removePack_def Let_def actionOf_def scriptInfo_def outputSchema_def
        map_of_filter_key [where P = "\<lambda>k. k \<notin> _"])
qed

text \<open>Removing a pack that failed to load leaves no trace of it and nothing else changed:
  no pack, hash or action of that id remains, and every action, script and schema of another
  pack is found as before.\<close>

lemma remove_pack_complete:
  "packOf (removePack r pid) pid = None \<and> packHash (removePack r pid) pid = None
   \<and> (\<forall>aid a. actionOf (removePack r pid) aid = Some a \<longrightarrow> PackID a \<noteq> pid)
   \<and> (\<forall>q. q \<noteq> pid \<longrightarrow> packOf (removePack r pid) q = packOf r q
        \<and> packHash (removePack r pid) q = packHash r q)
   \<and> (distinct (map fst (actions r)) \<longrightarrow> (\<forall>aid a. actionOf r aid = Some a \<and> PackID a \<noteq> pid \<longrightarrow>
        actionOf (removePack r pid) aid = Some a
        \<and> scriptInfo (removePack r pid) aid = scriptInfo r aid
        \<and> outputSchema (removePack r pid) aid = outputSchema r aid))"
proof -
  have "PackID a \<noteq> pid" if "actionOf (removePack r pid) aid = Some a" for aid a
    using map_of_SomeD that by (fastforce simp: actionOf_def)
  then show ?thesis
    using removePack_other_action [of r _ _ pid]
    by (simp add: packOf_def packHash_def map_of_removeKey)
qed

definition sampleRegistry :: "unit Registry" where
  "sampleRegistry = newRegistry\<lparr>packs := [(''fs'', \<lparr>packID = ''fs'', packName = ''Files'',
     packVersion = ''1.0.0'', packRootDir = ''/packs/fs''\<rparr>)], actions := [(''fs.head'', sampleAction)],
     packHashInputs := [(''fs'', sampleEntries)]\<rparr>"

end
