(* ===== verification/Executor.thy ===== *)
theory Executor
  imports Pack_Registry
begin

text \<open>
  Process execution (\<open>runner/internal/executor\<close>): execution plans, the environment a child
  receives, the bounded reading of its output, and how its end becomes a result.  What the
  operating system does with one process (\<open>ProcRun\<close>) is an argument: whether credentials
  could be dropped, whether the context had already ended, whether the process started, the
  bytes of its streams, how it ended and how long it took.
\<close>

subsection \<open>Plans and results\<close>

record Limits =
  limTimeout :: int
  limMaxStdoutBytes :: int
  limMaxStderrBytes :: int

record Plan =
  planBinary :: string
  planArgv :: "string list"
  planCWD :: string
  planEnv :: "(string \<times> string) list"
  planLimits :: Limits
  planScriptSHA256 :: string
  planUser :: string
  planCancelGrace :: int
  planStreaming :: bool

definition effectiveCWD :: "Action \<Rightarrow> string" where
  "effectiveCWD a = (if exCWD (actExecution a) = '''' then ''/'' else exCWD (actExecution a))"

text \<open>The plans are built for validated actions: an exec action has a command, a script action
  a script.  \<open>None\<close> is the nil dereference of any other action.\<close>

definition planForExec ::
  "Action \<Rightarrow> string list \<Rightarrow> (string \<times> string) list \<Rightarrow> Limits \<Rightarrow> Plan option" where
  "planForExec a renderedArgv env limits =
    (case exCommand (actExecution a) of
       None \<Rightarrow> None
     | Some c \<Rightarrow> Some \<lparr>planBinary = Binary c, planArgv = renderedArgv, planCWD = effectiveCWD a,
         planEnv = env, planLimits = limits, planScriptSHA256 = '''',
         planUser = exUser (actExecution a), planCancelGrace = 0, planStreaming = False\<rparr>)"

definition planForScript ::
  "Action \<Rightarrow> string \<Rightarrow> string \<Rightarrow> string list \<Rightarrow> (string \<times> string) list \<Rightarrow> Limits \<Rightarrow> Plan option" where
  "planForScript a path sha renderedArgv env limits =
    (case exScript (actExecution a) of
       None \<Rightarrow> None
     | Some s \<Rightarrow> Some \<lparr>planBinary = (if Interpreter s = '''' then ''/bin/sh'' else Interpreter s),
         planArgv = path # renderedArgv, planCWD = effectiveCWD a, planEnv = env,
         planLimits = limits, planScriptSHA256 = sha, planUser = exUser (actExecution a),
         planCancelGrace = 0, planStreaming = False\<rparr>)"

definition StatusOK :: string where "StatusOK = ''ok''"
definition StatusNonZero :: string where "StatusNonZero = ''nonzero''"
definition StatusTimeout :: string where "StatusTimeout = ''timeout''"
definition ExecCancelled :: string where "ExecCancelled = ''cancelled''"
definition ExecFailed :: string where "ExecFailed = ''failed''"

record ExecResult =
  xStatus :: string
  xBinary :: string
  xArgv :: "string list"
  xCWD :: string
  xEnvKeys :: "string list"
  xStdout :: string
  xStderr :: string
  xStdoutBytes :: nat
  xStderrBytes :: nat
  xExitCode :: int
  xDurationMS :: int
  xTimedOut :: bool
  xTruncatedStdout :: bool
  xTruncatedStderr :: bool
  xStartError :: string
  xScriptSHA256 :: string

subsection \<open>The child's environment\<close>

definition DefaultInheritEnv :: "string list" where
  "DefaultInheritEnv = [''PATH'', ''LANG'', ''LC_ALL'', ''TERM'']"

definition newExecutor :: "string list" where
  "newExecutor = DefaultInheritEnv"

fun allowInheritEnv :: "string list \<Rightarrow> string list \<Rightarrow> string list" where
  "allowInheritEnv inherit [] = inherit"
| "allowInheritEnv inherit (k # ks) =
    (if k = '''' \<or> k \<in> set inherit then allowInheritEnv inherit ks
     else allowInheritEnv (inherit @ [k]) ks)"

definition envEntry :: "string \<times> string \<Rightarrow> string" where
  "envEntry kv = fst kv @ ''='' @ snd kv"

definition buildEnv ::
  "string list \<Rightarrow> (string \<Rightarrow> string option) \<Rightarrow> (string \<times> string) list \<Rightarrow> string list" where
  "buildEnv inherit lookupEnv explicit =
    map envEntry (map (\<lambda>k. (k, the (map_of explicit k))) (sort (map fst explicit))
      @ List.map_filter (\<lambda>k. if k \<in> set (map fst explicit) then None
          else map_option (\<lambda>v. (k, v)) (lookupEnv k)) inherit)"

definition entryKey :: "string \<Rightarrow> string" where
  "entryKey kv = takeWhile (\<lambda>c. c \<noteq> CHR ''='') kv"

definition envKeys :: "string list \<Rightarrow> string list" where
  "envKeys env = map entryKey (filter (\<lambda>kv. CHR ''='' \<in> set kv) env)"

subsection \<open>Reading a stream\<close>

definition streamReaderBuf :: nat where "streamReaderBuf = 65536"

text \<open>What \<open>ReadSlice\<close> returns one call after the other: up to and including a newline, a full
  buffer, or the rest of the stream.\<close>

definition sliceLen :: "nat \<Rightarrow> string \<Rightarrow> nat" where
  "sliceLen buf s =
    (let l = length (takeWhile (\<lambda>c. c \<noteq> CHR 0x0A) s) in
     if l < length s \<and> l < buf then Suc l else min buf (length s))"

function readSlices :: "nat \<Rightarrow> string \<Rightarrow> string list" where
  "readSlices buf s =
    (if s = [] \<or> buf = 0 then []
     else take (sliceLen buf s) s # readSlices buf (drop (sliceLen buf s) s))"
  by pat_completeness auto
termination
  by (relation "measure (\<lambda>(b, s). length s)") (auto simp: sliceLen_def Let_def)

declare readSlices.simps [simp del]

record streamResult =
  captured :: string
  shipped :: "string list"
  totalBytes :: nat
  srTruncated :: bool

text \<open>One piece of the loop of \<open>streamPipe\<close>: counted always, kept only below the limit, and
  either captured or handed to the chunk callback.\<close>

definition takePiece :: "int \<Rightarrow> bool \<Rightarrow> streamResult \<times> nat \<Rightarrow> string \<Rightarrow> streamResult \<times> nat" where
  "takePiece limit streaming st piece =
    (case st of (r, written) \<Rightarrow>
       let r1 = r\<lparr>totalBytes := totalBytes r + length piece\<rparr> in
       if limit \<le> int written then (r1\<lparr>srTruncated := True\<rparr>, written)
       else ((if streaming then r1\<lparr>shipped := shipped r1 @ [piece]\<rparr>
              else r1\<lparr>captured := captured r1 @ piece\<rparr>), written + length piece))"

definition streamPipe :: "string \<Rightarrow> int \<Rightarrow> bool \<Rightarrow> streamResult" where
  "streamPipe s limit streaming =
    fst (foldl (takePiece limit streaming)
      (\<lparr>captured = '''', shipped = [], totalBytes = 0, srTruncated = False\<rparr>, 0)
      (readSlices streamReaderBuf s))"

subsection \<open>Execution\<close>

datatype ctxErr = DeadlineExceeded | Canceled

datatype waitErr = ExitedZero | ExitError int | WaitFailed string

record ProcRun =
  prCredentialErr :: "string option"
  prContextBefore :: "ctxErr option"
  prStartErr :: "string option"
  prStdout :: string
  prStderr :: string
  prStdoutErr :: "string option"
  prStderrErr :: "string option"
  prContextAfter :: "ctxErr option"
  prWait :: waitErr
  prElapsedMS :: int

datatype exec_error = EmptyBinary | BadTimeout | BadByteLimit | DropPrivileges string string

definition exitCodeOf :: "waitErr \<Rightarrow> int" where
  "exitCodeOf e = (case e of ExitError n \<Rightarrow> n | _ \<Rightarrow> - 1)"

definition baseResult ::
  "string list \<Rightarrow> (string \<Rightarrow> string option) \<Rightarrow> Plan \<Rightarrow> ExecResult" where
  "baseResult inherit lookupEnv p =
    \<lparr>xStatus = '''', xBinary = planBinary p, xArgv = planArgv p, xCWD = planCWD p,
     xEnvKeys = envKeys (buildEnv inherit lookupEnv (planEnv p)), xStdout = '''', xStderr = '''',
     xStdoutBytes = 0, xStderrBytes = 0, xExitCode = 0, xDurationMS = 0, xTimedOut = False,
     xTruncatedStdout = False, xTruncatedStderr = False, xStartError = '''',
     xScriptSHA256 = planScriptSHA256 p\<rparr>"

text \<open>How the process's end is classified once both streams are drained.\<close>

definition classifyEnd :: "ProcRun \<Rightarrow> ExecResult \<Rightarrow> ExecResult" where
  "classifyEnd pr r =
    (case (prStdoutErr pr, prStderrErr pr) of
       (Some e, _) \<Rightarrow> r\<lparr>xStatus := ExecFailed, xExitCode := - 1, xStartError := e\<rparr>
     | (None, Some e) \<Rightarrow> r\<lparr>xStatus := ExecFailed, xExitCode := - 1, xStartError := e\<rparr>
     | (None, None) \<Rightarrow>
         (case prContextAfter pr of
            Some DeadlineExceeded \<Rightarrow> r\<lparr>xStatus := StatusTimeout, xExitCode := exitCodeOf (prWait pr)\<rparr>
          | Some Canceled \<Rightarrow> r\<lparr>xStatus := ExecCancelled, xExitCode := exitCodeOf (prWait pr)\<rparr>
          | None \<Rightarrow>
              (case prWait pr of
                 ExitedZero \<Rightarrow> r\<lparr>xStatus := StatusOK, xExitCode := 0\<rparr>
               | ExitError n \<Rightarrow> r\<lparr>xStatus := StatusNonZero, xExitCode := n\<rparr>
               | WaitFailed e \<Rightarrow> r\<lparr>xStatus := ExecFailed, xExitCode := - 1, xStartError := e\<rparr>)))"

text \<open>\<open>Execute\<close>; the second component is what the chunk callback received, by stream.\<close>

definition execute ::
  "string list \<Rightarrow> (string \<Rightarrow> string option) \<Rightarrow> Plan \<Rightarrow> ProcRun \<Rightarrow>
     exec_error + ExecResult \<times> string list \<times> string list" where
  "execute inherit lookupEnv p pr =
    (if planBinary p = '''' then Inl EmptyBinary
     else if limTimeout (planLimits p) \<le> 0 then Inl BadTimeout
     else if limMaxStdoutBytes (planLimits p) \<le> 0 \<or> limMaxStderrBytes (planLimits p) \<le> 0
       then Inl BadByteLimit
     else case prCredentialErr pr of
       Some e \<Rightarrow> Inl (DropPrivileges (planUser p) e)
     | None \<Rightarrow>
         (let res = (baseResult inherit lookupEnv p)\<lparr>xDurationMS := prElapsedMS pr\<rparr> in
          case prContextBefore pr of
            Some c \<Rightarrow>
              Inr (res\<lparr>xExitCode := - 1, xTimedOut := (c = DeadlineExceeded),
                 xStatus := (if c = DeadlineExceeded then StatusTimeout else ExecCancelled)\<rparr>, [], [])
          | None \<Rightarrow>
              (case prStartErr pr of
                 Some e \<Rightarrow>
                   Inr (res\<lparr>xStatus := ExecFailed, xExitCode := - 1, xStartError := e\<rparr>, [], [])
               | None \<Rightarrow>
                   (let out = streamPipe (prStdout pr) (limMaxStdoutBytes (planLimits p)) (planStreaming p);
                        err = streamPipe (prStderr pr) (limMaxStderrBytes (planLimits p)) (planStreaming p)
                    in Inr (classifyEnd pr (res\<lparr>xStdout := captured out, xStderr := captured err,
                         xStdoutBytes := totalBytes out, xStderrBytes := totalBytes err,
                         xTruncatedStdout := srTruncated out, xTruncatedStderr := srTruncated err,
                         xTimedOut := (prContextAfter pr = Some DeadlineExceeded)\<rparr>),
                         shipped out, shipped err)))))"


subsection \<open>The output cap keeps whole pieces\<close>

lemma sliceLen_bounds: "s \<noteq> [] \<Longrightarrow> 0 < buf \<Longrightarrow> 0 < sliceLen buf s \<and> sliceLen buf s \<le> buf \<and> sliceLen buf s \<le> length s"
  by (auto simp: sliceLen_def Let_def)

lemma readSlices_concat: "0 < buf \<Longrightarrow> concat (readSlices buf s) = s"
proof (induction buf s rule: readSlices.induct)
  case (1 buf s)
  show ?case
  proof (cases "s = []")
    case True
    then show ?thesis by (simp add: readSlices.simps)
  next
    case False
    with 1 show ?thesis by (simp add: readSlices.simps [of buf s])
  qed
qed

lemma readSlices_pieces: "p \<in> set (readSlices buf s) \<Longrightarrow> p \<noteq> [] \<and> length p \<le> buf"
proof (induction buf s rule: readSlices.induct)
  case (1 buf s)
  show ?case
  proof (cases "s = [] \<or> buf = 0")
    case True
    with "1.prems" show ?thesis by (simp add: readSlices.simps [of buf s])
  next
    case False
    with "1.prems" have "p = take (sliceLen buf s) s \<or> p \<in> set (readSlices buf (drop (sliceLen buf s) s))"
      by (simp add: readSlices.simps [of buf s])
    then show ?thesis using "1.IH" [OF False] sliceLen_bounds [of s buf] False by auto
  qed
qed

definition kept :: "bool \<Rightarrow> streamResult \<Rightarrow> string" where
  "kept streaming r = (if streaming then concat (shipped r) else captured r)"

lemma takePiece_full_step:
  "limit \<le> int w \<Longrightarrow> takePiece limit b (r, w) p =
     (r\<lparr>totalBytes := totalBytes r + length p, srTruncated := True\<rparr>, w)"
  by (simp add: takePiece_def)

lemma takePiece_full:
  "limit \<le> int w \<Longrightarrow> foldl (takePiece limit b) (r, w) ps =
     (if ps = [] then r else r\<lparr>totalBytes := totalBytes r + length (concat ps), srTruncated := True\<rparr>, w)"
proof (induction ps arbitrary: r)
  case (Cons p ps)
  have "foldl (takePiece limit b) (r, w) (p # ps) = foldl (takePiece limit b)
      (r\<lparr>totalBytes := totalBytes r + length p, srTruncated := True\<rparr>, w) ps"
    using Cons.prems by (simp add: takePiece_full_step)
  also have "\<dots> = (if ps = [] then r\<lparr>totalBytes := totalBytes r + length p, srTruncated := True\<rparr>
      else r\<lparr>totalBytes := totalBytes r + length p, srTruncated := True\<rparr>
        \<lparr>totalBytes := totalBytes r + length p + length (concat ps), srTruncated := True\<rparr>, w)"
    by (subst Cons.IH [OF Cons.prems]) simp
  finally show ?case by (simp add: add.assoc)
qed simp

lemma takePiece_loop:
  assumes "w = length (kept b r)" and "\<not> srTruncated r"
  shows "\<exists>x y. ps = x @ y \<and>
    (case foldl (takePiece limit b) (r, w) ps of (r', w') \<Rightarrow>
       kept b r' = kept b r @ concat x \<and> totalBytes r' = totalBytes r + length (concat ps)
       \<and> (srTruncated r' \<longleftrightarrow> y \<noteq> []) \<and> (y \<noteq> [] \<longrightarrow> limit \<le> int (w + length (concat x)))
       \<and> (x \<noteq> [] \<longrightarrow> int (w + length (concat (butlast x))) < limit))"
  using assms
proof (induction ps arbitrary: r w)
  case Nil
  show ?case using Nil by (intro exI [of _ "[]"]) simp
next
  case (Cons p ps)
  show ?case
  proof (cases "limit \<le> int w")
    case True
    show ?thesis
      by (rule exI [of _ "[]"], rule exI [of _ "p # ps"])
        (use Cons.prems True in \<open>simp only: takePiece_full, simp add: kept_def\<close>)
  next
    case False
    obtain r1 where st: "takePiece limit b (r, w) p = (r1, w + length p)"
      and k: "kept b r1 = kept b r @ p" "\<not> srTruncated r1" "totalBytes r1 = totalBytes r + length p"
      using False Cons.prems(2) by (cases b) (auto simp: takePiece_def Let_def kept_def)
    have e: "w + length p = length (kept b r1)" using Cons.prems(1) k(1) by simp
    obtain r' w' where fl: "foldl (takePiece limit b) (r1, w + length p) ps = (r', w')" by fastforce
    from Cons.IH [OF e k(2)] obtain x y where "ps = x @ y"
      and "kept b r' = kept b r1 @ concat x" "totalBytes r' = totalBytes r1 + length (concat ps)"
      "srTruncated r' \<longleftrightarrow> y \<noteq> []" "y \<noteq> [] \<longrightarrow> limit \<le> int (w + length p + length (concat x))"
      "x \<noteq> [] \<longrightarrow> int (w + length p + length (concat (butlast x))) < limit"
      unfolding fl by blast
    with k False have f: "p # ps = (p # x) @ y \<and> kept b r' = kept b r @ concat (p # x)
      \<and> totalBytes r' = totalBytes r + length (concat (p # ps)) \<and> (srTruncated r' \<longleftrightarrow> y \<noteq> [])
      \<and> (y \<noteq> [] \<longrightarrow> limit \<le> int (w + length (concat (p # x))))
      \<and> (p # x \<noteq> [] \<longrightarrow> int (w + length (concat (butlast (p # x)))) < limit)"
      by (simp add: add.assoc)
    have "foldl (takePiece limit b) (r, w) (p # ps) = (r', w')" by (simp add: st fl)
    then show ?thesis unfolding \<open>foldl _ _ (p # ps) = _\<close> case_prod_conv using f by blast
  qed
qed


text \<open>Reading a stream counts every byte and keeps a prefix made of whole pieces: the kept
  prefix exceeds the limit by less than one read buffer, nothing is dropped unless the limit was
  reached, and truncation is reported exactly when something was dropped.\<close>

lemma stream_cap:
  assumes "0 < limit" and "r = streamPipe s limit streaming"
  shows "prefix (kept streaming r) s \<and> totalBytes r = length s
    \<and> int (length (kept streaming r)) < limit + int streamReaderBuf
    \<and> (srTruncated r \<longleftrightarrow> kept streaming r \<noteq> s)
    \<and> (srTruncated r \<longrightarrow> limit \<le> int (length (kept streaming r)))"
proof -
  let ?ps = "readSlices streamReaderBuf s"
  let ?r0 = "\<lparr>captured = '''', shipped = [], totalBytes = 0, srTruncated = False\<rparr>"
  have c: "concat ?ps = s" by (rule readSlices_concat) (simp add: streamReaderBuf_def)
  obtain r' w' where f: "foldl (takePiece limit streaming) (?r0, 0) ?ps = (r', w')" by fastforce
  then have r: "r = r'" using assms(2) by (simp add: streamPipe_def)
  have "kept streaming ?r0 = ''''" by (simp add: kept_def)
  with takePiece_loop [of 0 streaming ?r0 ?ps limit] f r
  have "\<exists>x y. ?ps = x @ y \<and> kept streaming r = concat x \<and> totalBytes r = length (concat ?ps)
    \<and> (srTruncated r \<longleftrightarrow> y \<noteq> []) \<and> (y \<noteq> [] \<longrightarrow> limit \<le> int (length (concat x)))
    \<and> (x \<noteq> [] \<longrightarrow> int (length (concat (butlast x))) < limit)" by simp
  then obtain x y where
    xy: "?ps = x @ y" "kept streaming r = concat x" "totalBytes r = length (concat ?ps)"
      "srTruncated r \<longleftrightarrow> y \<noteq> []" "y \<noteq> [] \<longrightarrow> limit \<le> int (length (concat x))"
      "x \<noteq> [] \<longrightarrow> int (length (concat (butlast x))) < limit"
    by blast
  have y: "concat y \<noteq> []" if "y \<noteq> []"
    using that readSlices_pieces [of "hd y" streamReaderBuf s] xy(1) by (cases y) auto
  have "int (length (concat x)) < limit + int streamReaderBuf"
  proof (cases x rule: rev_cases)
    case Nil
    with assms(1) show ?thesis by simp
  next
    case (snoc x' p)
    then have "length p \<le> streamReaderBuf" using readSlices_pieces [of p streamReaderBuf s] xy(1) by simp
    with snoc xy(6) show ?thesis by simp
  qed
  moreover have s: "s = concat x @ concat y" using c xy(1) by (metis concat_append)
  moreover have "srTruncated r \<longleftrightarrow> concat x \<noteq> s" using xy(4) y s by auto
  ultimately show ?thesis using xy c by auto
qed

subsection \<open>The child's environment\<close>

definition childValue :: "string list \<Rightarrow> string \<Rightarrow> string option" where
  "childValue env k = map_option (\<lambda>e. drop (Suc (length k)) e) (List.find (\<lambda>e. entryKey e = k) env)"

lemma entryKey_envEntry: "CHR ''='' \<notin> set k \<Longrightarrow> entryKey (envEntry (k, v)) = k"
  unfolding entryKey_def envEntry_def by (subst takeWhile_append2) auto

lemma find_envEntry:
  "(\<forall>kv \<in> set kvs. CHR ''='' \<notin> set (fst kv)) \<Longrightarrow>
   childValue (map envEntry kvs) k = map_of kvs k"
proof (induction kvs)
  case (Cons kv kvs)
  obtain k' v where kv: "kv = (k', v)" by force
  with Cons.prems have "entryKey (envEntry kv) = k'" by (simp add: entryKey_envEntry)
  with Cons kv show ?case by (auto simp: childValue_def envEntry_def)
qed (simp add: childValue_def)

lemma map_of_inherited:
  "map_of (List.map_filter (\<lambda>k. if k \<in> E then None else map_option (\<lambda>v. (k, v)) (lookupEnv k)) ks) q
   = (if q \<in> set ks \<and> q \<notin> E then lookupEnv q else None)"
  by (induction ks) (auto simp: List.map_filter_simps split: option.splits)

lemma map_of_sorted_explicit:
  "map_of (map (\<lambda>k. (k, the (map_of m k))) ks) q = (if q \<in> set ks then Some (the (map_of m q)) else None)"
  by (induction ks) auto

text \<open>A child sees exactly the variables the action sets, with the action's values, and
  otherwise only variables on the inherit list, with the runner's values; every other variable of
  the runner is withheld.\<close>

lemma child_environment:
  assumes "\<forall>kv \<in> set explicit. CHR ''='' \<notin> set (fst kv)" and "\<forall>k \<in> set inherit. CHR ''='' \<notin> set k"
  shows "childValue (buildEnv inherit lookupEnv explicit) k =
    (case map_of explicit k of Some v \<Rightarrow> Some v | None \<Rightarrow> if k \<in> set inherit then lookupEnv k else None)"
proof -
  let ?inh = "List.map_filter (\<lambda>k. if k \<in> set (map fst explicit) then None
      else map_option (\<lambda>v. (k, v)) (lookupEnv k)) inherit"
  have "fst kv \<in> set inherit" if "kv \<in> set ?inh" for kv
    using that by (auto simp: List.map_filter_def split: if_splits)
  then have "\<forall>kv \<in> set (map (\<lambda>k. (k, the (map_of explicit k))) (sort (map fst explicit)) @ ?inh).
      CHR ''='' \<notin> set (fst kv)" using assms by auto
  note e = find_envEntry [OF this]
  have "map_of explicit k = None" if "k \<notin> fst ` set explicit" using that by (simp add: map_of_eq_None_iff)
  moreover have "map_of explicit k \<noteq> None" if "k \<in> fst ` set explicit"
    using that by (simp add: map_of_eq_None_iff)
  ultimately show ?thesis
    unfolding buildEnv_def e map_of_append map_add_def map_of_inherited map_of_sorted_explicit
    by (cases "k \<in> fst ` set explicit") auto
qed

end
