(* ===== verification/Redact.thy ===== *)
theory Redact
  imports Executor Json_Fields
begin

text \<open>
  Output redaction (\<open>runner/internal/redact\<close>: \<open>redact.go\<close>, \<open>rules.go\<close>, \<open>json.go\<close>): rules,
  the single-pass masking of a set of literals, the ordered application of a rule set, and the
  structure-preserving redaction of a JSON document.  A compiled regular expression is its
  pattern; \<open>RegexLib\<close> supplies what Go's \<open>regexp\<close> finds (every match with its submatch
  bounds, in order) and how a replacement template expands.
\<close>

subsection \<open>Rules\<close>

type_synonym submatches = "(nat \<times> nat) list"

record RegexLib =
  reCompiles :: "string \<Rightarrow> bool"
  findAllSub :: "string \<Rightarrow> string \<Rightarrow> submatches list"
  expandString :: "string \<Rightarrow> string \<Rightarrow> string \<Rightarrow> submatches \<Rightarrow> string"

record Rule =
  rName :: string
  rReplacement :: string
  rRegex :: "string option"
  rLiteral :: string
  rLiterals :: "string list"
  builtinSecretAssignment :: bool
  builtinJSONSecretField :: bool

fun uniqueLiterals :: "string list \<Rightarrow> string list \<Rightarrow> string list" where
  "uniqueLiterals seen [] = []"
| "uniqueLiterals seen (l # ls) =
    (if l = '''' \<or> l \<in> set seen then uniqueLiterals seen ls
     else l # uniqueLiterals (l # seen) ls)"

definition longestFirst :: "string list \<Rightarrow> string list" where
  "longestFirst ls = sort_key (\<lambda>l. - int (length l)) ls"

definition orRedacted :: "string \<Rightarrow> string" where
  "orRedacted r = (if r = '''' then ''[REDACTED]'' else r)"

definition literalSet :: "string \<Rightarrow> string list \<Rightarrow> string \<Rightarrow> Rule" where
  "literalSet name ls repl =
    \<lparr>rName = name, rReplacement = orRedacted repl, rRegex = None, rLiteral = '''',
     rLiterals = longestFirst (uniqueLiterals [] ls), builtinSecretAssignment = False,
     builtinJSONSecretField = False\<rparr>"

text \<open>\<open>isBuiltinRule\<close> compares a rule with the shipped rule of that name; \<open>builtins\<close> is
  \<open>DefaultRules\<close>.\<close>

definition isBuiltinRule :: "RedactionRule list \<Rightarrow> RedactionRule \<Rightarrow> string \<Rightarrow> bool" where
  "isBuiltinRule builtins r name =
    (if ruleName r \<noteq> name \<or> ruleType r \<noteq> ''regex'' then False
     else case List.find (\<lambda>b. ruleName b = ruleName r) builtins of
       None \<Rightarrow> False
     | Some b \<Rightarrow> rulePattern r = rulePattern b \<and> ruleReplacement r = ruleReplacement b
                 \<and> ruleLiteral r = ruleLiteral b)"

datatype compile_error = CompileMissingName | CompileMissingPattern | CompileInvalidRegex
  | CompileMissingLiteral | CompileInvalidType

definition compileRule ::
  "RegexLib \<Rightarrow> RedactionRule list \<Rightarrow> RedactionRule \<Rightarrow> compile_error + Rule" where
  "compileRule re builtins r =
    (if ruleName r = '''' then Inl CompileMissingName
     else if ruleType r = ''regex'' then
       (if rulePattern r = '''' then Inl CompileMissingPattern
        else if \<not> reCompiles re (rulePattern r) then Inl CompileInvalidRegex
        else Inr \<lparr>rName = ruleName r, rReplacement = orRedacted (ruleReplacement r),
          rRegex = Some (rulePattern r), rLiteral = '''', rLiterals = [],
          builtinSecretAssignment = isBuiltinRule builtins r ''secret-assignment'',
          builtinJSONSecretField = isBuiltinRule builtins r ''json-secret-field''\<rparr>)
     else if ruleType r = ''literal'' then
       (if ruleLiteral r = '''' then Inl CompileMissingLiteral
        else Inr \<lparr>rName = ruleName r, rReplacement = orRedacted (ruleReplacement r),
          rRegex = None, rLiteral = ruleLiteral r, rLiterals = [],
          builtinSecretAssignment = False, builtinJSONSecretField = False\<rparr>)
     else Inl CompileInvalidType)"

fun compileFrom ::
  "RegexLib \<Rightarrow> RedactionRule list \<Rightarrow> string list \<Rightarrow> RedactionRule list \<Rightarrow> compile_error + Rule list" where
  "compileFrom re builtins seen [] = Inr []"
| "compileFrom re builtins seen (r # rs) =
    (if ruleName r \<in> set seen then compileFrom re builtins seen rs
     else rbind (compileRule re builtins r) (\<lambda>c.
       rbind (compileFrom re builtins (ruleName r # seen) rs) (\<lambda>cs. Inr (c # cs))))"

definition compileAll ::
  "RegexLib \<Rightarrow> RedactionRule list \<Rightarrow> RedactionRule list list \<Rightarrow> compile_error + Rule list" where
  "compileAll re builtins batches = compileFrom re builtins [] (concat batches)"

subsection \<open>Masking a set of literals\<close>

text \<open>The literal matched at the front of \<open>rest\<close>: the length it masks, 0 for none.\<close>

fun matchLiteral :: "string list \<Rightarrow> bool \<Rightarrow> string \<Rightarrow> nat" where
  "matchLiteral [] truncated rest = 0"
| "matchLiteral (l # ls) truncated rest =
    (if prefix l rest then length l
     else if truncated \<and> length rest < length l \<and> prefix rest l then length rest
     else matchLiteral ls truncated rest)"

text \<open>The loop of \<open>maskAll\<close>.  \<open>cover\<close> is how many more bytes are covered (the code's
  \<open>end - i\<close>); each byte yields the replacement, the byte itself, or nothing.\<close>

fun maskFrom :: "string list \<Rightarrow> string \<Rightarrow> bool \<Rightarrow> nat \<Rightarrow> string \<Rightarrow> string \<times> nat" where
  "maskFrom ls repl truncated cover [] = ('''', 0)"
| "maskFrom ls repl truncated cover (c # cs) =
    (let matched = matchLiteral ls truncated (c # cs);
         cover' = max cover matched;
         rest = maskFrom ls repl truncated (cover' - 1) cs in
     if 0 < matched \<and> cover = 0 then (repl @ fst rest, Suc (snd rest))
     else if cover' = 0 then (c # fst rest, snd rest)
     else rest)"

definition containsAny :: "string \<Rightarrow> string list \<Rightarrow> bool" where
  "containsAny s ls \<longleftrightarrow> list_ex (contains s) ls"

definition maskAll :: "string \<Rightarrow> string list \<Rightarrow> string \<Rightarrow> bool \<Rightarrow> string \<times> nat" where
  "maskAll s ls repl truncated =
    (if \<not> truncated \<and> \<not> containsAny s ls then (s, 0) else maskFrom ls repl truncated 0 s)"


subsection \<open>Applying rules\<close>

text \<open>The replacement loop shared by \<open>ReplaceAllString\<close> and the two built-in rules: matches in
  order, those to \<open>keep\<close> copied unchanged, the others expanded.\<close>

fun replaceMatches ::
  "(submatches \<Rightarrow> bool) \<Rightarrow> (submatches \<Rightarrow> string) \<Rightarrow> string \<Rightarrow> nat \<Rightarrow> submatches list \<Rightarrow> string \<times> nat" where
  "replaceMatches keep expand s end [] = (drop end s, 0)"
| "replaceMatches keep expand s end (m # ms) =
    (if keep m then replaceMatches keep expand s end ms
     else (let rest = replaceMatches keep expand s (snd (m ! 0)) ms in
       (drop end (take (fst (m ! 0)) s) @ expand m @ fst rest, Suc (snd rest))))"

definition slice :: "string \<Rightarrow> nat \<times> nat \<Rightarrow> string" where
  "slice s b = drop (fst b) (take (snd b) s)"

definition isBareSignedInteger :: "string \<Rightarrow> bool" where
  "isBareSignedInteger value =
    (let v = (if value \<noteq> '''' \<and> (hd value = CHR ''+'' \<or> hd value = CHR ''-'') then tl value else value)
     in value \<noteq> '''' \<and> v \<noteq> '''' \<and> list_all isDigit v)"

definition isRingTokenLabel :: "GoLib \<Rightarrow> string \<Rightarrow> bool" where
  "isRingTokenLabel lib pfx =
    (let name = takeWhile (\<lambda>c. c \<noteq> CHR '':'' \<and> c \<noteq> CHR ''='') pfx in
     length name < length pfx
     \<and> lowerString lib (trimSpace name) \<in> {''token'', ''start_token'', ''end_token''})"

definition jsonFieldKept :: "string \<Rightarrow> submatches \<Rightarrow> bool" where
  "jsonFieldKept s m =
    (takeWhile (\<lambda>c. c \<noteq> CHR 0x22) (drop 1 (slice s (m ! 1)))
       \<in> {''id_token_signing_alg_values_supported'', ''token_endpoint_auth_methods_supported''})"

definition applyJSONSecretFields :: "RegexLib \<Rightarrow> Rule \<Rightarrow> string \<Rightarrow> string \<Rightarrow> string \<times> nat" where
  "applyJSONSecretFields re r pat s =
    replaceMatches (jsonFieldKept s) (expandString re pat (rReplacement r) s) s 0 (findAllSub re pat s)"

definition assignmentKept :: "GoLib \<Rightarrow> string \<Rightarrow> bool \<Rightarrow> bool \<Rightarrow> submatches \<Rightarrow> bool" where
  "assignmentKept lib s truncated jsonDocument m =
    (let pfx = slice s (m ! 1); value = slice s (m ! 2) in
     isRingTokenLabel lib pfx \<and> \<not> (truncated \<and> snd (m ! 2) = length s)
     \<and> (isBareSignedInteger value
        \<or> (jsonDocument \<and> value \<noteq> '''' \<and> last value = CHR 0x22
           \<and> isBareSignedInteger (butlast value) \<and> decodeAll s \<noteq> None)))"

definition applySecretAssignments ::
  "GoLib \<Rightarrow> RegexLib \<Rightarrow> Rule \<Rightarrow> string \<Rightarrow> string \<Rightarrow> bool \<Rightarrow> bool \<Rightarrow> string \<times> nat" where
  "applySecretAssignments lib re r pat s truncated jsonDocument =
    replaceMatches (assignmentKept lib s truncated jsonDocument)
      (expandString re pat (rReplacement r) s) s 0 (findAllSub re pat s)"

text \<open>\<open>strings.ReplaceAll\<close> and \<open>strings.Count\<close> of a non-empty literal: from the left, without
  overlaps.\<close>

function replaceAll :: "string \<Rightarrow> string \<Rightarrow> string \<Rightarrow> string \<times> nat" where
  "replaceAll l repl s =
    (if l = [] then (s, 0)
     else case indexOf l s of
       None \<Rightarrow> (s, 0)
     | Some i \<Rightarrow> (let rest = replaceAll l repl (drop (i + length l) s) in
         (take i s @ repl @ fst rest, Suc (snd rest))))"
  by pat_completeness auto
termination
proof (relation "measure (\<lambda>(l, r, s). length s)", goal_cases)
  case (2 l repl s i)
  then have "i + length l \<le> length s" using indexOf_bound by blast
  with 2 show ?case by (cases l) auto
qed simp

declare replaceAll.simps [simp del]

definition applyContext ::
  "GoLib \<Rightarrow> RegexLib \<Rightarrow> Rule \<Rightarrow> string \<Rightarrow> bool \<Rightarrow> bool \<Rightarrow> string \<times> nat" where
  "applyContext lib re r s truncated jsonDocument =
    (case rRegex r of
       Some pat \<Rightarrow>
         if builtinSecretAssignment r then applySecretAssignments lib re r pat s truncated jsonDocument
         else if builtinJSONSecretField r then applyJSONSecretFields re r pat s
         else replaceMatches (\<lambda>m. False) (expandString re pat (rReplacement r) s) s 0
                (findAllSub re pat s)
     | None \<Rightarrow>
         if rLiteral r \<noteq> '''' then
           (if truncated then maskAll s [rLiteral r] (rReplacement r) True
            else replaceAll (rLiteral r) (rReplacement r) s)
         else if rLiterals r \<noteq> [] then maskAll s (rLiterals r) (rReplacement r) truncated
         else (s, 0))"

record Hit =
  hitName :: string
  hitType :: string
  hitCount :: nat

fun applyRules ::
  "GoLib \<Rightarrow> RegexLib \<Rightarrow> bool \<Rightarrow> bool \<Rightarrow> Rule list \<Rightarrow> string \<Rightarrow> string \<times> Hit list" where
  "applyRules lib re truncated jsonDocument [] s = (s, [])"
| "applyRules lib re truncated jsonDocument (r # rs) s =
    (case applyContext lib re r s truncated jsonDocument of (out, n) \<Rightarrow>
      (case applyRules lib re truncated jsonDocument rs out of (final, hits) \<Rightarrow>
        (final, (if 0 < n
           then [\<lparr>hitName = rName r, hitType = (if rRegex r = None then ''literal'' else ''regex''),
                  hitCount = n\<rparr>] else []) @ hits)))"

text \<open>An engine is its rule list; \<open>None\<close> is the nil engine.\<close>

type_synonym redactor = "Rule list option"

definition applyOutput ::
  "GoLib \<Rightarrow> RegexLib \<Rightarrow> redactor \<Rightarrow> string \<Rightarrow> bool \<Rightarrow> bool \<Rightarrow> string \<times> Hit list" where
  "applyOutput lib re eng s truncated jsonDocument =
    (case eng of None \<Rightarrow> (s, []) | Some rules \<Rightarrow> applyRules lib re truncated jsonDocument rules s)"

definition redactApply :: "GoLib \<Rightarrow> RegexLib \<Rightarrow> redactor \<Rightarrow> string \<Rightarrow> string \<times> Hit list" where
  "redactApply lib re eng s = applyOutput lib re eng s False False"

definition extendEngine :: "redactor \<Rightarrow> Rule list \<Rightarrow> redactor" where
  "extendEngine eng extra =
    (case eng of
       None \<Rightarrow> Some extra
     | Some rules \<Rightarrow> if rules = [] then Some extra else if extra = [] then eng else Some (extra @ rules))"

fun addHit :: "Hit list \<Rightarrow> Hit \<Rightarrow> Hit list" where
  "addHit [] h = [h]"
| "addHit (x # xs) h =
    (if hitName x = hitName h then x\<lparr>hitCount := hitCount x + hitCount h\<rparr> # xs else x # addHit xs h)"

definition mergeHits :: "Hit list list \<Rightarrow> Hit list" where
  "mergeHits batches = foldl addHit [] (concat batches)"

subsection \<open>JSON documents\<close>

text \<open>\<open>JsonLib\<close> is Go's JSON encoder: a value without HTML escaping, and the marshalled
  one-member object used to probe how the rules treat a key.\<close>

record JsonLib =
  encodeJSONValue :: "json \<Rightarrow> string option"
  marshalProbe :: "string \<Rightarrow> string option"

datatype redact_error = ErrInvalidJSON | ErrUnsafeJSONRedaction | ErrEncode

definition decodeOneJSON :: "string \<Rightarrow> json option" where
  "decodeOneJSON input =
    (if validate input \<lparr>MaxBytes = 0, MaxDepth = 0, MaxNodes = 0\<rparr> \<noteq> None then None
     else decodeAll input)"

fun stringMember :: "json option \<Rightarrow> string \<Rightarrow> string option" where
  "stringMember (Some (JObject kvs)) key =
    (if list_all (\<lambda>kv. case snd kv of JScalar (SString s) \<Rightarrow> True | JScalar SNull \<Rightarrow> True | _ \<Rightarrow> False) kvs
     then (case map_of (rev kvs) key of
             Some (JScalar (SString s)) \<Rightarrow> Some s
           | _ \<Rightarrow> None)
     else None)"
| "stringMember _ key = None"

definition jsonFieldReplacement ::
  "GoLib \<Rightarrow> RegexLib \<Rightarrow> JsonLib \<Rightarrow> redactor \<Rightarrow> string \<Rightarrow> (string \<times> Hit list) option" where
  "jsonFieldReplacement lib re jl eng key =
    (case marshalProbe jl key of
       None \<Rightarrow> None
     | Some probe \<Rightarrow>
         (case redactApply lib re eng probe of (redacted, hits) \<Rightarrow>
            if hits = [] then None
            else case stringMember (decodeAll redacted) key of
              Some replacement \<Rightarrow>
                if replacement \<noteq> '''' then Some (replacement, hits) else Some (''[REDACTED]'', hits)
            | None \<Rightarrow> Some (''[REDACTED]'', hits)))"

fun setMember :: "(string \<times> 'a) list \<Rightarrow> string \<Rightarrow> 'a \<Rightarrow> (string \<times> 'a) list" where
  "setMember [] k v = [(k, v)]"
| "setMember ((k', v') # kvs) k v = (if k' = k then (k, v) # kvs else (k', v') # setMember kvs k v)"

text \<open>The members of an object are visited in the order of the list, where Go's map iteration
  leaves the order open; it matters only when two keys redact to the same text.\<close>

fun redactJSONStrings ::
  "GoLib \<Rightarrow> RegexLib \<Rightarrow> JsonLib \<Rightarrow> redactor \<Rightarrow> json \<Rightarrow> json \<times> Hit list" where
  "redactJSONStrings lib re jl eng (JScalar (SString s)) =
    (case redactApply lib re eng s of (r, hits) \<Rightarrow> (JScalar (SString r), hits))"
| "redactJSONStrings lib re jl eng (JScalar c) = (JScalar c, [])"
| "redactJSONStrings lib re jl eng (JArray js) =
    (let rs = map (redactJSONStrings lib re jl eng) js in
     (JArray (map fst rs), foldl (\<lambda>hs h. mergeHits [hs, h]) [] (map snd rs)))"
| "redactJSONStrings lib re jl eng (JObject kvs) =
    (let rs = map (\<lambda>kv.
          (let key = fst kv; rk = redactApply lib re eng key in
           case jsonFieldReplacement lib re jl eng key of
             Some (replacement, fieldHits) \<Rightarrow> (fst rk, JScalar (SString replacement), snd rk, fieldHits)
           | None \<Rightarrow> (let ri = redactJSONStrings lib re jl eng (snd kv) in
               (fst rk, fst ri, snd rk, snd ri)))) kvs in
     (JObject (foldl (\<lambda>m (k, v, kh, ih). setMember m k v) [] rs),
      foldl (\<lambda>hs (k, v, kh, ih). mergeHits [hs, kh, ih]) [] rs))"

definition applyJSON ::
  "GoLib \<Rightarrow> RegexLib \<Rightarrow> JsonLib \<Rightarrow> redactor \<Rightarrow> string \<Rightarrow> string \<times> Hit list \<times> redact_error option" where
  "applyJSON lib re jl eng input =
    (case decodeOneJSON input of
       None \<Rightarrow> ('''', [], Some ErrInvalidJSON)
     | Some value \<Rightarrow>
         (case redactJSONStrings lib re jl eng value of (value', scalarHits) \<Rightarrow>
            (case encodeJSONValue jl value' of
               None \<Rightarrow> ('''', scalarHits, Some ErrEncode)
             | Some encoded \<Rightarrow>
                 (case applyOutput lib re eng encoded False True of (whole, wholeHits) \<Rightarrow>
                    let hits = mergeHits [scalarHits, wholeHits] in
                    if decodeAll whole = None then (''null'', hits, Some ErrUnsafeJSONRedaction)
                    else case decodeOneJSON whole of
                      None \<Rightarrow> (''null'', hits, Some ErrUnsafeJSONRedaction)
                    | Some canonical \<Rightarrow>
                        (case encodeJSONValue jl canonical of
                           None \<Rightarrow> ('''', hits, Some ErrEncode)
                         | Some out \<Rightarrow> (out, hits, None))))))"

subsection \<open>The masking pass is exact\<close>

text \<open>Which bytes a pass covers, and where a replacement is written.\<close>

definition coveredAt :: "string list \<Rightarrow> bool \<Rightarrow> nat \<Rightarrow> string \<Rightarrow> nat \<Rightarrow> bool" where
  "coveredAt ls tr cover s k \<longleftrightarrow> k < cover \<or> (\<exists>i \<le> k. k < i + matchLiteral ls tr (drop i s))"

definition coveredBefore :: "string list \<Rightarrow> bool \<Rightarrow> nat \<Rightarrow> string \<Rightarrow> nat \<Rightarrow> bool" where
  "coveredBefore ls tr cover s k \<longleftrightarrow> k < cover \<or> (\<exists>i < k. k < i + matchLiteral ls tr (drop i s))"

lemma coveredAt_Suc:
  "coveredAt ls tr cover (c # cs) (Suc k) =
   coveredAt ls tr (max cover (matchLiteral ls tr (c # cs)) - 1) cs k"
proof -
  have "(\<exists>i < Suc (Suc k). Suc k < i + matchLiteral ls tr (drop i (c # cs))) \<longleftrightarrow>
    Suc k < matchLiteral ls tr (c # cs) \<or> (\<exists>i < Suc k. k < i + matchLiteral ls tr (drop i cs))"
    by (subst Ex_less_Suc2) simp
  then show ?thesis unfolding coveredAt_def less_Suc_eq_le by auto
qed

lemma coveredBefore_Suc:
  "coveredBefore ls tr cover (c # cs) (Suc k) =
   coveredBefore ls tr (max cover (matchLiteral ls tr (c # cs)) - 1) cs k"
proof -
  have "(\<exists>i < Suc k. Suc k < i + matchLiteral ls tr (drop i (c # cs))) \<longleftrightarrow>
    Suc k < matchLiteral ls tr (c # cs) \<or> (\<exists>i < k. k < i + matchLiteral ls tr (drop i cs))"
    by (subst Ex_less_Suc2) simp
  then show ?thesis by (auto simp: coveredBefore_def)
qed

definition maskEmit :: "string list \<Rightarrow> string \<Rightarrow> bool \<Rightarrow> nat \<Rightarrow> string \<Rightarrow> nat \<Rightarrow> string" where
  "maskEmit ls repl tr cover s k =
    (if \<not> coveredAt ls tr cover s k then [s ! k]
     else if coveredBefore ls tr cover s k then '''' else repl)"

lemma maskEmit_Suc:
  "maskEmit ls repl tr cover (c # cs) (Suc k) =
   maskEmit ls repl tr (max cover (matchLiteral ls tr (c # cs)) - 1) cs k"
  by (simp add: maskEmit_def coveredAt_Suc coveredBefore_Suc)

lemma maskFrom_emit:
  "fst (maskFrom ls repl tr cover s) = concat (map (maskEmit ls repl tr cover s) [0..<length s])"
proof (induction s arbitrary: cover)
  case (Cons c cs)
  let ?m = "matchLiteral ls tr (c # cs)"
  have "concat (map (maskEmit ls repl tr cover (c # cs)) [0..<length (c # cs)])
      = maskEmit ls repl tr cover (c # cs) 0 @
        concat (map (maskEmit ls repl tr (max cover ?m - 1) cs) [0..<length cs])"
    by (simp add: upt_conv_Cons map_Suc_upt [symmetric] comp_def maskEmit_Suc del: upt_Suc)
  moreover have "maskEmit ls repl tr cover (c # cs) 0 =
      (if 0 < ?m \<and> cover = 0 then repl else if max cover ?m = 0 then [c] else '''')"
    by (auto simp: maskEmit_def coveredAt_def coveredBefore_def)
  ultimately show ?case by (simp add: Cons.IH [symmetric] Let_def)
qed simp


text \<open>The bytes that belong to an occurrence of a value, or to a value cut off at the end.\<close>

definition secretFrom :: "string list \<Rightarrow> bool \<Rightarrow> string \<Rightarrow> nat \<Rightarrow> nat \<Rightarrow> bool" where
  "secretFrom vs tr s i k \<longleftrightarrow> (\<exists>v \<in> set vs. v \<noteq> '''' \<and>
     ((prefix v (drop i s) \<and> k < i + length v)
      \<or> (tr \<and> length (drop i s) < length v \<and> prefix (drop i s) v \<and> k < length s)))"

definition secretAt :: "string list \<Rightarrow> bool \<Rightarrow> string \<Rightarrow> nat \<Rightarrow> bool" where
  "secretAt vs tr s k \<longleftrightarrow> (\<exists>i \<le> k. secretFrom vs tr s i k)"

definition secretBefore :: "string list \<Rightarrow> bool \<Rightarrow> string \<Rightarrow> nat \<Rightarrow> bool" where
  "secretBefore vs tr s k \<longleftrightarrow> (\<exists>i < k. secretFrom vs tr s i k)"

lemma set_uniqueLiterals: "set (uniqueLiterals seen ls) = {l \<in> set ls. l \<noteq> '''' \<and> l \<notin> set seen}"
  by (induction seen ls rule: uniqueLiterals.induct) auto

lemma set_literals: "set (rLiterals (literalSet n vs r)) = {v \<in> set vs. v \<noteq> ''''}"
  by (simp add: literalSet_def longestFirst_def set_uniqueLiterals)

lemma sorted_literals: "sorted_wrt (\<lambda>a b. length b \<le> length a) (rLiterals (literalSet n vs r))"
proof -
  have "sorted (map (\<lambda>l. - int (length l)) (longestFirst (uniqueLiterals [] vs)))"
    by (simp add: longestFirst_def)
  then show ?thesis by (simp add: literalSet_def sorted_map) 
qed

lemma matchLiteral_sound:
  "0 < matchLiteral ls tr rest \<Longrightarrow>
   \<exists>l \<in> set ls. (prefix l rest \<and> matchLiteral ls tr rest = length l)
     \<or> (tr \<and> length rest < length l \<and> prefix rest l \<and> matchLiteral ls tr rest = length rest)"
  by (induction ls tr rest rule: matchLiteral.induct) (auto split: if_splits)

lemma matchLiteral_full:
  "sorted_wrt (\<lambda>a b. length b \<le> length a) ls \<Longrightarrow> l \<in> set ls \<Longrightarrow> prefix l rest \<Longrightarrow>
   length l \<le> matchLiteral ls tr rest"
  by (induction ls tr rest rule: matchLiteral.induct) (auto dest: prefix_length_le split: if_splits)

lemma matchLiteral_cut:
  "sorted_wrt (\<lambda>a b. length b \<le> length a) ls \<Longrightarrow> l \<in> set ls \<Longrightarrow> length rest < length l \<Longrightarrow>
   prefix rest l \<Longrightarrow> matchLiteral ls True rest = length rest"
  by (induction ls "True" rest rule: matchLiteral.induct)
    (fastforce dest: prefix_length_le split: if_splits)+

lemma covered_secretFrom:
  assumes "k < length s" and "i \<le> k"
  shows "k < i + matchLiteral (rLiterals (literalSet n vs r)) tr (drop i s) \<longleftrightarrow> secretFrom vs tr s i k"
proof
  let ?ls = "rLiterals (literalSet n vs r)"
  let ?m = "matchLiteral ?ls tr (drop i s)"
  assume k: "k < i + ?m"
  with assms have "0 < ?m" by simp
  from matchLiteral_sound [OF this] k show "secretFrom vs tr s i k"
    using assms by (auto simp: secretFrom_def set_literals)
next
  let ?ls = "rLiterals (literalSet n vs r)"
  assume "secretFrom vs tr s i k"
  then obtain v where v: "v \<in> set ?ls"
    "prefix v (drop i s) \<and> k < i + length v \<or> tr \<and> length (drop i s) < length v \<and> prefix (drop i s) v"
    by (auto simp: secretFrom_def set_literals)
  then show "k < i + matchLiteral ?ls tr (drop i s)"
    using matchLiteral_full [OF sorted_literals v(1), of "drop i s" tr]
      matchLiteral_cut [OF sorted_literals v(1), of "drop i s"] assms by auto
qed

lemma indexOf_None: "indexOf sub s = None \<Longrightarrow> \<not> prefix sub (drop i s)"
  by (induction sub s arbitrary: i rule: indexOf.induct)
    (auto split: if_splits simp: drop_Cons')



lemma mask_exact:
  "fst (maskAll s (rLiterals (literalSet n vs r)) repl tr) =
   concat (map (\<lambda>k. if \<not> secretAt vs tr s k then [s ! k]
                     else if secretBefore vs tr s k then '''' else repl) [0..<length s])"
proof -
  let ?ls = "rLiterals (literalSet n vs r)"
  have a: "coveredAt ?ls tr 0 s k = secretAt vs tr s k" if "k < length s" for k
    using covered_secretFrom [OF that] by (auto simp: coveredAt_def secretAt_def)
  have b: "coveredBefore ?ls tr 0 s k = secretBefore vs tr s k" if "k < length s" for k
    using covered_secretFrom [OF that] less_imp_le by (fastforce simp: coveredBefore_def secretBefore_def)
  have e: "maskEmit ?ls repl tr 0 s k = (if \<not> secretAt vs tr s k then [s ! k]
      else if secretBefore vs tr s k then '''' else repl)" if "k < length s" for k
    by (simp add: maskEmit_def a [OF that] b [OF that])
  show ?thesis
  proof (cases "\<not> tr \<and> \<not> containsAny s ?ls")
    case True
    have "\<not> secretAt vs tr s k" for k
      using True indexOf_None [of _ s] set_literals [of n vs r]
      by (auto simp: secretAt_def secretFrom_def containsAny_def contains_def list_ex_iff)
    with True show ?thesis by (simp add: maskAll_def map_nth)
  next
    case False
    then have "fst (maskAll s ?ls repl tr) = concat (map (maskEmit ?ls repl tr 0 s) [0..<length s])"
      by (auto simp: maskAll_def maskFrom_emit)
    also have "\<dots> = concat (map (\<lambda>k. if \<not> secretAt vs tr s k then [s ! k]
        else if secretBefore vs tr s k then '''' else repl) [0..<length s])"
      by (rule arg_cong [where f = concat], rule map_cong [OF refl]) (simp add: e)
    finally show ?thesis .
  qed
qed

text \<open>C8: Masking a set of secret values in one pass is exact: a byte of the text survives if and
  only if it belongs to no occurrence of a value (nor, when the text was cut, to a value cut off
  at its end), and each cluster of overlapping occurrences is replaced by a single marker, even
  when a value is part of the marker itself.\<close>

theorem literal_mask_exact:
  "fst (maskAll s (rLiterals (literalSet n vs r)) repl tr) =
   concat (map (\<lambda>k. if \<not> secretAt vs tr s k then [s ! k]
                     else if secretBefore vs tr s k then '''' else repl) [0..<length s])"
  by (rule mask_exact)

end
