(* ===== verification/Engine.thy ===== *)
theory Engine
  imports Redact Wire
begin

text \<open>
  The action runtime (\<open>runner/internal/engine/engine.go\<close>), first half: requests and results,
  the clamping of per-call limits, the output cap applied after redaction, previews, shell
  quoting, the script integrity check and the classification of an outcome.  \<open>sha\<close> is
  hexadecimal SHA-256, \<open>readFile\<close> the disk.
\<close>

subsection \<open>Requests and results\<close>

definition StatusSuccess :: string where "StatusSuccess = ''success''"
definition StatusFailed :: string where "StatusFailed = ''failed''"
definition StatusError :: string where "StatusError = ''error''"
definition StatusValidationFailed :: string where "StatusValidationFailed = ''validation_failed''"
definition StatusUnknownAction :: string where "StatusUnknownAction = ''unknown_action''"
definition StatusTimedOut :: string where "StatusTimedOut = ''timed_out''"
definition StatusCancelled :: string where "StatusCancelled = ''cancelled''"
definition StatusBlockedByAdmission :: string where
  "StatusBlockedByAdmission = ''blocked_by_admission''"

lemmas statuses = StatusSuccess_def StatusFailed_def StatusError_def StatusValidationFailed_def
  StatusUnknownAction_def StatusTimedOut_def StatusCancelled_def StatusBlockedByAdmission_def

definition resultStatuses :: "string list" where
  "resultStatuses = [StatusSuccess, StatusFailed, StatusError, StatusValidationFailed,
     StatusUnknownAction, StatusTimedOut, StatusCancelled, StatusBlockedByAdmission]"

record Opts =
  optTimeout :: int
  optMaxStdoutBytes :: int
  optMaxStderrBytes :: int

definition zeroOpts :: Opts where
  "zeroOpts = \<lparr>optTimeout = 0, optMaxStdoutBytes = 0, optMaxStderrBytes = 0\<rparr>"

record 'v Request =
  ControlPlaneRequestID :: string
  reqActionID :: string
  reqArgs :: args
  reqReason :: string
  reqOpts :: Opts
  RegistrySnapshot :: "'v Registry option"
  reqStreaming :: bool

record EngineResult =
  engStatus :: string
  engEventID :: string
  engLocalAuditFailed :: bool
  engActionID :: string
  engExitCode :: int
  engStdout :: string
  engStderr :: string
  engOutput :: "json option"
  engStructuredOutput :: string
  engParserError :: string
  engDurationMS :: int
  engRedactions :: "Hit list"
  engReason :: string
  engError :: string
  engTimedOut :: bool
  engStdoutSHA256 :: string
  engStderrSHA256 :: string
  engStdoutBytes :: int
  engStderrBytes :: int
  engTruncatedOut :: bool
  engTruncatedErr :: bool
  engExecutedCommand :: string

definition zeroEngineResult :: EngineResult where
  "zeroEngineResult = \<lparr>engStatus = '''', engEventID = '''', engLocalAuditFailed = False,
     engActionID = '''', engExitCode = 0, engStdout = '''', engStderr = '''', engOutput = None,
     engStructuredOutput = '''', engParserError = '''', engDurationMS = 0, engRedactions = [],
     engReason = '''', engError = '''', engTimedOut = False, engStdoutSHA256 = '''',
     engStderrSHA256 = '''', engStdoutBytes = 0, engStderrBytes = 0, engTruncatedOut = False,
     engTruncatedErr = False, engExecutedCommand = ''''\<rparr>"

subsection \<open>Limits\<close>

definition clampInt :: "int \<Rightarrow> int \<Rightarrow> int \<Rightarrow> int" where
  "clampInt v lo hi = (if v < lo then lo else if hi < v then hi else v)"

definition clampDur :: "int \<Rightarrow> int \<Rightarrow> int \<Rightarrow> int" where
  "clampDur v lo hi = (if v < lo then lo else if hi < v then hi else v)"

definition fallbackInt :: "int \<Rightarrow> int \<Rightarrow> int" where
  "fallbackInt v fallback = (if v \<le> 0 then fallback else v)"

definition clampLimits :: "Action \<Rightarrow> Opts \<Rightarrow> Limits" where
  "clampLimits act opts =
    (let ex = actExecution act; out = actOutput act; t = exTimeout ex;
         so = outMaxStdoutBytes out; se = outMaxStderrBytes out;
         lo = (if TimeoutMin ex = 0 then t else TimeoutMin ex);
         hi = (if TimeoutMax ex = 0 then t else TimeoutMax ex) in
     \<lparr>limTimeout = (if 0 < optTimeout opts then clampDur (optTimeout opts) lo hi else t),
      limMaxStdoutBytes = (if 0 < optMaxStdoutBytes opts
        then clampInt (optMaxStdoutBytes opts) (fallbackInt (MaxStdoutBytesMin out) so)
               (fallbackInt (MaxStdoutBytesMax out) so) else so),
      limMaxStderrBytes = (if 0 < optMaxStderrBytes opts
        then clampInt (optMaxStderrBytes opts) (fallbackInt (MaxStderrBytesMin out) se)
               (fallbackInt (MaxStderrBytesMax out) se) else se)\<rparr>)"

subsection \<open>The output cap\<close>

record boundedOutput =
  boLimit :: int
  boBuf :: string
  boTruncated :: bool

definition newOutput :: "int \<Rightarrow> boundedOutput" where
  "newOutput limit = \<lparr>boLimit = limit, boBuf = '''', boTruncated = False\<rparr>"

fun runeFloor :: "string \<Rightarrow> nat \<Rightarrow> nat" where
  "runeFloor data 0 = 0"
| "runeFloor data (Suc n) = (if runeStart (data ! Suc n) then Suc n else runeFloor data n)"

definition takeOutput :: "boundedOutput \<Rightarrow> string \<Rightarrow> string \<times> boundedOutput" where
  "takeOutput b data =
    (if boTruncated b then ('''', b)
     else let room = boLimit b - int (length (boBuf b)) in
       if room \<le> 0 then ('''', b\<lparr>boTruncated := data \<noteq> ''''\<rparr>)
       else if room < int (length data)
         then (let d = take (runeFloor data (nat room)) data in
               (d, b\<lparr>boBuf := boBuf b @ d, boTruncated := True\<rparr>))
       else (data, b\<lparr>boBuf := boBuf b @ data\<rparr>))"

definition normalizeUTF8 :: "string \<Rightarrow> string" where
  "normalizeUTF8 s = (if validString s then s else toValidUTF8 s)"

definition truncatePreview :: "string \<Rightarrow> int \<Rightarrow> string" where
  "truncatePreview s mx =
    (if mx \<le> 0 \<or> int (length s) \<le> mx then s
     else take (runeFloor s (nat mx)) s @ [CHR 0x0A] @ ''...[truncated]'')"

subsection \<open>Shell quoting\<close>

definition bareRune :: "nat \<Rightarrow> bool" where
  "bareRune r \<longleftrightarrow> (97 \<le> r \<and> r \<le> 122) \<or> (65 \<le> r \<and> r \<le> 90) \<or> (48 \<le> r \<and> r \<le> 57)
     \<or> r \<in> {45, 95, 46, 47, 58, 61, 64, 44, 43}"

definition squote :: char where "squote = CHR 0x27"

text \<open>\<open>strings.ReplaceAll\<close> of a quote by quote, backslash, quote, quote.\<close>

definition escapeQuotes :: "string \<Rightarrow> string" where
  "escapeQuotes s = concat (map (\<lambda>c. if c = squote then [squote, CHR 0x5C, squote, squote] else [c]) s)"

definition shellQuote :: "string \<Rightarrow> string" where
  "shellQuote s =
    (if s = '''' then [squote, squote]
     else if list_all bareRune (runes s) then s
     else [squote] @ escapeQuotes s @ [squote])"

subsection \<open>Script integrity\<close>

datatype script_error = NoRecordedHash string | ReReadFailed string | ScriptChanged string string

definition verifyScriptSHA ::
  "(string \<Rightarrow> string) \<Rightarrow> (string \<Rightarrow> string option) \<Rightarrow> ScriptInfo \<Rightarrow> script_error option" where
  "verifyScriptSHA sha readFile si =
    (if siSHA256 si = '''' then Some (NoRecordedHash (siPath si))
     else case readFile (siPath si) of
       None \<Rightarrow> Some (ReReadFailed (siPath si))
     | Some data \<Rightarrow> check (sha data \<noteq> siSHA256 si) (ScriptChanged (siPath si) (sha data)))"

subsection \<open>Limits stay inside the action's envelope\<close>

text \<open>The action's declared ceiling and floor, where an unset bound means the default.\<close>

definition declared :: "int \<Rightarrow> int \<Rightarrow> int" where
  "declared def bound = (if bound = 0 then def else bound)"

lemma clampInt_between: "lo \<le> hi \<Longrightarrow> lo \<le> clampInt v lo hi \<and> clampInt v lo hi \<le> hi"
  by (simp add: clampInt_def)

lemma clampInt_inside: "lo \<le> v \<Longrightarrow> v \<le> hi \<Longrightarrow> clampInt v lo hi = v"
  by (simp add: clampInt_def)

lemma clampDur_clampInt: "clampDur = clampInt"
  by (rule ext)+ (simp add: clampDur_def clampInt_def)

lemma clamp_bytes:
  assumes "checkOutputBound f def lo hi = None" and "0 < def" and "0 < v"
  shows "0 < clampInt v (fallbackInt lo def) (fallbackInt hi def)"
    and "clampInt v (fallbackInt lo def) (fallbackInt hi def) \<le> declared def hi"
    and "max 1 (declared def lo) \<le> v \<Longrightarrow> v \<le> declared def hi \<Longrightarrow> lo \<ge> 0 \<Longrightarrow>
         clampInt v (fallbackInt lo def) (fallbackInt hi def) = v"
  using assms by (auto simp: checkOutputBound_def Let_def clampInt_def fallbackInt_def declared_def
      split: if_splits)

lemma clamp_timeout:
  assumes "validateTimeoutBounds a = None" and "0 < exTimeout (actExecution a)" and "0 < v"
  defines "lo \<equiv> declared (exTimeout (actExecution a)) (TimeoutMin (actExecution a))"
    and "hi \<equiv> declared (exTimeout (actExecution a)) (TimeoutMax (actExecution a))"
  shows "0 < clampDur v lo hi" "clampDur v lo hi \<le> hi"
    and "lo \<le> v \<Longrightarrow> v \<le> hi \<Longrightarrow> clampDur v lo hi = v"
  using assms by (auto simp: validateTimeoutBounds_def Let_def clampDur_def declared_def
      split: if_splits)

lemma outputBounds_split:
  assumes "validateOutputBounds a = None"
  shows "checkOutputBound ''max_stdout_bytes'' (outMaxStdoutBytes (actOutput a))
      (MaxStdoutBytesMin (actOutput a)) (MaxStdoutBytesMax (actOutput a)) = None"
    and "checkOutputBound ''max_stderr_bytes'' (outMaxStderrBytes (actOutput a))
      (MaxStderrBytesMin (actOutput a)) (MaxStderrBytesMax (actOutput a)) = None"
  using assms by (auto simp: validateOutputBounds_def Let_def split: option.splits)

lemma clampLimits_timeout:
  "limTimeout (clampLimits act opts) =
    (if 0 < optTimeout opts
     then clampDur (optTimeout opts)
       (declared (exTimeout (actExecution act)) (TimeoutMin (actExecution act)))
       (declared (exTimeout (actExecution act)) (TimeoutMax (actExecution act)))
     else exTimeout (actExecution act))"
  by (simp add: clampLimits_def Let_def declared_def)

lemma default_inside:
  "validateTimeoutBounds a = None \<Longrightarrow>
   declared (exTimeout (actExecution a)) (TimeoutMin (actExecution a)) \<le> exTimeout (actExecution a) \<and>
   exTimeout (actExecution a) \<le> declared (exTimeout (actExecution a)) (TimeoutMax (actExecution a))"
  "checkOutputBound f def lo hi = None \<Longrightarrow> declared def lo \<le> def \<and> def \<le> declared def hi"
  by (auto simp: validateTimeoutBounds_def checkOutputBound_def Let_def declared_def split: if_splits)

text \<open>C17: Whatever limits a dispatch asks for, a loaded action runs with a positive timeout and
  positive output limits that never exceed its declared ceilings (its defaults, where no ceiling
  is declared), so the executor never refuses the plan for its limits; an override that is absent
  or not positive leaves the default, and a timeout inside the envelope is honoured exactly.\<close>

theorem limits_within_envelope:
  assumes "validateAction lib act = None"
  shows "0 < limTimeout (clampLimits act opts)
    \<and> limTimeout (clampLimits act opts)
        \<le> declared (exTimeout (actExecution act)) (TimeoutMax (actExecution act))
    \<and> 0 < limMaxStdoutBytes (clampLimits act opts)
    \<and> limMaxStdoutBytes (clampLimits act opts)
        \<le> declared (outMaxStdoutBytes (actOutput act)) (MaxStdoutBytesMax (actOutput act))
    \<and> 0 < limMaxStderrBytes (clampLimits act opts)
    \<and> limMaxStderrBytes (clampLimits act opts)
        \<le> declared (outMaxStderrBytes (actOutput act)) (MaxStderrBytesMax (actOutput act))
    \<and> clampLimits act zeroOpts = \<lparr>limTimeout = exTimeout (actExecution act),
        limMaxStdoutBytes = outMaxStdoutBytes (actOutput act),
        limMaxStderrBytes = outMaxStderrBytes (actOutput act)\<rparr>
    \<and> (0 < optTimeout opts \<longrightarrow>
        declared (exTimeout (actExecution act)) (TimeoutMin (actExecution act)) \<le> optTimeout opts \<longrightarrow>
        optTimeout opts \<le> declared (exTimeout (actExecution act)) (TimeoutMax (actExecution act)) \<longrightarrow>
        limTimeout (clampLimits act opts) = optTimeout opts)"
proof -
  note v = validateAction_checks [OF assms]
  note t = clamp_timeout [OF v(2) v(1)]
  note so = clamp_bytes [OF outputBounds_split(1) [OF v(6)] v(4)]
  note se = clamp_bytes [OF outputBounds_split(2) [OF v(6)] v(5)]
  note d = default_inside(1) [OF v(2)] default_inside(2) [OF outputBounds_split(1) [OF v(6)]]
    default_inside(2) [OF outputBounds_split(2) [OF v(6)]]
  show ?thesis
    using t so se d v(1,4,5)
    by (simp add: clampLimits_timeout) (simp add: clampLimits_def zeroOpts_def Let_def)
qed

theorem limits_within_envelope_witness:
  "validateAction sampleLib sampleAction = None
    \<and> 0 < limTimeout (clampLimits sampleAction \<lparr>optTimeout = 900, optMaxStdoutBytes = 9000, optMaxStderrBytes = 1\<rparr>)
    \<and> clampLimits sampleAction \<lparr>optTimeout = 900, optMaxStdoutBytes = 9000, optMaxStderrBytes = 1\<rparr>
      = \<lparr>limTimeout = 60, limMaxStdoutBytes = 4000, limMaxStderrBytes = 1000\<rparr>"
proof -
  let ?o = "\<lparr>optTimeout = 900, optMaxStdoutBytes = 9000, optMaxStderrBytes = 1\<rparr>"
  have "clampLimits sampleAction ?o = \<lparr>limTimeout = 60, limMaxStdoutBytes = 4000, limMaxStderrBytes = 1000\<rparr>"
    by (simp add: clampLimits_def sampleAction_def Let_def clampDur_def clampInt_def fallbackInt_def)
  with limits_within_envelope [OF sampleAction_loads, of ?o] sampleAction_loads show ?thesis by blast
qed



subsection \<open>The output cap keeps whole runes and loses nothing silently\<close>

lemma validString_app: "validString a \<Longrightarrow> validString b \<Longrightarrow> validString (a @ b)"
  using goodSegments_valid [of "segments a @ segments b"] valid_goodSegments [of a] valid_goodSegments [of b]
  by (auto simp: goodSegments_def)

lemma validString_Nil [simp]: "validString []"
  by (simp add: validString_def)

lemma runeFloor_le: "runeFloor s n \<le> n"
  by (induction n) auto

lemma runeFloor_start: "runeFloor s n = 0 \<or> runeStart (s ! runeFloor s n)"
  by (induction n) auto

lemma runeFloor_max: "e \<le> n \<Longrightarrow> runeStart (s ! e) \<Longrightarrow> e \<le> runeFloor s n"
  by (induction n) (auto simp: le_Suc_eq)

lemma runeFloor_near: "validString s \<Longrightarrow> n < length s \<Longrightarrow> n \<le> runeFloor s n + 3"
proof -
  assume s: "validString s" "n < length s"
  from rune_start_near [OF valid_goodSegments [OF s(1)], of n] s(2)
  obtain e where "e \<le> n" "n \<le> e + 3" "runeStart (s ! e)" by auto
  with runeFloor_max [of e n s] show ?thesis by linarith
qed

lemma runeFloor_valid: "validString s \<Longrightarrow> n < length s \<Longrightarrow> validString (take (runeFloor s n) s)"
  using valid_cut [of s "runeFloor s n"] runeFloor_start [of s n] runeFloor_le [of s n] by force

text \<open>The chunks of a stream through one buffer, with what each call hands on.\<close>

fun takeChunks :: "boundedOutput \<Rightarrow> string list \<Rightarrow> string list \<times> boundedOutput" where
  "takeChunks b [] = ([], b)"
| "takeChunks b (d # ds) =
    (case takeOutput b d of (out, b') \<Rightarrow> (case takeChunks b' ds of (outs, b'') \<Rightarrow> (out # outs, b'')))"

definition capInv :: "boundedOutput \<Rightarrow> string \<Rightarrow> bool" where
  "capInv b fed \<longleftrightarrow> prefix (boBuf b) fed \<and> int (length (boBuf b)) \<le> max 0 (boLimit b)
     \<and> (boTruncated b \<longleftrightarrow> boBuf b \<noteq> fed)
     \<and> (boTruncated b \<longrightarrow> boLimit b \<le> int (length (boBuf b)) + 3)"

lemma takeOutput_buf:
  "takeOutput b d = (out, b') \<Longrightarrow> boBuf b' = boBuf b @ out \<and> boLimit b' = boLimit b
     \<and> (validString d \<longrightarrow> validString out)"
  using runeFloor_valid [of d "nat (boLimit b - int (length (boBuf b)))"]
  by (auto simp: takeOutput_def Let_def split: if_splits)

lemma takeOutput_inv:
  assumes "takeOutput b d = (out, b')" and "capInv b fed" and "validString d"
  shows "capInv b' (fed @ d)"
proof -
  let ?room = "boLimit b - int (length (boBuf b))"
  consider (full) "boTruncated b" | (noroom) "\<not> boTruncated b" "?room \<le> 0"
    | (cut) "\<not> boTruncated b" "0 < ?room" "?room < int (length d)"
    | (fits) "\<not> boTruncated b" "0 < ?room" "int (length d) \<le> ?room" by linarith
  then show ?thesis
  proof cases
    case full
    with assms(1,2) have b: "b' = b" "prefix (boBuf b) fed" "boBuf b \<noteq> fed" by (auto simp: takeOutput_def capInv_def)
    then have "boBuf b \<noteq> fed @ d" "prefix (boBuf b) (fed @ d)" by (auto simp: prefix_def)
    then show ?thesis using assms(2) b full by (auto simp: capInv_def)
  next
    case noroom
    then show ?thesis using assms by (auto simp: capInv_def takeOutput_def)
  next
    case cut
    let ?n = "nat ?room"
    have n: "?n < length d" using cut by simp
    have "runeFloor d ?n < length d" using runeFloor_le [of d ?n] n by linarith
    moreover have "?n \<le> runeFloor d ?n + 3" using runeFloor_near [OF assms(3) n] .
    ultimately show ?thesis using assms(1,2) cut runeFloor_le [of d ?n]
      by (auto simp: capInv_def takeOutput_def Let_def take_is_prefix min_def)
  next
    case fits
    then show ?thesis using assms by (auto simp: capInv_def takeOutput_def)
  qed
qed

lemma takeChunks_inv:
  "takeChunks b ds = (outs, b') \<Longrightarrow> capInv b fed \<Longrightarrow> \<forall>d \<in> set ds. validString d \<Longrightarrow>
   capInv b' (fed @ concat ds) \<and> boBuf b' = boBuf b @ concat outs \<and> boLimit b' = boLimit b
   \<and> (\<forall>x \<in> set outs. validString x)"
proof (induction ds arbitrary: b fed outs)
  case (Cons d ds)
  obtain out b1 where t: "takeOutput b d = (out, b1)" by force
  obtain outs1 where r: "takeChunks b1 ds = (outs1, b')" and o: "outs = out # outs1"
    using Cons.prems(1) t by (auto split: prod.splits)
  have "capInv b1 (fed @ d)" using takeOutput_inv [OF t Cons.prems(2)] Cons.prems(3) by simp
  from Cons.IH [OF r this] Cons.prems(3) takeOutput_buf [OF t] o show ?case by simp
qed simp

text \<open>C18: However a stream is cut into (valid UTF-8) chunks, what the runner hands on is exactly what
  it keeps: a prefix of the stream of at most the limit, made of whole runes, within three bytes
  of the limit when anything was dropped, and marked truncated exactly when something was.\<close>

theorem output_cap:
  assumes "\<forall>d \<in> set ds. validString d"
  shows "\<exists>outs b. takeChunks (newOutput limit) ds = (outs, b) \<and> concat outs = boBuf b
    \<and> prefix (boBuf b) (concat ds) \<and> int (length (boBuf b)) \<le> max 0 limit
    \<and> (\<forall>x \<in> set outs. validString x)
    \<and> (boTruncated b \<longleftrightarrow> boBuf b \<noteq> concat ds)
    \<and> (boTruncated b \<longrightarrow> limit \<le> int (length (boBuf b)) + 3)"
proof -
  obtain outs b where t: "takeChunks (newOutput limit) ds = (outs, b)" by force
  have "capInv (newOutput limit) []" by (simp add: capInv_def newOutput_def)
  from takeChunks_inv [OF t this assms] have "capInv b (concat ds)" "boBuf b = concat outs"
    "boLimit b = limit" "\<forall>x \<in> set outs. validString x" by (simp_all add: newOutput_def)
  with t show ?thesis by (auto simp: capInv_def)
qed

theorem output_cap_witness:
  "\<exists>outs b. takeChunks (newOutput 4) [''ab'', [CHR ''c'', CHR 0xC3, CHR 0xA9]] = (outs, b)
     \<and> outs = [''ab'', ''c''] \<and> boTruncated b \<and> concat outs = boBuf b"
proof -
  have v: "\<forall>d \<in> set [''ab'', [CHR ''c'', CHR 0xC3, CHR 0xA9]]. validString d" by code_simp
  have e: "takeChunks (newOutput 4) [''ab'', [CHR ''c'', CHR 0xC3, CHR 0xA9]]
      = ([''ab'', ''c''], \<lparr>boLimit = 4, boBuf = ''abc'', boTruncated = True\<rparr>)" by code_simp
  from output_cap [OF v, of 4] show ?thesis unfolding e by simp
qed

subsection \<open>Shell quoting reads back\<close>

text \<open>How a POSIX shell reads one word: bare characters and backslash escapes outside quotes,
  everything literal between single quotes.  \<open>None\<close> when a quote is left open or when a
  character that is special to a shell stands bare.\<close>

definition shellBare :: "char \<Rightarrow> bool" where
  "shellBare c \<longleftrightarrow> bareRune (byte c)"

fun shellWord :: "bool \<Rightarrow> string \<Rightarrow> string option" where
  "shellWord quoted [] = (if quoted then None else Some [])"
| "shellWord True (c # cs) =
    (if c = squote then shellWord False cs else map_option (Cons c) (shellWord True cs))"
| "shellWord False (c # cs) =
    (if c = squote then shellWord True cs
     else if c = CHR 0x5C then
       (case cs of [] \<Rightarrow> None | d # ds \<Rightarrow> map_option (Cons d) (shellWord False ds))
     else if shellBare c then map_option (Cons c) (shellWord False cs) else None)"

lemma shellWord_quoted: "shellWord True (escapeQuotes s @ [squote]) = Some s"
  by (induction s) (auto simp: escapeQuotes_def squote_def)

lemma bare_segment:
  assumes "x \<in> set (segments s)" and "bareRune (fst x)"
  shows "\<exists>c. snd x = [c] \<and> shellBare c"
proof -
  have r: "fst x < 128" "fst x \<noteq> runeError" using assms(2) by (auto simp: bareRune_def runeError_def)
  then have nb: "\<not> badSegment x" by (simp add: badSegment_def)
  from segment_self [OF assms(1) nb] have d: "decodeRune (snd x) = (fst x, length (snd x))" "snd x \<noteq> []" by auto
  from ascii_rune_bytes [OF d r(1)] obtain c where c: "snd x = [c]" by (auto simp: length_Suc_conv)
  have "byte c = fst x" using d(1) r unfolding c decodeRune.simps Let_def by (auto split: if_splits)
  with assms(2) c show ?thesis by (simp add: shellBare_def)
qed

lemma bare_chars: "list_all bareRune (runes s) \<Longrightarrow> list_all shellBare s"
proof -
  assume a: "list_all bareRune (runes s)"
  have "list_all shellBare (concat (map snd (segments s)))"
    using a bare_segment [of _ s] by (fastforce simp: list_all_iff runes_def simp del: concat_segments)
  then show ?thesis by simp
qed

lemma shellWord_bare: "list_all shellBare s \<Longrightarrow> shellWord False s = Some s"
proof (induction s)
  case (Cons c s)
  have "c \<noteq> squote \<and> c \<noteq> CHR 0x5C"
    using Cons.prems by (auto simp: shellBare_def bareRune_def byte_def squote_def)
  with Cons show ?case by simp
qed simp

text \<open>C19: The recorded command line reads back: a shell reading a quoted argument sees one word, with
  exactly the bytes of the argument, whatever bytes it contains.\<close>

theorem shell_quote_roundtrip: "shellWord False (shellQuote s) = Some s"
  using shellWord_bare [OF bare_chars] shellWord_quoted [of s]
  by (auto simp: shellQuote_def)

end
