(* ===== verification/Templates.thy ===== *)
theory Templates
  imports Action_Spec "HOL-Library.List_Lexorder" "HOL-Library.Char_ord"
begin

text \<open>
  The argument templates of actions (\<open>runner/internal/expressions/eval.go\<close>): substitution of
  validated arguments into argument vectors and environment values, with optional expressions
  that drop their element and arrays that expand into several elements.
\<close>

subsection \<open>Values as text\<close>

datatype render_error =
    UnknownVariable string | InvalidReference string | CannotFormat | Unterminated nat
  | InTemplate string render_error | InArgv string render_error | InEnv string render_error

fun formatScalar :: "GoLib \<Rightarrow> any \<Rightarrow> render_error + string" where
  "formatScalar lib GoNil = Inr ''''"
| "formatScalar lib (GoString s) = Inr s"
| "formatScalar lib (GoBool b) = Inr (if b then ''true'' else ''false'')"
| "formatScalar lib (GoInt n) = Inr (formatInt n)"
| "formatScalar lib (GoInt64 n) = Inr (formatInt n)"
| "formatScalar lib (GoFloat64 f) = Inr (formatFloat lib f)"
| "formatScalar lib (GoNumber n) = Inr n"
| "formatScalar lib (GoDuration d) = Inr (durationString lib d)"
| "formatScalar lib _ = Inl CannotFormat"

text \<open>\<open>expandArray\<close>: the elements when the value is an array, \<open>Inr None\<close> when it is not.\<close>

fun expandArray :: "GoLib \<Rightarrow> any \<Rightarrow> render_error + string list option" where
  "expandArray lib (GoStrings ss) = Inr (Some ss)"
| "expandArray lib (GoAnys vs) = rbind (mapRes (formatScalar lib) vs) (\<lambda>ss. Inr (Some ss))"
| "expandArray lib (GoInt64s ns) = Inr (Some (map formatInt ns))"
| "expandArray lib _ = Inr None"

definition argStrings :: "GoLib \<Rightarrow> any \<Rightarrow> string list" where
  "argStrings lib v =
    (case expandArray lib v of
       Inr (Some elems) \<Rightarrow> elems
     | _ \<Rightarrow> (case formatScalar lib v of Inr s \<Rightarrow> [s] | Inl e \<Rightarrow> []))"

fun isEmpty :: "any \<Rightarrow> bool" where
  "isEmpty GoNil = True"
| "isEmpty (GoString s) = (s = '''')"
| "isEmpty (GoStrings ss) = (ss = [])"
| "isEmpty (GoAnys vs) = (vs = [])"
| "isEmpty (GoInt64s ns) = (ns = [])"
| "isEmpty _ = False"

subsection \<open>Resolving an expression\<close>

definition identRune :: "bool \<Rightarrow> nat \<Rightarrow> bool" where
  "identRune first c \<longleftrightarrow> (97 \<le> c \<and> c \<le> 122) \<or> (65 \<le> c \<and> c \<le> 90) \<or> c = 95
     \<or> (48 \<le> c \<and> c \<le> 57 \<and> \<not> first)"

definition validIdent :: "string \<Rightarrow> bool" where
  "validIdent s \<longleftrightarrow> s \<noteq> '''' \<and>
     (case runes s of [] \<Rightarrow> True | r # rs \<Rightarrow> identRune True r \<and> list_all (identRune False) rs)"

definition splitOptional :: "string \<Rightarrow> string \<times> bool" where
  "splitOptional expr =
    (let s = trimSpace expr in
     if suffix ''?'' s then (trimSpace (butlast s), True) else (expr, False))"

definition resolve :: "string \<Rightarrow> args \<Rightarrow> bool \<Rightarrow> render_error + any \<times> bool" where
  "resolve expr args allowMissingOptional =
    (case splitOptional expr of (body, optional) \<Rightarrow>
      if \<not> prefix ''args.'' body then Inl (UnknownVariable body)
      else let name = drop 5 body in
        if name = '''' \<or> \<not> validIdent name then Inl (InvalidReference body)
        else case map_of args name of
          Some v \<Rightarrow> Inr (v, optional)
        | None \<Rightarrow> if optional \<and> allowMissingOptional then Inr (GoNil, True)
                  else Inl (UnknownVariable body))"

definition wholeExpression :: "string \<Rightarrow> string option" where
  "wholeExpression s =
    (let t = trimSpace s in
     if \<not> prefix ''{{'' t \<or> \<not> suffix ''}}'' t then None
     else let body = trimSpace (drop 2 (take (length t - 2) t)) in
       if contains body ''{{'' \<or> contains body ''}}'' then None else Some body)"

subsection \<open>Rendering\<close>

text \<open>The loop of \<open>renderTemplate\<close> over the rest of the template from offset \<open>i\<close>: the text,
  and whether an optional expression was empty.\<close>

function renderFrom ::
  "GoLib \<Rightarrow> args \<Rightarrow> bool \<Rightarrow> nat \<Rightarrow> string \<Rightarrow> render_error + string \<times> bool" where
  "renderFrom lib args opt i rest =
    (case indexOf ''{{'' rest of
       None \<Rightarrow> Inr (rest, False)
     | Some j \<Rightarrow>
         (let inner = drop (j + 2) rest in
          case indexOf ''}}'' inner of
            None \<Rightarrow> Inl (Unterminated (i + j))
          | Some e \<Rightarrow>
              (let expr = trimSpace (take e inner) in
               case resolve expr args opt of
                 Inl err \<Rightarrow> Inl (InTemplate expr err)
               | Inr (v, optional) \<Rightarrow>
                   (case (if optional \<and> isEmpty v then Inr ('''', True)
                          else rbind (formatScalar lib v) (\<lambda>s. Inr (s, False))) of
                      Inl err \<Rightarrow> Inl (InTemplate expr err)
                    | Inr (s, dropped) \<Rightarrow>
                        rbind (renderFrom lib args opt (i + j + 2 + e + 2) (drop (e + 2) inner))
                          (\<lambda>(text, dropEmpty). Inr (take j rest @ s @ text, dropped \<or> dropEmpty))))))"
  by pat_completeness auto
termination
proof (relation "measure (\<lambda>(lib, args, opt, i, rest). length rest)", goal_cases)
  case (2 lib args opt i rest j inner e)
  then show ?case using indexOf_bound [of "''{{''" rest j] by simp
qed simp

declare renderFrom.simps [simp del]

definition renderTemplate :: "GoLib \<Rightarrow> string \<Rightarrow> args \<Rightarrow> bool \<Rightarrow> render_error + string \<times> bool" where
  "renderTemplate lib tmpl args opt = renderFrom lib args opt 0 tmpl"

definition render :: "GoLib \<Rightarrow> string \<Rightarrow> args \<Rightarrow> render_error + string" where
  "render lib tmpl args = rbind (renderTemplate lib tmpl args True) (\<lambda>(s, d). Inr s)"

text \<open>What one element of the argument vector contributes.\<close>

definition renderElement :: "GoLib \<Rightarrow> args \<Rightarrow> bool \<Rightarrow> string \<Rightarrow> render_error + string list" where
  "renderElement lib args opt raw =
    (case wholeExpression raw of
       Some expr \<Rightarrow>
         (case resolve expr args opt of
            Inl err \<Rightarrow> Inl (InArgv raw err)
          | Inr (v, optional) \<Rightarrow>
              if optional \<and> isEmpty v then Inr []
              else (case expandArray lib v of
                      Inl err \<Rightarrow> Inl (InArgv raw err)
                    | Inr (Some expanded) \<Rightarrow> Inr expanded
                    | Inr None \<Rightarrow> (case formatScalar lib v of
                                    Inl err \<Rightarrow> Inl (InArgv raw err)
                                  | Inr s \<Rightarrow> Inr [s])))
     | None \<Rightarrow> rbind (renderTemplate lib raw args opt) (\<lambda>(s, dropEmpty).
         Inr (if dropEmpty then [] else [s])))"

definition renderArgv :: "GoLib \<Rightarrow> string list \<Rightarrow> args \<Rightarrow> bool \<Rightarrow> render_error + string list" where
  "renderArgv lib argv args opt =
    rbind (mapRes (renderElement lib args opt) argv) (\<lambda>parts. Inr (concat parts))"

definition sortedKeys :: "(string \<times> 'a) list \<Rightarrow> (string \<times> 'a) list" where
  "sortedKeys env = sort_key fst env"

definition validateReferences ::
  "GoLib \<Rightarrow> string list \<Rightarrow> (string \<times> string) list \<Rightarrow> args \<Rightarrow> render_error option" where
  "validateReferences lib argv env args =
    (case renderArgv lib argv args False of
       Inl err \<Rightarrow> Some err
     | Inr out \<Rightarrow>
         (case mapRes (\<lambda>kv. case renderTemplate lib (snd kv) args False of
                 Inl err \<Rightarrow> Inl (InEnv (fst kv) err) | Inr r \<Rightarrow> Inr r) (sortedKeys env) of
            Inl err \<Rightarrow> Some err
          | Inr rs \<Rightarrow> None))"

text \<open>Go iterates the environment in an arbitrary order, which only decides the error that is
  reported first.\<close>

definition renderEnv ::
  "GoLib \<Rightarrow> (string \<times> string) list \<Rightarrow> args \<Rightarrow> render_error + (string \<times> string) list" where
  "renderEnv lib env args =
    mapRes (\<lambda>kv. case render lib (snd kv) args of
      Inl err \<Rightarrow> Inl (InEnv (fst kv) err) | Inr v \<Rightarrow> Inr (fst kv, v)) env"

subsection \<open>Representative values\<close>

definition representative :: "ArgType \<Rightarrow> any option" where
  "representative t =
    (if t = ArgString \<or> t = ArgPath then Some (GoString ''value'')
     else if t = ArgInteger then Some (GoInt64 1)
     else if t = ArgNumber then Some (GoNumber ''1'')
     else if t = ArgBoolean then Some (GoBool True)
     else if t = ArgDuration then Some (GoDuration 1000000000)
     else if t = ArgStringArray then Some (GoStrings [''value''])
     else if t = ArgIntegerArray then Some (GoInt64s [1])
     else None)"

definition representativeArgs :: "Arg list \<Rightarrow> args" where
  "representativeArgs schema =
    rev (List.map_filter (\<lambda>a. map_option (Pair (argName a)) (representative (argType a))) schema)"

text \<open>The dynamic type that coercion gives an argument of each declared type.\<close>

fun conforms :: "ArgType \<Rightarrow> any \<Rightarrow> bool" where
  "conforms t (GoString s) = (t = ArgString \<or> t = ArgPath)"
| "conforms t (GoInt64 n) = (t = ArgInteger)"
| "conforms t (GoNumber n) = (t = ArgNumber)"
| "conforms t (GoFloat64 f) = (t = ArgNumber)"
| "conforms t (GoBool b) = (t = ArgBoolean)"
| "conforms t (GoDuration d) = (t = ArgDuration)"
| "conforms t (GoStrings ss) = (t = ArgStringArray)"
| "conforms t (GoInt64s ns) = (t = ArgIntegerArray)"
| "conforms t _ = False"

subsection \<open>A checked template can only miss an absent argument\<close>

definition formats :: "GoLib \<Rightarrow> any \<Rightarrow> bool" where
  "formats lib v \<longleftrightarrow> (case formatScalar lib v of Inl e \<Rightarrow> False | Inr s \<Rightarrow> True)"

definition isArray :: "GoLib \<Rightarrow> any \<Rightarrow> bool" where
  "isArray lib v \<longleftrightarrow> (case expandArray lib v of Inr (Some ss) \<Rightarrow> True | _ \<Rightarrow> False)"

definition sameShape :: "GoLib \<Rightarrow> any \<Rightarrow> any \<Rightarrow> bool" where
  "sameShape lib v w \<longleftrightarrow> (formats lib v \<longrightarrow> formats lib w) \<and> isArray lib v = isArray lib w
     \<and> (case expandArray lib w of Inl e \<Rightarrow> False | Inr r \<Rightarrow> True)"

definition represents :: "GoLib \<Rightarrow> args \<Rightarrow> args \<Rightarrow> bool" where
  "represents lib rep args \<longleftrightarrow>
     (\<forall>n v. map_of rep n = Some v \<longrightarrow> \<not> isEmpty v \<and>
        (case map_of args n of None \<Rightarrow> True | Some w \<Rightarrow> sameShape lib v w))"

fun rootCause :: "render_error \<Rightarrow> render_error" where
  "rootCause (InTemplate x e) = rootCause e"
| "rootCause (InArgv x e) = rootCause e"
| "rootCause (InEnv x e) = rootCause e"
| "rootCause e = e"

definition absentIn :: "args \<Rightarrow> args \<Rightarrow> render_error \<Rightarrow> bool" where
  "absentIn rep args e \<longleftrightarrow> (\<exists>n. rootCause e = UnknownVariable (''args.'' @ n) \<and>
     map_of rep n \<noteq> None \<and> map_of args n = None)"

lemma absentIn_wrap [simp]:
  "absentIn rep args (InTemplate x e) = absentIn rep args e"
  "absentIn rep args (InArgv x e) = absentIn rep args e"
  "absentIn rep args (InEnv x e) = absentIn rep args e"
  by (simp_all add: absentIn_def)

lemma resolve_actual:
  assumes "represents lib rep args" and "resolve expr rep False = Inr (v, optional)"
  shows "\<not> isEmpty v" and "(\<exists>e. resolve expr args True = Inl e \<and> absentIn rep args e)
    \<or> (\<exists>w. resolve expr args True = Inr (w, optional) \<and> (sameShape lib v w \<or> optional \<and> isEmpty w))"
proof -
  obtain body opt' where s: "splitOptional expr = (body, opt')" by force
  let ?n = "drop 5 body"
  have p: "prefix ''args.'' body" "?n \<noteq> ''''" "validIdent ?n" and v: "map_of rep ?n = Some v" and o: "optional = opt'"
    using assms(2) s by (auto simp: resolve_def Let_def split: if_splits option.splits)
  have b: "body = ''args.'' @ ?n" using p(1) by (auto simp: prefix_def)
  show "\<not> isEmpty v" using assms(1) v by (auto simp: represents_def)
  show "(\<exists>e. resolve expr args True = Inl e \<and> absentIn rep args e)
    \<or> (\<exists>w. resolve expr args True = Inr (w, optional) \<and> (sameShape lib v w \<or> optional \<and> isEmpty w))"
  proof (cases "map_of args ?n")
    case None
    have "absentIn rep args (UnknownVariable body)" 
      using b v None by (auto simp: absentIn_def)
    with s p None o show ?thesis by (cases optional) (simp_all add: resolve_def Let_def)
  next
    case (Some w)
    then have "sameShape lib v w" using assms(1) v by (fastforce simp: represents_def)
    with s p Some o show ?thesis by (simp add: resolve_def Let_def)
  qed
qed

lemma renderFrom_actual:
  assumes "represents lib rep args"
  shows "renderFrom lib rep False i rest = Inr r \<Longrightarrow> renderFrom lib args True i rest = Inl e \<Longrightarrow>
    absentIn rep args e"
proof (induction "length rest" arbitrary: i rest r rule: less_induct)
  case less
  show ?case
  proof (cases "indexOf ''{{'' rest")
    case None
    then show ?thesis using less.prems(2) by (simp add: renderFrom.simps [of lib args True])
  next
    case (Some j)
    let ?inner = "drop (j + 2) rest"
    show ?thesis
    proof (cases "indexOf ''}}'' ?inner")
      case None
      with Some less.prems(1) show ?thesis by (simp add: renderFrom.simps [of lib rep False])
    next
      case (Some k)
      let ?x = "trimSpace (take k ?inner)"
      let ?rest = "drop (k + 2) ?inner" and ?i = "i + j + 2 + k + 2"
      note eqs = \<open>indexOf ''{{'' rest = Some j\<close> Some
      have small: "length ?rest < length rest" using indexOf_bound [OF eqs(1)] by simp
      obtain v o' where v: "resolve ?x rep False = Inr (v, o')"
        using less.prems(1) eqs by (auto simp: renderFrom.simps [of lib rep False] Let_def split: sum.splits prod.splits)
      note act = resolve_actual [OF assms v]
      obtain s r' where s: "formatScalar lib v = Inr s" "renderFrom lib rep False ?i ?rest = Inr r'"
        using less.prems(1) eqs v act(1)
        by (auto simp: renderFrom.simps [of lib rep False i rest] Let_def result_simps split: sum.splits prod.splits)
      from act(2) show ?thesis
      proof (elim disjE exE conjE)
        fix e' assume "resolve ?x args True = Inl e'" "absentIn rep args e'"
        with less.prems(2) eqs show ?thesis by (auto simp: renderFrom.simps [of lib args True i rest] Let_def)
      next
        fix w assume w: "resolve ?x args True = Inr (w, o')" "sameShape lib v w"
        with s(1) obtain t where "formatScalar lib w = Inr t"
          by (auto simp: sameShape_def formats_def split: sum.splits)
        with less.prems(2) eqs w(1) have "renderFrom lib args True ?i ?rest = Inl e"
          by (auto simp: renderFrom.simps [of lib args True i rest] Let_def result_simps split: if_splits)
        with less.hyps [OF small s(2)] show ?thesis by blast
      next
        fix w assume w: "resolve ?x args True = Inr (w, o')" "o'" "isEmpty w"
        with less.prems(2) eqs have "renderFrom lib args True ?i ?rest = Inl e"
          by (auto simp: renderFrom.simps [of lib args True i rest] Let_def result_simps)
        with less.hyps [OF small s(2)] show ?thesis by blast
      qed
    qed
  qed
qed

lemma renderElement_actual:
  assumes "represents lib rep args" and "renderElement lib rep False raw = Inr r"
    and "renderElement lib args True raw = Inl e"
  shows "absentIn rep args e"
proof (cases "wholeExpression raw")
  case None
  with assms(2,3) renderFrom_actual [OF assms(1)] show ?thesis
    by (auto simp: renderElement_def renderTemplate_def result_simps)
next
  case (Some x)
  obtain v o' where v: "resolve x rep False = Inr (v, o')"
    using assms(2) Some by (auto simp: renderElement_def split: sum.splits)
  note act = resolve_actual [OF assms(1) v]
  have f: "isArray lib v \<or> formats lib v"
    using assms(2) Some v act(1) by (auto simp: renderElement_def isArray_def formats_def split: sum.splits option.splits)
  from act(2) show ?thesis
  proof (elim disjE exE conjE)
    fix e' assume "resolve x args True = Inl e'" "absentIn rep args e'"
    with assms(3) Some show ?thesis by (auto simp: renderElement_def)
  next
    fix w assume "resolve x args True = Inr (w, o')" "sameShape lib v w"
    with assms(3) Some f show ?thesis
      by (auto simp: renderElement_def sameShape_def isArray_def formats_def split: sum.splits option.splits if_splits)
  next
    fix w assume "resolve x args True = Inr (w, o')" "o'" "isEmpty w"
    with assms(3) Some show ?thesis by (auto simp: renderElement_def)
  qed
qed

lemma mapRes_actual:
  assumes "\<And>x r e. x \<in> set xs \<Longrightarrow> f x = Inr r \<Longrightarrow> g x = Inl e \<Longrightarrow> P e"
  shows "mapRes f xs = Inr ys \<Longrightarrow> mapRes g xs = Inl e \<Longrightarrow> P e"
  using assms by (induction xs arbitrary: ys) (auto simp: result_simps)

lemma representative_shape:
  assumes "representative t = Some v" and "conforms t w"
  shows "\<not> isEmpty v \<and> sameShape lib v w"
proof -
  have "\<not> isEmpty v" using assms(1) by (auto simp: representative_def split: if_splits)
  moreover have "sameShape lib v w"
    using assms by (cases w) (auto simp: representative_def argTypes sameShape_def formats_def isArray_def)
  ultimately show ?thesis by blast
qed

lemma representativeArgs_from:
  "map_of (representativeArgs schema) n = Some v \<Longrightarrow>
   \<exists>a \<in> set schema. argName a = n \<and> representative (argType a) = Some v"
proof -
  assume "map_of (representativeArgs schema) n = Some v"
  then have "(n, v) \<in> set (representativeArgs schema)" by (rule map_of_SomeD)
  then show ?thesis by (auto simp: representativeArgs_def List.map_filter_def split: if_splits)
qed

lemma representatives_represent:
  assumes "distinct (map argName schema)"
    and "\<And>n w. map_of args n = Some w \<Longrightarrow> \<exists>a \<in> set schema. argName a = n \<and> conforms (argType a) w"
  shows "represents lib (representativeArgs schema) args"
  unfolding represents_def
proof (intro allI impI)
  fix n v assume "map_of (representativeArgs schema) n = Some v"
  then obtain a where a: "a \<in> set schema" "argName a = n" "representative (argType a) = Some v"
    using representativeArgs_from by blast
  have "conforms (argType a) w" if "map_of args n = Some w" for w
    using assms(2) [OF that] a assms(1) by (auto simp: distinct_map inj_on_def)
  moreover have "\<not> isEmpty v" using a(3) by (auto simp: representative_def split: if_splits)
  ultimately show "\<not> isEmpty v \<and> (case map_of args n of None \<Rightarrow> True | Some w \<Rightarrow> sameShape lib v w)"
    using representative_shape [OF a(3)] by (auto split: option.splits)
qed

lemma checked_templates:
  assumes "validateReferences lib argv env (representativeArgs schema) = None"
    and "represents lib (representativeArgs schema) args"
  shows "renderArgv lib argv args True = Inl e \<Longrightarrow> absentIn (representativeArgs schema) args e"
    and "renderEnv lib env args = Inl e \<Longrightarrow> absentIn (representativeArgs schema) args e"
proof -
  let ?rep = "representativeArgs schema"
  obtain parts where a: "mapRes (renderElement lib ?rep False) argv = Inr parts"
    using assms(1) by (auto simp: validateReferences_def renderArgv_def result_simps split: sum.splits)
  show "absentIn ?rep args e" if "renderArgv lib argv args True = Inl e"
    using mapRes_actual [of argv _ _ "absentIn ?rep args", OF renderElement_actual [OF assms(2)] a] that
    by (auto simp: renderArgv_def result_simps)
  let ?check = "\<lambda>kv. case renderTemplate lib (snd kv) ?rep False of
      Inl err \<Rightarrow> Inl (InEnv (fst kv) err) | Inr r \<Rightarrow> Inr r"
  obtain rs where r: "mapRes ?check (sortedKeys env) = Inr rs"
    using assms(1) by (auto simp: validateReferences_def split: sum.splits)
  have ok: "\<exists>r. renderTemplate lib (snd kv) ?rep False = Inr r" if "kv \<in> set env" for kv
  proof -
    have "kv \<in> set (sortedKeys env)" using that by (simp add: sortedKeys_def)
    from mapRes_all [OF r this] show ?thesis by (cases "renderTemplate lib (snd kv) ?rep False") auto
  qed
  show "absentIn ?rep args e" if env: "renderEnv lib env args = Inl e"
  proof -
    have "mapRes (\<lambda>kv. Inr kv :: unit + string \<times> string) env = Inr env" by (induction env) simp_all
    then show ?thesis
    proof (rule mapRes_actual [where P = "absentIn ?rep args", rotated])
      show "mapRes (\<lambda>kv. case render lib (snd kv) args of
          Inl err \<Rightarrow> Inl (InEnv (fst kv) err) | Inr v \<Rightarrow> Inr (fst kv, v)) env = Inl e"
        using env by (simp add: renderEnv_def)
      fix kv r e' assume kv: "kv \<in> set env" and "(case render lib (snd kv) args of
          Inl err \<Rightarrow> Inl (InEnv (fst kv) err) | Inr v \<Rightarrow> Inr (fst kv, v)) = Inl e'"
      then obtain err where "e' = InEnv (fst kv) err" "renderTemplate lib (snd kv) args True = Inl err"
        by (auto simp: render_def result_simps split: sum.splits)
      with ok [OF kv] renderFrom_actual [OF assms(2)] show "absentIn ?rep args e'"
        by (auto simp: renderTemplate_def)
    qed
  qed
qed


definition sampleSchema :: "Arg list" where
  "sampleSchema = [\<lparr>argName = ''n'', argType = ArgInteger, Required = False, Sensitive = False,
     Default = GoNil, argDescription = '''', argValidation = None\<rparr>]"


end
