(* ===== verification/Arg_Validation.thy ===== *)
theory Arg_Validation
  imports Templates
begin

text \<open>
  Validation of a dispatch's arguments against the declared schema
  (\<open>runner/internal/validation/args.go\<close>): coercion, byte and element limits, scalar rules,
  containment of paths under the declared allow and deny rules, and the refusal of paths inside
  the runner's own state.  \<open>FS\<close> is the host's file system as \<open>Lstat\<close>, \<open>EvalSymlinks\<close> and
  \<open>Getwd\<close> show it.  The reason of an error is its format string with its operands, without the
  operating system's own text for a path that could not be inspected.
\<close>

subsection \<open>Errors\<close>

datatype reason = Reason string "any list" | Element nat reason

record ArgError =
  errArg :: string
  errCode :: string
  errReason :: reason

definition newError :: "string \<Rightarrow> string \<Rightarrow> string \<Rightarrow> any list \<Rightarrow> ArgError" where
  "newError arg code format operands = \<lparr>errArg = arg, errCode = code, errReason = Reason format operands\<rparr>"

definition wrapElementError :: "ArgError \<Rightarrow> nat \<Rightarrow> ArgError" where
  "wrapElementError e i = e\<lparr>errReason := Element i (errReason e)\<rparr>"

definition defaultMaxStringBytes :: int where "defaultMaxStringBytes = 32768"
definition maxNumberLiteralBytes :: nat where "maxNumberLiteralBytes = 64"
definition defaultMaxItems :: int where "defaultMaxItems = 256"

subsection \<open>Conversions\<close>

fun toString :: "any \<Rightarrow> string option" where
  "toString (GoString s) = Some s"
| "toString _ = None"

definition finiteFloat :: "float64 \<Rightarrow> float64 option" where
  "finiteFloat f = (if isNaN f \<or> isInf f then None else Some f)"

fun toInt :: "GoLib \<Rightarrow> any \<Rightarrow> int option" where
  "toInt lib (GoInt n) = Some n"
| "toInt lib (GoInt32 n) = Some n"
| "toInt lib (GoInt64 n) = Some n"
| "toInt lib (GoUint n) = (if n \<le> maxInt64 then Some n else None)"
| "toInt lib (GoUint32 n) = Some n"
| "toInt lib (GoUint64 n) = (if n \<le> maxInt64 then Some n else None)"
| "toInt lib (GoFloat64 f) = (if feq (floatOfInt lib (intOfFloat lib f)) f then Some (intOfFloat lib f) else None)"
| "toInt lib (GoFloat32 f) = (if feq (floatOfInt lib (intOfFloat lib f)) f then Some (intOfFloat lib f) else None)"
| "toInt lib (GoString s) = parseInt s"
| "toInt lib (GoNumber s) = parseInt s"
| "toInt lib _ = None"

fun toFloat :: "GoLib \<Rightarrow> any \<Rightarrow> float64 option" where
  "toFloat lib (GoInt n) = Some (floatOfInt lib n)"
| "toFloat lib (GoInt32 n) = Some (floatOfInt lib n)"
| "toFloat lib (GoInt64 n) = Some (floatOfInt lib n)"
| "toFloat lib (GoFloat32 f) = finiteFloat f"
| "toFloat lib (GoFloat64 f) = finiteFloat f"
| "toFloat lib (GoNumber s) = Option.bind (parseFloat lib s) finiteFloat"
| "toFloat lib (GoString s) = Option.bind (parseFloat lib s) finiteFloat"
| "toFloat lib _ = None"

fun toAnyArray :: "any \<Rightarrow> any list option" where
  "toAnyArray (GoAnys vs) = Some vs"
| "toAnyArray (GoStrings ss) = Some (map GoString ss)"
| "toAnyArray (GoInts ns) = Some (map GoInt64 ns)"
| "toAnyArray (GoInt64s ns) = Some (map GoInt64 ns)"
| "toAnyArray _ = None"

fun arrayLen :: "any \<Rightarrow> int" where
  "arrayLen (GoStrings ss) = int (length ss)"
| "arrayLen (GoInt64s ns) = int (length ns)"
| "arrayLen (GoAnys vs) = int (length vs)"
| "arrayLen _ = 0"

fun equalAny :: "GoLib \<Rightarrow> any \<Rightarrow> any \<Rightarrow> bool" where
  "equalAny lib (GoString s) b = (toString b = Some s)"
| "equalAny lib (GoInt64 n) b = (toInt lib b = Some n)"
| "equalAny lib (GoNumber s) b =
    (case (toFloat lib (GoNumber s), toFloat lib b) of (Some x, Some y) \<Rightarrow> feq x y | _ \<Rightarrow> False)"
| "equalAny lib (GoFloat64 f) b =
    (case (toFloat lib (GoFloat64 f), toFloat lib b) of (Some x, Some y) \<Rightarrow> feq x y | _ \<Rightarrow> False)"
| "equalAny lib (GoBool p) b = (b = GoBool p)"
| "equalAny lib a b = (a = b)"

definition inAnyList :: "GoLib \<Rightarrow> any \<Rightarrow> any list \<Rightarrow> bool" where
  "inAnyList lib v vs \<longleftrightarrow> list_ex (equalAny lib v) vs"

definition isArrayType :: "ArgType \<Rightarrow> bool" where
  "isArrayType t \<longleftrightarrow> t = ArgStringArray \<or> t = ArgIntegerArray"

subsection \<open>Coercion\<close>

text \<open>The elements of an array argument, converted one by one; the first that is not of the
  element type is the error.\<close>

fun coerceItems :: "(any \<Rightarrow> 'a option) \<Rightarrow> string \<Rightarrow> string \<Rightarrow> nat \<Rightarrow> any list \<Rightarrow> ArgError + 'a list" where
  "coerceItems conv name msg i [] = Inr []"
| "coerceItems conv name msg i (x # xs) =
    (case conv x of
       None \<Rightarrow> Inl (newError name ''type'' msg [GoInt (int i)])
     | Some y \<Rightarrow> rbind (coerceItems conv name msg (Suc i) xs) (\<lambda>ys. Inr (y # ys)))"

definition coerceNumber :: "GoLib \<Rightarrow> string \<Rightarrow> any \<Rightarrow> ArgError + any" where
  "coerceNumber lib name v =
    (case v of
       GoNumber lit \<Rightarrow>
         if maxNumberLiteralBytes < length lit
           then Inl (newError name ''type'' ''number literal is too long (%d bytes, max %d)''
                  [GoInt (int (length lit)), GoInt (int maxNumberLiteralBytes)])
         else if toFloat lib v = None then Inl (newError name ''type'' ''expected number'' [])
         else Inr v
     | _ \<Rightarrow> (case toFloat lib v of
              None \<Rightarrow> Inl (newError name ''type'' ''expected number'' [])
            | Some f \<Rightarrow> Inr (GoFloat64 f)))"

definition coerce :: "GoLib \<Rightarrow> Arg \<Rightarrow> any \<Rightarrow> ArgError + any" where
  "coerce lib a v =
    (let t = argType a; bad = (\<lambda>msg. Inl (newError (argName a) ''type'' msg [])) in
     if t = ArgString \<or> t = ArgPath then
       (case toString v of
          None \<Rightarrow> bad ''expected string''
        | Some s \<Rightarrow> Inr (GoString (if t = ArgPath then cleanPath s else s)))
     else if t = ArgInteger then
       (case toInt lib v of None \<Rightarrow> bad ''expected integer'' | Some n \<Rightarrow> Inr (GoInt64 n))
     else if t = ArgNumber then coerceNumber lib (argName a) v
     else if t = ArgBoolean then
       (case v of GoBool b \<Rightarrow> Inr v | _ \<Rightarrow> bad ''expected boolean'')
     else if t = ArgDuration then
       (case toString v of
          None \<Rightarrow> bad ''expected duration string''
        | Some s \<Rightarrow> (case parseDuration lib s of
            None \<Rightarrow> Inl (newError (argName a) ''type'' ''invalid duration %q'' [GoString s])
          | Some d \<Rightarrow> Inr (GoDuration d)))
     else if t = ArgStringArray then
       (case toAnyArray v of
          None \<Rightarrow> bad ''expected string array''
        | Some items \<Rightarrow> rbind (coerceItems toString (argName a) ''item %d not a string'' 0 items)
            (\<lambda>ss. Inr (GoStrings ss)))
     else if t = ArgIntegerArray then
       (case toAnyArray v of
          None \<Rightarrow> bad ''expected integer array''
        | Some items \<Rightarrow> rbind (coerceItems (toInt lib) (argName a) ''item %d not an integer'' 0 items)
            (\<lambda>ns. Inr (GoInt64s ns)))
     else Inl (newError (argName a) ''type'' ''unsupported arg type %q'' [GoString t]))"

subsection \<open>Limits and scalar rules\<close>

fun stringsFor :: "Arg \<Rightarrow> any \<Rightarrow> ArgError + string list" where
  "stringsFor a (GoString s) = Inr [s]"
| "stringsFor a (GoStrings ss) = Inr ss"
| "stringsFor a _ = Inl (newError (argName a) ''type'' ''path validation requires string or string array'' [])"

definition stringLimit :: "Arg \<Rightarrow> int" where
  "stringLimit a =
    (case argValidation a of
       None \<Rightarrow> defaultMaxStringBytes
     | Some val \<Rightarrow> (case MaxLength val of None \<Rightarrow> defaultMaxStringBytes | Some n \<Rightarrow> n))"

fun overlong :: "int \<Rightarrow> nat \<Rightarrow> string list \<Rightarrow> (nat \<times> string) option" where
  "overlong limit i [] = None"
| "overlong limit i (s # ss) = (if int (length s) \<le> limit then overlong limit (Suc i) ss else Some (i, s))"

definition applyStringByteLimit :: "Arg \<Rightarrow> any \<Rightarrow> ArgError option" where
  "applyStringByteLimit a v =
    (if argType a \<noteq> ArgString \<and> argType a \<noteq> ArgPath \<and> argType a \<noteq> ArgStringArray then None
     else case stringsFor a v of
       Inl e \<Rightarrow> Some e
     | Inr ss \<Rightarrow>
         (case overlong (stringLimit a) 0 ss of
            None \<Rightarrow> None
          | Some (i, s) \<Rightarrow>
              (let e = newError (argName a) ''max_length'' ''must be at most %d bytes (got %d)''
                  [GoInt (stringLimit a), GoInt (int (length s))] in
               Some (if argType a = ArgStringArray then wrapElementError e i else e))))"

definition itemLimit :: "Arg \<Rightarrow> int" where
  "itemLimit a =
    (case argValidation a of
       None \<Rightarrow> defaultMaxItems
     | Some val \<Rightarrow> (case MaxItems val of None \<Rightarrow> defaultMaxItems | Some n \<Rightarrow> n))"

definition applyArrayItemLimit :: "Arg \<Rightarrow> any \<Rightarrow> ArgError option" where
  "applyArrayItemLimit a v =
    (if \<not> isArrayType (argType a) then None
     else check (itemLimit a < arrayLen v)
       (newError (argName a) ''max_items'' ''too many items (max %d)'' [GoInt (itemLimit a)]))"

definition matchesPattern :: "GoLib \<Rightarrow> string \<Rightarrow> string \<Rightarrow> bool" where
  "matchesPattern lib pattern s =
    (let anchored = ''^(?:'' @ pattern @ '')$'' in
     regexpCompiles lib anchored \<and> regexpMatch lib anchored s)"

definition belowNumericBound :: "GoLib \<Rightarrow> any \<Rightarrow> float64 \<Rightarrow> bool" where
  "belowNumericBound lib v bound =
    (case v of
       GoInt64 n \<Rightarrow> n < intOfFloat lib bound
     | _ \<Rightarrow> (case toFloat lib v of None \<Rightarrow> False | Some f \<Rightarrow> fless f bound))"

definition aboveNumericBound :: "GoLib \<Rightarrow> any \<Rightarrow> float64 \<Rightarrow> bool" where
  "aboveNumericBound lib v bound =
    (case v of
       GoInt64 n \<Rightarrow> intOfFloat lib bound < n
     | _ \<Rightarrow> (case toFloat lib v of None \<Rightarrow> False | Some f \<Rightarrow> fless bound f))"

definition stringOr :: "any \<Rightarrow> string" where
  "stringOr v = (case v of GoString s \<Rightarrow> s | _ \<Rightarrow> '''')"

definition durationOr :: "any \<Rightarrow> int" where
  "durationOr v = (case v of GoDuration d \<Rightarrow> d | _ \<Rightarrow> 0)"

definition onSome :: "'a option \<Rightarrow> ('a \<Rightarrow> bool) \<Rightarrow> bool" where
  "onSome x p = (case x of None \<Rightarrow> False | Some y \<Rightarrow> p y)"

definition applyScalarValidators :: "GoLib \<Rightarrow> Arg \<Rightarrow> Validation \<Rightarrow> any \<Rightarrow> ArgError option" where
  "applyScalarValidators lib a val v =
    (let err = newError (argName a) in firstErr
      [check (Enum val \<noteq> [] \<and> \<not> inAnyList lib v (Enum val))
         (err ''enum'' ''value must be one of %v'' [GoAnys (Enum val)]),
       check (Allowed val \<noteq> [] \<and> \<not> inAnyList lib v (Allowed val))
         (err ''allowed'' ''value must be one of %v'' [GoAnys (Allowed val)]),
       check (Pattern val \<noteq> '''' \<and> \<not> matchesPattern lib (Pattern val) (stringOr v))
         (err ''pattern'' ''must match pattern %s'' [GoString (Pattern val)]),
       check (onSome (Min val) (belowNumericBound lib v))
         (err ''min'' ''must be >= %v'' [GoFloat64 (the (Min val))]),
       check (onSome (Max val) (aboveNumericBound lib v))
         (err ''max'' ''must be <= %v'' [GoFloat64 (the (Max val))]),
       check (onSome (MinDuration val) (\<lambda>lo. durationOr v < lo))
         (err ''min_duration'' ''must be >= %s'' [GoDuration (the (MinDuration val))]),
       check (onSome (MaxDuration val) (\<lambda>hi. hi < durationOr v))
         (err ''max_duration'' ''must be <= %s'' [GoDuration (the (MaxDuration val))])])"

fun validateElements :: "GoLib \<Rightarrow> Arg \<Rightarrow> Validation \<Rightarrow> nat \<Rightarrow> any list \<Rightarrow> ArgError option" where
  "validateElements lib a val i [] = None"
| "validateElements lib a val i (x # xs) =
    (case applyScalarValidators lib a val x of
       Some e \<Rightarrow> Some (wrapElementError e i)
     | None \<Rightarrow> validateElements lib a val (Suc i) xs)"

subsection \<open>Resolving paths\<close>

datatype stat = StatOK | StatNotExist | StatPermission | StatNameTooLong | StatNotDir | StatOther

record FS =
  evalSymlinks :: "string \<Rightarrow> string option"
  lstat :: "string \<Rightarrow> stat"
  getwd :: "string option"

datatype path_error = ResolveExisting string | InspectComponent string | NoComponent string

definition absPath :: "FS \<Rightarrow> string \<Rightarrow> string option" where
  "absPath fs p = (if isAbs p then Some (cleanPath p) else map_option (\<lambda>wd. pathJoin wd p) (getwd fs))"

definition nextParent :: "string \<Rightarrow> string" where
  "nextParent parent =
    (let up = trimRightChar slash (fst (pathSplit (trimRightChar slash parent))) in
     if up = '''' then [slash] else up)"

lemma trimRight_len: "length (trimRightChar c s) \<le> length s"
  using length_dropWhile_le [of "\<lambda>x. x = c" "rev s"] by (simp add: trimRightChar_def)

lemma nextParent_root [simp]: "nextParent [slash] = [slash]"
  by (simp add: nextParent_def trimRightChar_def pathSplit_def)

lemma nextParent_shorter: "nextParent p \<noteq> [slash] \<Longrightarrow> length (nextParent p) < length p"
proof -
  let ?t = "trimRightChar slash p"
  let ?d = "fst (pathSplit ?t)"
  assume "nextParent p \<noteq> [slash]"
  then have n: "nextParent p = trimRightChar slash ?d" "trimRightChar slash ?d \<noteq> ''''"
    by (auto simp: nextParent_def Let_def split: if_splits)
  show ?thesis
  proof (cases "?t = []")
    case True
    have "trimRightChar slash ?d = ''''" unfolding True by (simp add: pathSplit_def trimRightChar_def)
    with n show ?thesis by simp
  next
    case False
    have hd: "hd (rev ?t) \<noteq> slash" using False hd_dropWhile [of "\<lambda>x. x = slash" "rev p"]
      by (simp add: trimRightChar_def)
    then obtain x xs where "rev ?t = x # xs" "x \<noteq> slash" using False by (cases "rev ?t") auto
    then have "length ?d < length ?t"
      using length_dropWhile_le [of "\<lambda>c. c \<noteq> slash" xs] length_rev [of ?t] by (simp add: pathSplit_def)
    then show ?thesis using n trimRight_len [of slash ?d] trimRight_len [of slash p] by simp
  qed
qed

function walkUp :: "FS \<Rightarrow> bool \<Rightarrow> string \<Rightarrow> string \<Rightarrow> string \<Rightarrow> path_error + string" where
  "walkUp fs lexicalTail cleaned tail parent =
    (let st = lstat fs parent in
     if st = StatOK then
       (case evalSymlinks fs parent of
          None \<Rightarrow> Inl (ResolveExisting parent)
        | Some resolved \<Rightarrow> Inr (cleanPath (pathJoin resolved tail)))
     else if st = StatNotExist
         \<or> lexicalTail \<and> st \<in> {StatPermission, StatNameTooLong, StatNotDir} then
       (if nextParent parent = parent then Inl (NoComponent cleaned)
        else walkUp fs lexicalTail cleaned
          (pathJoin (snd (pathSplit (trimRightChar slash parent))) tail) (nextParent parent))
     else Inl (InspectComponent parent))"
  by pat_completeness auto
termination
  by (relation "measure (\<lambda>(fs, b, c, t, p). if p = [slash] then 0 else Suc (length p))")
    (auto dest: nextParent_shorter)

declare walkUp.simps [simp del]

definition resolvePathForCheck :: "FS \<Rightarrow> string \<Rightarrow> bool \<Rightarrow> path_error + string" where
  "resolvePathForCheck fs p lexicalTail =
    (if \<not> isAbs (cleanPath p) then Inr (cleanPath p)
     else case evalSymlinks fs p of
       Some resolved \<Rightarrow> Inr resolved
     | None \<Rightarrow> walkUp fs lexicalTail (cleanPath p) '''' p)"

definition resolveForCheck :: "FS \<Rightarrow> string \<Rightarrow> path_error + string" where
  "resolveForCheck fs p = resolvePathForCheck fs (cleanPath p) False"

definition resolveRuleForCheck :: "FS \<Rightarrow> string \<Rightarrow> path_error + string" where
  "resolveRuleForCheck fs p = resolvePathForCheck fs p True"

definition resolveManyRules :: "FS \<Rightarrow> string list \<Rightarrow> path_error + string list" where
  "resolveManyRules fs ps = mapRes (resolveRuleForCheck fs) ps"

subsection \<open>Containment\<close>

definition underPrefix :: "(nat \<Rightarrow> nat) option \<Rightarrow> string \<Rightarrow> string \<Rightarrow> bool" where
  "underPrefix fld path pfx \<longleftrightarrow>
     (if pfx = [slash] then True
      else if length path < length pfx then False
      else if length pfx < length path \<and> path ! length pfx \<noteq> slash then False
      else case fld of
        Some f \<Rightarrow> equalFold f (take (length pfx) path) pfx
      | None \<Rightarrow> take (length pfx) path = pfx)"

definition pathInList :: "string \<Rightarrow> string list \<Rightarrow> bool" where
  "pathInList path ps \<longleftrightarrow> list_ex (\<lambda>p. cleanPath p = path) ps"

definition pathInDenyList :: "GoLib \<Rightarrow> string \<Rightarrow> string list \<Rightarrow> bool" where
  "pathInDenyList lib path ps \<longleftrightarrow> list_ex (\<lambda>p. equalFold (foldRune lib) (cleanPath p) path) ps"

definition prefixInList :: "string \<Rightarrow> string list \<Rightarrow> bool" where
  "prefixInList path ps \<longleftrightarrow> list_ex (\<lambda>p. underPrefix None path (cleanPath p)) ps"

definition prefixInDenyList :: "GoLib \<Rightarrow> string \<Rightarrow> string list \<Rightarrow> bool" where
  "prefixInDenyList lib path ps \<longleftrightarrow> list_ex (\<lambda>p. underPrefix (Some (foldRune lib)) path (cleanPath p)) ps"

subsection \<open>Declared path rules\<close>

record pathRules =
  okPaths :: "string list"
  badPaths :: "string list"
  okPrefixes :: "string list"
  badPrefixes :: "string list"
  lexBadPaths :: "string list"
  lexBadPrefixes :: "string list"

definition pathErr :: "Arg \<Rightarrow> string \<Rightarrow> string \<Rightarrow> string \<Rightarrow> ArgError" where
  "pathErr a code format path = newError (argName a) code format [GoString path]"

definition checkPath :: "GoLib \<Rightarrow> FS \<Rightarrow> Arg \<Rightarrow> pathRules \<Rightarrow> string \<Rightarrow> ArgError + string" where
  "checkPath lib fs a rules s =
    (let cleaned = cleanPath s in
     if pathInDenyList lib cleaned (lexBadPaths rules)
       then Inl (pathErr a ''denied_paths'' ''path %s is denied'' cleaned)
     else if prefixInDenyList lib cleaned (lexBadPrefixes rules)
       then Inl (pathErr a ''denied_prefixes'' ''path %s under denied prefix'' cleaned)
     else case resolveForCheck fs s of
       Inl e \<Rightarrow> Inl (pathErr a ''path'' ''cannot safely resolve path %s: %v'' s)
     | Inr resolved \<Rightarrow>
         if \<not> isAbs resolved
           then Inl (pathErr a ''path'' ''path %s must be absolute'' resolved)
         else if okPaths rules \<noteq> [] \<and> \<not> pathInList resolved (okPaths rules)
           then Inl (pathErr a ''allowed_paths'' ''path %s not in allowlist'' resolved)
         else if pathInDenyList lib resolved (badPaths rules)
           then Inl (pathErr a ''denied_paths'' ''path %s is denied'' resolved)
         else if okPrefixes rules \<noteq> [] \<and> \<not> prefixInList resolved (okPrefixes rules)
           then Inl (pathErr a ''allowed_prefixes'' ''path %s not in allowed prefixes'' resolved)
         else if prefixInDenyList lib resolved (badPrefixes rules)
           then Inl (pathErr a ''denied_prefixes'' ''path %s under denied prefix'' resolved)
         else Inr resolved)"

text \<open>The four rule lists, resolved like the paths they are compared with.\<close>

definition resolveRules :: "FS \<Rightarrow> Arg \<Rightarrow> Validation \<Rightarrow> ArgError + pathRules" where
  "resolveRules fs a val =
    (let res = (\<lambda>which ps. case resolveManyRules fs ps of
        Inl e \<Rightarrow> Inl (newError (argName a) ''path'' (''cannot safely resolve '' @ which @ '': %v'') [])
      | Inr rs \<Rightarrow> Inr rs) in
     rbind (res ''allowed_paths'' (AllowedPaths val)) (\<lambda>ap.
     rbind (res ''denied_paths'' (DeniedPaths val)) (\<lambda>dp.
     rbind (res ''allowed_prefixes'' (AllowedPrefixes val)) (\<lambda>af.
     rbind (res ''denied_prefixes'' (DeniedPrefixes val)) (\<lambda>df.
       Inr \<lparr>okPaths = ap, badPaths = dp, okPrefixes = af, badPrefixes = df,
            lexBadPaths = map cleanPath (DeniedPaths val),
            lexBadPrefixes = map cleanPath (DeniedPrefixes val)\<rparr>)))))"

definition applyPathValidation ::
  "GoLib \<Rightarrow> FS \<Rightarrow> Arg \<Rightarrow> Validation \<Rightarrow> any \<Rightarrow> ArgError + any" where
  "applyPathValidation lib fs a val v =
    (if AllowedPaths val = [] \<and> DeniedPaths val = [] \<and> AllowedPrefixes val = []
        \<and> DeniedPrefixes val = [] then Inr v
     else rbind (stringsFor a v) (\<lambda>strs.
       rbind (resolveRules fs a val) (\<lambda>rules.
       rbind (mapRes (checkPath lib fs a rules) strs) (\<lambda>resolved.
         Inr (case v of GoStrings ss \<Rightarrow> GoStrings resolved | _ \<Rightarrow> GoString (hd resolved))))))"

definition applyValidation :: "GoLib \<Rightarrow> FS \<Rightarrow> Arg \<Rightarrow> any \<Rightarrow> ArgError + any" where
  "applyValidation lib fs a v =
    (case applyStringByteLimit a v of
       Some e \<Rightarrow> Inl e
     | None \<Rightarrow> (case applyArrayItemLimit a v of
         Some e \<Rightarrow> Inl e
       | None \<Rightarrow> (case argValidation a of
           None \<Rightarrow> Inr v
         | Some val \<Rightarrow>
             (if isArrayType (argType a) then
                (case toAnyArray v of
                   None \<Rightarrow> Inl (newError (argName a) ''type'' ''%s'' [])
                 | Some elements \<Rightarrow> (case validateElements lib a val 0 elements of
                     Some e \<Rightarrow> Inl e
                   | None \<Rightarrow> applyPathValidation lib fs a val v))
              else case applyScalarValidators lib a val v of
                Some e \<Rightarrow> Inl e
              | None \<Rightarrow> applyPathValidation lib fs a val v))))"

subsection \<open>The runner's own state\<close>

definition protectedPathError :: "Arg \<Rightarrow> string \<Rightarrow> ArgError" where
  "protectedPathError a path = newError (argName a) ''protected_path''
     (''path %s is inside the runner'' @ [CHR 0x27] @ ''s own configuration or state'') [GoString path]"

definition cwdError :: "Arg \<Rightarrow> ArgError" where
  "cwdError a = newError (argName a) ''path'' ''cannot safely resolve working directory: %v'' []"

definition resolveCWD :: "FS \<Rightarrow> string \<Rightarrow> string option" where
  "resolveCWD fs cwd = Option.bind (evalSymlinks fs cwd) (absPath fs)"

text \<open>The path a value denotes for the command: itself when absolute, otherwise under the
  resolved working directory with its components left as they are.\<close>

definition candidatePath :: "GoLib \<Rightarrow> FS \<Rightarrow> Arg \<Rightarrow> string \<Rightarrow> string list \<Rightarrow> string \<Rightarrow> ArgError + string" where
  "candidatePath lib fs a cwd lexical s =
    (if isAbs s then Inr s
     else case absPath fs (cwd @ [slash] @ s) of
       None \<Rightarrow> Inl (cwdError a)
     | Some lexicalCandidate \<Rightarrow>
         if prefixInDenyList lib lexicalCandidate lexical then Inl (protectedPathError a s)
         else case resolveCWD fs cwd of
           None \<Rightarrow> Inl (cwdError a)
         | Some resolvedCWD \<Rightarrow> Inr (resolvedCWD @ [slash] @ s))"

definition refuseProtectedValue ::
  "GoLib \<Rightarrow> FS \<Rightarrow> Arg \<Rightarrow> string \<Rightarrow> string list \<Rightarrow> string list \<Rightarrow> string \<Rightarrow> ArgError option" where
  "refuseProtectedValue lib fs a cwd lexical resolved s =
    (case candidatePath lib fs a cwd lexical s of
       Inl e \<Rightarrow> Some e
     | Inr candidate \<Rightarrow>
         if prefixInDenyList lib (cleanPath candidate) lexical then Some (protectedPathError a s)
         else (case resolveRuleForCheck fs candidate of
           Inl e \<Rightarrow> Some (pathErr a ''path'' ''cannot safely resolve path %s: %v'' s)
         | Inr target \<Rightarrow> check (prefixInDenyList lib target resolved) (protectedPathError a target)))"

definition valuesOf :: "any \<Rightarrow> string list" where
  "valuesOf v = (case v of GoString s \<Rightarrow> [s] | GoStrings ss \<Rightarrow> ss | _ \<Rightarrow> [])"

definition stringShaped :: "any \<Rightarrow> bool" where
  "stringShaped v = (case v of GoString s \<Rightarrow> True | GoStrings ss \<Rightarrow> True | _ \<Rightarrow> False)"

definition refuseProtectedPaths ::
  "GoLib \<Rightarrow> FS \<Rightarrow> Arg \<Rightarrow> any \<Rightarrow> string list \<Rightarrow> string \<Rightarrow> ArgError option" where
  "refuseProtectedPaths lib fs a v protected cwd =
    (if protected = [] \<or> \<not> stringShaped v then None
     else case resolveManyRules fs protected of
       Inl e \<Rightarrow> Some (newError (argName a) ''path'' ''cannot safely resolve protected paths: %v'' [])
     | Inr resolved \<Rightarrow>
         firstErr (map (refuseProtectedValue lib fs a cwd (map cleanPath protected) resolved) (valuesOf v)))"

subsection \<open>The whole argument map\<close>

definition supplied :: "Arg \<Rightarrow> args \<Rightarrow> ArgError + any option" where
  "supplied a raw =
    (case map_of raw (argName a) of
       Some v \<Rightarrow> Inr (Some v)
     | None \<Rightarrow> if Required a then Inl (newError (argName a) ''required'' ''is required'' [])
               else if Default a \<noteq> GoNil then Inr (Some (Default a)) else Inr None)"

definition validateOne ::
  "GoLib \<Rightarrow> FS \<Rightarrow> string list \<Rightarrow> string \<Rightarrow> Arg \<Rightarrow> any \<Rightarrow> ArgError + any" where
  "validateOne lib fs protected cwd a v =
    rbind (coerce lib a v) (\<lambda>coerced.
    rbind (applyValidation lib fs a coerced) (\<lambda>validated.
      case refuseProtectedPaths lib fs a validated protected cwd of
        Some e \<Rightarrow> Inl e
      | None \<Rightarrow> Inr validated))"

fun validateFrom ::
  "GoLib \<Rightarrow> FS \<Rightarrow> string list \<Rightarrow> string \<Rightarrow> args \<Rightarrow> args \<Rightarrow> Arg list \<Rightarrow> ArgError + args" where
  "validateFrom lib fs protected cwd raw out [] = Inr out"
| "validateFrom lib fs protected cwd raw out (a # as) =
    rbind (supplied a raw) (\<lambda>v. case v of
      None \<Rightarrow> validateFrom lib fs protected cwd raw out as
    | Some v \<Rightarrow> rbind (validateOne lib fs protected cwd a v) (\<lambda>validated.
        validateFrom lib fs protected cwd raw ((argName a, validated) # out) as))"

definition validateArgs ::
  "GoLib \<Rightarrow> FS \<Rightarrow> Arg list \<Rightarrow> args \<Rightarrow> string list \<Rightarrow> string \<Rightarrow> ArgError + args" where
  "validateArgs lib fs schema raw protected cwd =
    (case List.find (\<lambda>kv. fst kv \<notin> set (map argName schema)) raw of
       Some (name, v) \<Rightarrow> Inl (newError name ''unknown_arg'' ''unknown argument'' [])
     | None \<Rightarrow> validateFrom lib fs protected cwd raw [] schema)"

subsection \<open>Accepted paths are contained\<close>

text \<open>A path lies at or below a directory: component-wise containment.\<close>

definition atOrBelow :: "string \<Rightarrow> string \<Rightarrow> bool" where
  "atOrBelow dir path \<longleftrightarrow> dir = [slash] \<or> path = dir \<or> prefix (dir @ [slash]) path"

lemma underPrefix_exact: "underPrefix None path dir \<longleftrightarrow> atOrBelow dir path"
proof (cases "dir = [slash] \<or> length path < length dir")
  case True
  then show ?thesis by (auto simp: underPrefix_def atOrBelow_def dest: prefix_length_le)
next
  case False
  have "prefix (dir @ [slash]) path \<longleftrightarrow>
      length dir < length path \<and> path ! length dir = slash \<and> take (length dir) path = dir"
    using False by (auto simp: prefix_def nth_append neq_Nil_conv)
      (metis append_take_drop_id Cons_nth_drop_Suc append_Cons append_Nil)
  moreover have "path = dir \<longleftrightarrow> length path = length dir \<and> take (length dir) path = dir" by auto
  ultimately show ?thesis using False by (auto simp: underPrefix_def atOrBelow_def)
qed

lemma underPrefix_fold: "underPrefix None path dir \<Longrightarrow> underPrefix (Some f) path dir"
  unfolding underPrefix_def by (simp split: if_split_asm) linarith

lemma not_denied: "\<not> prefixInDenyList lib path ps \<Longrightarrow> p \<in> set ps \<Longrightarrow> \<not> atOrBelow (cleanPath p) path"
  using underPrefix_fold by (auto simp: prefixInDenyList_def list_ex_iff underPrefix_exact [symmetric])

lemma not_denied_path: "\<not> pathInDenyList lib path ps \<Longrightarrow> p \<in> set ps \<Longrightarrow> path \<noteq> cleanPath p"
  by (auto simp: pathInDenyList_def list_ex_iff)

text \<open>What the declared rules promise of a path that was accepted.\<close>

definition pathAllowed :: "FS \<Rightarrow> Validation \<Rightarrow> string \<Rightarrow> bool" where
  "pathAllowed fs val path \<longleftrightarrow> isAbs path
     \<and> (AllowedPaths val \<noteq> [] \<longrightarrow>
         (\<exists>p \<in> set (AllowedPaths val). \<exists>r. resolveRuleForCheck fs p = Inr r \<and> path = cleanPath r))
     \<and> (AllowedPrefixes val \<noteq> [] \<longrightarrow>
         (\<exists>p \<in> set (AllowedPrefixes val). \<exists>r. resolveRuleForCheck fs p = Inr r \<and> atOrBelow (cleanPath r) path))
     \<and> (\<forall>p \<in> set (DeniedPaths val). \<exists>r. resolveRuleForCheck fs p = Inr r \<and> path \<noteq> cleanPath r)
     \<and> (\<forall>p \<in> set (DeniedPrefixes val). \<exists>r. resolveRuleForCheck fs p = Inr r \<and> \<not> atOrBelow (cleanPath r) path)"

definition hasPathRules :: "Validation \<Rightarrow> bool" where
  "hasPathRules val \<longleftrightarrow> AllowedPaths val \<noteq> [] \<or> DeniedPaths val \<noteq> [] \<or> AllowedPrefixes val \<noteq> []
     \<or> DeniedPrefixes val \<noteq> []"

lemma resolveRules_lists:
  assumes "resolveRules fs a val = Inr rules"
  shows "resolveManyRules fs (AllowedPaths val) = Inr (okPaths rules)"
    "resolveManyRules fs (DeniedPaths val) = Inr (badPaths rules)"
    "resolveManyRules fs (AllowedPrefixes val) = Inr (okPrefixes rules)"
    "resolveManyRules fs (DeniedPrefixes val) = Inr (badPrefixes rules)"
  using assms by (auto simp: resolveRules_def Let_def result_simps split: sum.splits)

lemma resolveManyRules_each:
  assumes "resolveManyRules fs ps = Inr rs"
  shows "p \<in> set ps \<Longrightarrow> \<exists>r \<in> set rs. resolveRuleForCheck fs p = Inr r"
    and "r \<in> set rs \<Longrightarrow> \<exists>p \<in> set ps. resolveRuleForCheck fs p = Inr r"
    and "rs = [] \<longleftrightarrow> ps = []"
  using mapRes_in [OF assms [unfolded resolveManyRules_def]] mapRes_length [OF assms [unfolded resolveManyRules_def]]
    mapRes_Inr [OF assms [unfolded resolveManyRules_def]]
  by (auto simp: list_all2_conv_all_nth in_set_conv_nth)

lemma checkPath_allowed:
  assumes "checkPath lib fs a rules s = Inr path" and "resolveRules fs a val = Inr rules"
  shows "pathAllowed fs val path \<and> resolveForCheck fs s = Inr path"
proof -
  note rl = resolveRules_lists [OF assms(2)]
  have c: "resolveForCheck fs s = Inr path" "isAbs path"
    "okPaths rules \<noteq> [] \<Longrightarrow> pathInList path (okPaths rules)"
    "okPrefixes rules \<noteq> [] \<Longrightarrow> prefixInList path (okPrefixes rules)"
    "\<not> pathInDenyList lib path (badPaths rules)" "\<not> prefixInDenyList lib path (badPrefixes rules)"
    using assms(1) by (auto simp: checkPath_def Let_def split: if_splits sum.splits)
  have "\<exists>p \<in> set (AllowedPaths val). \<exists>r. resolveRuleForCheck fs p = Inr r \<and> path = cleanPath r"
    if "AllowedPaths val \<noteq> []"
    using c(3) that resolveManyRules_each(2,3) [OF rl(1)] by (fastforce simp: pathInList_def list_ex_iff)
  moreover have "\<exists>p \<in> set (AllowedPrefixes val). \<exists>r. resolveRuleForCheck fs p = Inr r \<and> atOrBelow (cleanPath r) path"
    if "AllowedPrefixes val \<noteq> []"
    using c(4) that resolveManyRules_each(2,3) [OF rl(3)]
    by (fastforce simp: prefixInList_def list_ex_iff underPrefix_exact)
  moreover have "\<exists>r. resolveRuleForCheck fs p = Inr r \<and> path \<noteq> cleanPath r" if "p \<in> set (DeniedPaths val)" for p
    using resolveManyRules_each(1) [OF rl(2) that] not_denied_path [OF c(5)] by blast
  moreover have "\<exists>r. resolveRuleForCheck fs p = Inr r \<and> \<not> atOrBelow (cleanPath r) path"
    if "p \<in> set (DeniedPrefixes val)" for p
    using resolveManyRules_each(1) [OF rl(4) that] not_denied [OF c(6)] by blast
  ultimately show ?thesis using c(1,2) by (simp add: pathAllowed_def)
qed

lemma validateFrom_step:
  "validateFrom lib fs protected cwd raw out (a # as) = Inr res \<longleftrightarrow>
     (supplied a raw = Inr None \<and> validateFrom lib fs protected cwd raw out as = Inr res)
   \<or> (\<exists>v0 w. supplied a raw = Inr (Some v0) \<and> validateOne lib fs protected cwd a v0 = Inr w
        \<and> validateFrom lib fs protected cwd raw ((argName a, w) # out) as = Inr res)"
proof (cases "supplied a raw")
  case (Inr x)
  then show ?thesis by (cases x) (auto simp: result_simps)
qed simp

lemma validateFrom_entries:
  "validateFrom lib fs protected cwd raw out as = Inr res \<Longrightarrow> (n, v) \<in> set res \<Longrightarrow>
   (n, v) \<in> set out \<or> (\<exists>a \<in> set as. argName a = n \<and>
      (\<exists>v0. supplied a raw = Inr (Some v0) \<and> validateOne lib fs protected cwd a v0 = Inr v))"
proof (induction as arbitrary: out)
  case (Cons a as)
  from Cons.prems(1) consider "supplied a raw = Inr None" "validateFrom lib fs protected cwd raw out as = Inr res"
    | v0 w where "supplied a raw = Inr (Some v0)" "validateOne lib fs protected cwd a v0 = Inr w"
      "validateFrom lib fs protected cwd raw ((argName a, w) # out) as = Inr res"
    unfolding validateFrom_step by blast
  then show ?case
    using Cons.IH Cons.prems(2) by cases fastforce+
qed simp

lemma validateFrom_names:
  "validateFrom lib fs protected cwd raw out as = Inr res \<Longrightarrow> fst ` set out \<subseteq> fst ` set res \<and>
   (\<forall>a \<in> set as. Required a \<longrightarrow> argName a \<in> fst ` set res)"
proof (induction as arbitrary: out)
  case (Cons a as)
  from Cons.prems consider "supplied a raw = Inr None" "validateFrom lib fs protected cwd raw out as = Inr res"
    | w where "validateFrom lib fs protected cwd raw ((argName a, w) # out) as = Inr res"
    unfolding validateFrom_step by blast
  then show ?case
  proof cases
    case 1
    then have "\<not> Required a" by (auto simp: supplied_def split: option.splits if_splits)
    with Cons.IH [OF 1(2)] show ?thesis by auto
  next
    case (2 w)
    from Cons.IH [OF 2] show ?thesis by auto
  qed
qed simp

lemma validateArgs_from:
  "validateArgs lib fs schema raw protected cwd = Inr out \<Longrightarrow>
   validateFrom lib fs protected cwd raw [] schema = Inr out \<and> fst ` set raw \<subseteq> argName ` set schema"
  by (auto simp: validateArgs_def find_None_iff split: option.splits)

lemma validated_value:
  assumes "validateArgs lib fs schema raw protected cwd = Inr out" and "map_of out n = Some v"
    and "distinct (map argName schema)" and "a \<in> set schema" and "argName a = n"
  shows "\<exists>v0 w. coerce lib a v0 = Inr w \<and> applyValidation lib fs a w = Inr v
    \<and> refuseProtectedPaths lib fs a v protected cwd = None"
proof -
  have "(n, v) \<in> set out" using assms(2) by (rule map_of_SomeD)
  then obtain b v0 where b: "b \<in> set schema" "argName b = n" "validateOne lib fs protected cwd b v0 = Inr v"
    using validateFrom_entries [OF conjunct1 [OF validateArgs_from [OF assms(1)]]] by (metis emptyE list.set(1))
  have "b = a" using assms(3-5) b(1,2) by (auto simp: distinct_map inj_on_def)
  with b(3) obtain w v' where "coerce lib a v0 = Inr w" "applyValidation lib fs a w = Inr v'"
    "(case refuseProtectedPaths lib fs a v' protected cwd of Some e \<Rightarrow> Inl e | None \<Rightarrow> Inr v') = Inr v"
    unfolding validateOne_def rbind_eq_Inr by blast
  then show ?thesis by (cases "refuseProtectedPaths lib fs a v' protected cwd") auto
qed

lemma applyValidation_parts:
  assumes "applyValidation lib fs a w = Inr v"
  shows "applyStringByteLimit a w = None" "applyArrayItemLimit a w = None"
    "argValidation a = None \<Longrightarrow> v = w"
    "argValidation a = Some val \<Longrightarrow> applyPathValidation lib fs a val w = Inr v"
  using assms by (auto simp: applyValidation_def split: option.splits if_splits)

lemma applyPathValidation_result:
  assumes "applyPathValidation lib fs a val w = Inr v" and "hasPathRules val"
  shows "\<exists>strs rules rs. stringsFor a w = Inr strs \<and> resolveRules fs a val = Inr rules
    \<and> mapRes (checkPath lib fs a rules) strs = Inr rs
    \<and> v = (case w of GoStrings ss \<Rightarrow> GoStrings rs | _ \<Rightarrow> GoString (hd rs))"
  using assms by (auto simp: applyPathValidation_def hasPathRules_def result_simps)

lemma valuesOf_resolved:
  assumes "stringsFor a w = Inr strs" and "length rs = length strs"
  shows "valuesOf (case w of GoStrings ss \<Rightarrow> GoStrings rs | _ \<Rightarrow> GoString (hd rs)) = rs"
  using assms by (cases w) (auto simp: valuesOf_def length_Suc_conv)

text \<open>C14: Every path an action receives through an argument with path rules is contained: it is
  absolute, fully resolved, equal to an allowed path or component-wise at or below an allowed
  prefix where such rules are declared, and neither equal to a denied path nor at or below a
  denied prefix, with the rules resolved through the same symbolic links.\<close>

theorem accepted_paths_contained:
  assumes "validateArgs lib fs schema raw protected cwd = Inr out" and "map_of out (argName a) = Some v"
    and "distinct (map argName schema)" and "a \<in> set schema" and "argValidation a = Some val"
    and "hasPathRules val" and "path \<in> set (valuesOf v)"
  shows "pathAllowed fs val path \<and> (\<exists>s. resolveForCheck fs s = Inr path)"
proof -
  obtain v0 w where "applyValidation lib fs a w = Inr v"
    using validated_value [OF assms(1-4) refl] by blast
  then have "applyPathValidation lib fs a val w = Inr v" using applyValidation_parts(4) assms(5) by blast
  then obtain strs rules rs where r: "stringsFor a w = Inr strs" "resolveRules fs a val = Inr rules"
    "mapRes (checkPath lib fs a rules) strs = Inr rs"
    "v = (case w of GoStrings ss \<Rightarrow> GoStrings rs | _ \<Rightarrow> GoString (hd rs))"
    using applyPathValidation_result assms(6) by blast
  have "path \<in> set rs" using assms(7) valuesOf_resolved [OF r(1) mapRes_length [OF r(3)]] r(4) by simp
  then obtain s where "checkPath lib fs a rules s = Inr path" using mapRes_in [OF r(3)] by blast
  with checkPath_allowed r(2) show ?thesis by blast
qed

text \<open>The path a string argument denotes for the command that receives it.\<close>

definition denotes :: "FS \<Rightarrow> string \<Rightarrow> string \<Rightarrow> string \<Rightarrow> bool" where
  "denotes fs cwd s path \<longleftrightarrow>
     (if isAbs s then path = s else (\<exists>c. resolveCWD fs cwd = Some c \<and> path = c @ [slash] @ s))"

text \<open>C13: No string an action receives, whatever type or rules its pack declared, denotes a path
  inside the runner's own configuration or state: relative values are taken from the command's
  working directory, links are resolved, and case variants count as inside.\<close>

theorem protected_state_refused:
  assumes "validateArgs lib fs schema raw protected cwd = Inr out" and "map_of out (argName a) = Some v"
    and "distinct (map argName schema)" and "a \<in> set schema"
    and "s \<in> set (valuesOf v)" and "dir \<in> set protected"
  shows "\<exists>path target r. denotes fs cwd s path \<and> resolveRuleForCheck fs path = Inr target
    \<and> resolveRuleForCheck fs dir = Inr r \<and> \<not> atOrBelow (cleanPath r) target
    \<and> \<not> underPrefix (Some (foldRune lib)) target (cleanPath r)"
proof -
  have "refuseProtectedPaths lib fs a v protected cwd = None"
    using validated_value [OF assms(1-4) refl] by blast
  moreover have "protected \<noteq> []" "stringShaped v" using assms(5,6) by (cases v; force simp: valuesOf_def stringShaped_def)+
  ultimately obtain resolved where r: "resolveManyRules fs protected = Inr resolved"
    "firstErr (map (refuseProtectedValue lib fs a cwd (map cleanPath protected) resolved) (valuesOf v)) = None"
    by (auto simp: refuseProtectedPaths_def split: sum.splits)
  have "firstErr (map f xs) = None \<Longrightarrow> x \<in> set xs \<Longrightarrow> f x = None" for f :: "string \<Rightarrow> ArgError option" and xs x
    by (induction xs) (auto simp: firstErr_Cons split: option.splits)
  with r(2) assms(5) have ok: "refuseProtectedValue lib fs a cwd (map cleanPath protected) resolved s = None" by blast
  then obtain path target where p: "candidatePath lib fs a cwd (map cleanPath protected) s = Inr path"
    "resolveRuleForCheck fs path = Inr target" "\<not> prefixInDenyList lib target resolved"
    by (auto simp: refuseProtectedValue_def split: sum.splits if_splits)
  have "denotes fs cwd s path" using p(1) by (auto simp: candidatePath_def denotes_def split: if_splits option.splits)
  moreover obtain r' where "r' \<in> set resolved" "resolveRuleForCheck fs dir = Inr r'"
    using resolveManyRules_each(1) [OF r(1) assms(6)] by blast
  ultimately show ?thesis using p not_denied [OF p(3)] by (auto simp: prefixInDenyList_def list_ex_iff)
qed

subsection \<open>Validated arguments have their declared types and sizes\<close>

lemma coerce_conforms: "coerce lib a v = Inr w \<Longrightarrow> conforms (argType a) w"
  by (auto simp: coerce_def coerceNumber_def Let_def result_simps
      split: if_splits option.splits any.splits)

lemma coerce_number: "coerce lib a v = Inr (GoNumber lit) \<Longrightarrow> length lit \<le> maxNumberLiteralBytes"
  by (auto simp: coerce_def coerceNumber_def Let_def result_simps
      split: if_splits option.splits any.splits)

lemma path_conforms:
  assumes "applyPathValidation lib fs a val w = Inr v" and "conforms t w"
  shows "conforms t v \<and> arrayLen v = arrayLen w \<and> (\<not> hasPathRules val \<longrightarrow> v = w)
    \<and> (\<forall>lit. v = GoNumber lit \<longrightarrow> w = v)"
proof (cases "hasPathRules val")
  case True
  obtain strs rules rs where r: "stringsFor a w = Inr strs"
    "mapRes (checkPath lib fs a rules) strs = Inr rs"
    "v = (case w of GoStrings ss \<Rightarrow> GoStrings rs | _ \<Rightarrow> GoString (hd rs))"
    using applyPathValidation_result [OF assms(1) True] by blast
  have "(\<exists>s. w = GoString s) \<or> w = GoStrings strs" using r(1) by (cases w) auto
  then show ?thesis using r(3) mapRes_length [OF r(2)] assms(2) True by auto
next
  case False
  then show ?thesis using assms by (auto simp: applyPathValidation_def hasPathRules_def)
qed

lemma overlong_None: "overlong limit i ss = None \<Longrightarrow> s \<in> set ss \<Longrightarrow> int (length s) \<le> limit"
  by (induction limit i ss rule: overlong.induct) (auto split: if_splits)

lemma byte_limit_values:
  assumes "applyStringByteLimit a w = None" and "conforms (argType a) w" and "s \<in> set (valuesOf w)"
  shows "int (length s) \<le> stringLimit a"
proof -
  have t: "stringsFor a w = Inr (valuesOf w)" and
    k: "argType a = ArgString \<or> argType a = ArgPath \<or> argType a = ArgStringArray"
    using assms(2,3) by (cases w; auto simp: valuesOf_def)+
  have "overlong (stringLimit a) 0 (valuesOf w) = None"
    using assms(1) k t by (auto simp: applyStringByteLimit_def Let_def split: option.splits if_splits)
  with overlong_None assms(3) show ?thesis by blast
qed

text \<open>What validation guarantees of one value.\<close>

definition wellFormedValue :: "Arg \<Rightarrow> any \<Rightarrow> bool" where
  "wellFormedValue a v \<longleftrightarrow> conforms (argType a) v
     \<and> (isArrayType (argType a) \<longrightarrow> arrayLen v \<le> itemLimit a)
     \<and> (\<forall>lit. v = GoNumber lit \<longrightarrow> length lit \<le> maxNumberLiteralBytes)
     \<and> ((case argValidation a of None \<Rightarrow> True | Some val \<Rightarrow> \<not> hasPathRules val) \<longrightarrow>
          (\<forall>s \<in> set (valuesOf v). int (length s) \<le> stringLimit a))"

lemma applyValidation_wellFormed:
  assumes "coerce lib a v0 = Inr w" and "applyValidation lib fs a w = Inr v"
  shows "wellFormedValue a v"
proof -
  note c = coerce_conforms [OF assms(1)] and p = applyValidation_parts [OF assms(2)]
  have items: "isArrayType (argType a) \<Longrightarrow> arrayLen w \<le> itemLimit a"
    using p(2) by (auto simp: applyArrayItemLimit_def)
  show ?thesis
  proof (cases "argValidation a")
    case None
    with p(3) have "v = w" by blast
    then show ?thesis
      using c items coerce_number [of lib a v0] assms(1) byte_limit_values [OF p(1) c]
      unfolding wellFormedValue_def by simp
  next
    case (Some val)
    note pc = path_conforms [OF p(4) [OF Some] c]
    have q: "conforms (argType a) v" "arrayLen v = arrayLen w" "\<not> hasPathRules val \<Longrightarrow> v = w"
      "\<And>lit. v = GoNumber lit \<Longrightarrow> w = GoNumber lit" using pc by blast+
    have "length lit \<le> maxNumberLiteralBytes" if "v = GoNumber lit" for lit
      using coerce_number [of lib a v0 lit] assms(1) q(4) [OF that] by blast
    moreover have "\<forall>s \<in> set (valuesOf v). int (length s) \<le> stringLimit a" if "\<not> hasPathRules val"
      using q(3) [OF that] byte_limit_values [OF p(1) c] by blast
    moreover have "isArrayType (argType a) \<Longrightarrow> arrayLen v \<le> itemLimit a" using items q(2) by simp
    ultimately show ?thesis using q(1) Some unfolding wellFormedValue_def by simp
  qed
qed


subsection \<open>Witnesses\<close>

definition sampleFS :: FS where
  "sampleFS = (let known = [''/'', ''/var/log'', ''/etc/emisar'', ''/work''] in
     \<lparr>evalSymlinks = (\<lambda>p. if p \<in> set known then Some p else None),
      lstat = (\<lambda>p. if p \<in> set known then StatOK else StatNotExist),
      getwd = Some ''/work''\<rparr>)"

definition noRules :: Validation where
  "noRules = \<lparr>Enum = [], Pattern = '''', Min = None, Max = None, Allowed = [], AllowedPaths = [],
     DeniedPaths = [], AllowedPrefixes = [], DeniedPrefixes = [], MaxItems = None, MaxLength = None,
     MinDuration = None, MaxDuration = None\<rparr>"

definition logArg :: Arg where
  "logArg = \<lparr>argName = ''file'', argType = ArgPath, Required = True, Sensitive = False, Default = GoNil,
     argDescription = '''', argValidation = Some (noRules\<lparr>AllowedPrefixes := [''/var/log'']\<rparr>)\<rparr>"

definition logRaw :: args where
  "logRaw = [(''file'', GoString ''/var/log/x/../app.log'')]"

lemma log_validated:
  "validateArgs sampleLib sampleFS [logArg] logRaw [''/etc/emisar''] ''/work''
     = Inr [(''file'', GoString ''/var/log/app.log'')]"
  by code_simp

theorem accepted_paths_contained_witness:
  "validateArgs sampleLib sampleFS [logArg] logRaw [''/etc/emisar''] ''/work''
     = Inr [(''file'', GoString ''/var/log/app.log'')]
   \<and> pathAllowed sampleFS (noRules\<lparr>AllowedPrefixes := [''/var/log'']\<rparr>) ''/var/log/app.log''"
  using accepted_paths_contained [OF log_validated, of logArg "GoString ''/var/log/app.log''"
      "noRules\<lparr>AllowedPrefixes := [''/var/log'']\<rparr>" "''/var/log/app.log''"] log_validated
  by (simp add: logArg_def hasPathRules_def valuesOf_def)

theorem protected_state_refused_witness:
  "validateArgs sampleLib sampleFS [logArg] logRaw [''/etc/emisar''] ''/work''
     = Inr [(''file'', GoString ''/var/log/app.log'')]
   \<and> (\<exists>path target. denotes sampleFS ''/work'' ''/var/log/app.log'' path
        \<and> resolveRuleForCheck sampleFS path = Inr target)
   \<and> validateArgs sampleLib sampleFS [logArg\<lparr>argValidation := None\<rparr>]
       [(''file'', GoString ''/var/../etc/EMISAR/runner.env'')] [''/etc/EMISAR''] ''/work''
     = Inl (protectedPathError logArg ''/etc/EMISAR/runner.env'')"
proof -
  have "validateArgs sampleLib sampleFS [logArg\<lparr>argValidation := None\<rparr>]
       [(''file'', GoString ''/var/../etc/EMISAR/runner.env'')] [''/etc/EMISAR''] ''/work''
     = Inl (protectedPathError logArg ''/etc/EMISAR/runner.env'')" by code_simp
  with protected_state_refused [OF log_validated, of logArg "GoString ''/var/log/app.log''"
      "''/var/log/app.log''" "''/etc/emisar''"] log_validated
  show ?thesis by (auto simp: logArg_def valuesOf_def)
qed


subsection \<open>A case variant that changes length escapes the prefix comparison\<close>

text \<open>Unicode's simple folding of the long s (U+017F) to the letter s, in UTF-8.\<close>

definition longS :: string where "longS = [CHR 0xC5, CHR 0xBF]"

definition foldsLongS :: "(nat \<Rightarrow> nat) \<Rightarrow> bool" where
  "foldsLongS f \<longleftrightarrow> f 383 = f 115"

text \<open>C16: The deny comparison of whole paths folds case, but the comparison with a prefix first cuts
  the path at the prefix's byte length.  A case variant with a different length, such as the
  long s for s, is therefore recognised when it names the protected directory itself and missed
  for everything inside it.\<close>

theorem prefix_fold_gap:
  assumes "foldsLongS (foldRune lib)"
  shows "pathInDenyList lib (''/etc/emi'' @ longS @ ''ar'') [''/etc/emisar'']
    \<and> \<not> prefixInDenyList lib (''/etc/emi'' @ longS @ ''ar/runner.env'') [''/etc/emisar'']
    \<and> equalFold (foldRune lib) (''/etc/emi'' @ longS @ ''ar/runner.env'') ''/etc/emisar/runner.env''"
proof -
  have r: "runes (''/etc/emi'' @ longS @ ''ar'') = [47, 101, 116, 99, 47, 101, 109, 105, 383, 97, 114]"
    "runes ''/etc/emisar'' = [47, 101, 116, 99, 47, 101, 109, 105, 115, 97, 114]"
    "runes (''/etc/emi'' @ longS @ ''ar/runner.env'')
      = [47, 101, 116, 99, 47, 101, 109, 105, 383, 97, 114, 47, 114, 117, 110, 110, 101, 114, 46, 101, 110, 118]"
    "runes ''/etc/emisar/runner.env''
      = [47, 101, 116, 99, 47, 101, 109, 105, 115, 97, 114, 47, 114, 117, 110, 110, 101, 114, 46, 101, 110, 118]"
    by code_simp+
  have c: "cleanPath ''/etc/emisar'' = ''/etc/emisar''" by code_simp
  have "\<not> underPrefix (Some f) (''/etc/emi'' @ longS @ ''ar/runner.env'') ''/etc/emisar''" for f
    by (simp add: underPrefix_def slash_def longS_def)
  with assms r c show ?thesis
    by (simp add: pathInDenyList_def prefixInDenyList_def equalFold_def foldsLongS_def)
qed

theorem prefix_fold_gap_witness:
  "foldsLongS (\<lambda>r. if r = 383 then 115 else r)
   \<and> \<not> prefixInDenyList (sampleLib\<lparr>foldRune := (\<lambda>r. if r = 383 then 115 else r)\<rparr>)
        (''/etc/emi'' @ longS @ ''ar/runner.env'') [''/etc/emisar'']"
proof -
  have f: "foldsLongS (\<lambda>r. if r = 383 then 115 else r)" by (simp add: foldsLongS_def)
  then show ?thesis using prefix_fold_gap [of "sampleLib\<lparr>foldRune := (\<lambda>r. if r = 383 then 115 else r)\<rparr>"] by simp
qed

end
