(* ===== verification/Engine_Run.thy ===== *)
theory Engine_Run
  imports Engine Redact_Stream Arg_Validation Admission
begin

text \<open>
  The action runtime (\<open>runner/internal/engine/engine.go\<close>), second half: the classification of an
  outcome, redaction of arguments and of the recorded command line, the audit events of
  \<open>runner/internal/audit/event.go\<close>, and \<open>Run\<close> itself, from the reason check to the result.
  Everything outside the package is one argument \<open>Host\<close>: the Go library, the file system, the
  process, the output schema's validator, and the text of errors.  The journal is the list of
  events it accepted with a function that decides the outcome of each attempt.
\<close>

subsection \<open>The host and the journal\<close>

record 'v Host =
  hLib :: GoLib
  hRegex :: RegexLib
  hJson :: JsonLib
  hDefaultRules :: "RedactionRule list"
  hSha :: "string \<Rightarrow> string"
  hReadFile :: "string \<Rightarrow> string option"
  hFS :: FS
  hInherit :: "string list"
  hLookupEnv :: "string \<Rightarrow> string option"
  hProcess :: "Plan \<Rightarrow> ProcRun"
  hMergeOrder :: "bool list"
  hSchema :: "'v \<Rightarrow> string \<Rightarrow> (string \<times> string) + json \<times> string"
  hUnmarshal :: "string \<Rightarrow> string + json"
  hMarshalArgs :: "args \<Rightarrow> string option"
  hSprint :: "any \<Rightarrow> string"
  hRefusal :: "refusal \<Rightarrow> string"
  hArgError :: "ArgError \<Rightarrow> string"
  hRenderError :: "render_error \<Rightarrow> string"
  hScriptError :: "script_error \<Rightarrow> string"
  hExecError :: "exec_error \<Rightarrow> string"

record RequestInfo =
  riArgsSHA256 :: string
  riArgsRedacted :: args
  riReason :: string

record ExecutionInfo =
  eiBinary :: string
  eiArgv :: "string list"
  eiArgvSHA256 :: string
  eiCWD :: string
  eiEnvKeys :: "string list"
  eiTimeout :: string
  eiExitCode :: int
  eiDurationMS :: int
  eiTimedOut :: bool
  eiStdoutSHA256 :: string
  eiStderrSHA256 :: string
  eiStdoutPreview :: string
  eiStderrPreview :: string
  eiStdoutBytes :: int
  eiStderrBytes :: int
  eiScriptSHA256 :: string
  eiExecutedCommand :: string

record Event =
  evType :: string
  evRequestID :: string
  evPackID :: string
  evActionID :: string
  evRequest :: "RequestInfo option"
  evMetadata :: "(string \<times> string) option"
  evExecution :: "ExecutionInfo option"
  evRedactions :: "Hit list"
  evError :: string

definition EventValidationFailed :: string where "EventValidationFailed = ''validation_failed''"
definition EventDispatchRefused :: string where "EventDispatchRefused = ''dispatch_refused''"
definition EventExecutionStarted :: string where "EventExecutionStarted = ''execution_started''"
definition EventExecutionCompleted :: string where "EventExecutionCompleted = ''execution_completed''"
definition EventExecutionFailed :: string where "EventExecutionFailed = ''execution_failed''"
definition EventActionCancelled :: string where "EventActionCancelled = ''action_cancelled''"
definition EventActionBlockedByAdmission :: string where
  "EventActionBlockedByAdmission = ''action_blocked_by_admission''"

lemmas eventTypes = EventValidationFailed_def EventDispatchRefused_def EventExecutionStarted_def
  EventExecutionCompleted_def EventExecutionFailed_def EventActionCancelled_def
  EventActionBlockedByAdmission_def

text \<open>\<open>jrOutcome\<close> is what \<open>Record\<close> answers to the \<open>n\<close>-th attempt: an event id, or failure.\<close>

record Journal =
  jrAttempts :: "Event list"
  jrOutcome :: "nat \<Rightarrow> string option"

definition recordJournal :: "Journal \<Rightarrow> Event \<Rightarrow> string option \<times> Journal" where
  "recordJournal j ev =
    (jrOutcome j (length (jrAttempts j)), j\<lparr>jrAttempts := jrAttempts j @ [ev]\<rparr>)"

definition journalEvent :: "Journal \<Rightarrow> Event \<Rightarrow> string \<times> Journal" where
  "journalEvent j ev =
    (case recordJournal j ev of (Some eid, j') \<Rightarrow> (eid, j') | (None, j') \<Rightarrow> ('''', j'))"

definition baseEvent :: "'v Request \<Rightarrow> string \<Rightarrow> Event" where
  "baseEvent req t = \<lparr>evType = t, evRequestID = ControlPlaneRequestID req, evPackID = '''',
     evActionID = '''', evRequest = None, evMetadata = None, evExecution = None,
     evRedactions = [], evError = ''''\<rparr>"

definition metaFor :: "Action \<Rightarrow> string \<times> string" where
  "metaFor a = (actKind a, actRisk a)"

definition actionEvent :: "'v Request \<Rightarrow> Action \<Rightarrow> string \<Rightarrow> Event" where
  "actionEvent req act t =
    (baseEvent req t)\<lparr>evPackID := PackID act, evActionID := actID act, evMetadata := Some (metaFor act)\<rparr>"

definition reasonOnly :: "'v Request \<Rightarrow> RequestInfo" where
  "reasonOnly req = \<lparr>riArgsSHA256 = '''', riArgsRedacted = [], riReason = reqReason req\<rparr>"

text \<open>The registry and state an engine holds.\<close>

record 'v Engine =
  engRegistry :: "'v Registry option"
  engAdmission :: "Policy option"
  engRedactor :: redactor
  engPreviewBytes :: int
  engCancelGrace :: int
  engProtectedPaths :: "string list"

text \<open>\<open>New\<close> defaults the preview size; the other fields are the configuration's.\<close>

definition newEngine :: "'v Engine \<Rightarrow> 'v Engine" where
  "newEngine cfg = (if engPreviewBytes cfg \<le> 0 then cfg\<lparr>engPreviewBytes := 4096\<rparr> else cfg)"

definition registryFor :: "'v Engine \<Rightarrow> 'v Request \<Rightarrow> 'v Registry option" where
  "registryFor e req = (case RegistrySnapshot req of None \<Rightarrow> engRegistry e | Some r \<Rightarrow> Some r)"

definition recordPreExecutionEvent ::
  "'v Engine \<Rightarrow> Journal \<Rightarrow> 'v Request \<Rightarrow> string \<Rightarrow> string \<Rightarrow> string \<times> Journal" where
  "recordPreExecutionEvent e j req t detail =
    (let ev = (baseEvent req t)\<lparr>evActionID := reqActionID req, evRequest := Some (reasonOnly req),
          evError := detail\<rparr> in
     journalEvent j
      (case Option.bind (registryFor e req) (\<lambda>reg. actionOf reg (reqActionID req)) of
         Some act \<Rightarrow> ev\<lparr>evPackID := PackID act, evActionID := actID act, evMetadata := Some (metaFor act)\<rparr>
       | None \<Rightarrow> ev))"

definition recordDispatchRefusal where
  "recordDispatchRefusal e j req detail = recordPreExecutionEvent e j req EventDispatchRefused detail"

definition recordDispatchCancellation where
  "recordDispatchCancellation e j req detail = recordPreExecutionEvent e j req EventActionCancelled detail"

definition recordExecutionFailure where
  "recordExecutionFailure e j req detail = recordPreExecutionEvent e j req EventExecutionFailed detail"

definition refuse ::
  "Journal \<Rightarrow> Event \<Rightarrow> string \<Rightarrow> string \<Rightarrow> string \<Rightarrow> EngineResult \<times> Journal" where
  "refuse j ev status actionID reason =
    (case journalEvent j ev of (eid, j') \<Rightarrow>
      (zeroEngineResult\<lparr>engStatus := status, engEventID := eid, engLocalAuditFailed := (eid = ''''),
         engActionID := actionID, engReason := reason\<rparr>, j'))"

subsection \<open>Sensitive arguments\<close>

definition sensitiveValues :: "'v Host \<Rightarrow> args \<Rightarrow> Arg list \<Rightarrow> string list" where
  "sensitiveValues h args schema =
    longestFirst (uniqueLiterals [] (concat (map
      (\<lambda>a. if \<not> Sensitive a then []
        else case map_of args (argName a) of
          None \<Rightarrow> []
        | Some v \<Rightarrow> argStrings (hLib h) v @ [hSprint h v]) schema)))"

definition redactedMark :: string where "redactedMark = ''[REDACTED]''"

definition sensitiveArgsRule :: string where "sensitiveArgsRule = ''sensitive-args''"

definition redactSensitiveValues :: "'v Host \<Rightarrow> string \<Rightarrow> args \<Rightarrow> Arg list \<Rightarrow> string" where
  "redactSensitiveValues h value args schema =
    (let secrets = sensitiveValues h args schema in
     if secrets = [] then value
     else fst (redactApply (hLib h) (hRegex h)
       (Some [literalSet sensitiveArgsRule secrets redactedMark]) value))"

definition redactInvocationValue ::
  "'v Host \<Rightarrow> redactor \<Rightarrow> string \<Rightarrow> args \<Rightarrow> Arg list \<Rightarrow> string" where
  "redactInvocationValue h red value args schema =
    (if red = None then redactSensitiveValues h value args schema
     else fst (redactApply (hLib h) (hRegex h) red value))"

fun redactArgValue :: "GoLib \<Rightarrow> RegexLib \<Rightarrow> redactor \<Rightarrow> any \<Rightarrow> any" where
  "redactArgValue lib re red (GoString s) = GoString (fst (redactApply lib re red s))"
| "redactArgValue lib re red (GoStrings ss) = GoStrings (map (\<lambda>s. fst (redactApply lib re red s)) ss)"
| "redactArgValue lib re red (GoAnys vs) = GoAnys (map (redactArgValue lib re red) vs)"
| "redactArgValue lib re red v = v"

definition redactArgs :: "'v Host \<Rightarrow> redactor \<Rightarrow> args \<Rightarrow> Arg list \<Rightarrow> args" where
  "redactArgs h red args schema =
    map (\<lambda>kv. (fst kv,
      if \<exists>a \<in> set schema. Sensitive a \<and> argName a = fst kv then GoString redactedMark
      else if red \<noteq> None then redactArgValue (hLib h) (hRegex h) red (snd kv)
      else snd kv)) args"

definition redactedInvocation ::
  "'v Host \<Rightarrow> redactor \<Rightarrow> string \<Rightarrow> string list \<Rightarrow> args \<Rightarrow> Arg list \<Rightarrow> string list \<times> string" where
  "redactedInvocation h red binary argv args schema =
    (let hide = (\<lambda>s. redactInvocationValue h red s args schema); redactedArgv = map hide argv in
     (redactedArgv, joinWith '' '' (map shellQuote (hide binary # redactedArgv))))"

definition validationFailureDetail :: "'v Host \<Rightarrow> ArgError \<Rightarrow> args \<Rightarrow> Arg list \<Rightarrow> string" where
  "validationFailureDetail h err args schema =
    (if \<exists>a \<in> set schema. argName a = errArg err \<and> Sensitive a \<and> map_of args (argName a) \<noteq> None
     then ''argument '' @ errArg err @ '': rejected sensitive value ('' @ errCode err @ '')''
     else redactSensitiveValues h (hArgError h err) args schema)"

definition emptyRedactor :: redactor where "emptyRedactor = Some []"

definition combinedRedactor :: "'v Host \<Rightarrow> redactor \<Rightarrow> Action \<Rightarrow> args \<Rightarrow> redactor" where
  "combinedRedactor h red act args =
    (let global = (if red = None then emptyRedactor else red);
         secrets = sensitiveValues h args (actArgs act); authoredRules = Redact (actOutput act) in
     if secrets = [] \<and> authoredRules = [] then global
     else extendEngine global
       ((if secrets = [] then [] else [literalSet sensitiveArgsRule secrets redactedMark])
        @ (case compileAll (hRegex h) (hDefaultRules h) [authoredRules] of Inl e \<Rightarrow> [] | Inr rs \<Rightarrow> rs)))"

subsection \<open>Event details\<close>

definition hashArgs :: "'v Host \<Rightarrow> args \<Rightarrow> string" where
  "hashArgs h args = (case hMarshalArgs h args of None \<Rightarrow> ''unhashable'' | Some b \<Rightarrow> hSha h b)"

definition hashOutput :: "'v Host \<Rightarrow> string \<Rightarrow> string" where
  "hashOutput h out = hSha h out"

definition argvSHA256 :: "'v Host \<Rightarrow> string \<Rightarrow> string list \<Rightarrow> string" where
  "argvSHA256 h binary argv = hSha h (joinWith [CHR 0x00] (binary # argv))"

definition requestInfo :: "'v Host \<Rightarrow> 'w Request \<Rightarrow> args \<Rightarrow> RequestInfo" where
  "requestInfo h req redacted =
    \<lparr>riArgsSHA256 = hashArgs h redacted, riArgsRedacted = redacted, riReason = reqReason req\<rparr>"

definition executionStartInfo :: "'v Host \<Rightarrow> Plan \<Rightarrow> string \<Rightarrow> string list \<Rightarrow> ExecutionInfo" where
  "executionStartInfo h plan scriptSHA auditArgv =
    \<lparr>eiBinary = planBinary plan, eiArgv = auditArgv,
     eiArgvSHA256 = argvSHA256 h (planBinary plan) auditArgv, eiCWD = planCWD plan,
     eiEnvKeys = sort (map fst (planEnv plan)),
     eiTimeout = durationString (hLib h) (limTimeout (planLimits plan)), eiExitCode = 0,
     eiDurationMS = 0, eiTimedOut = False, eiStdoutSHA256 = '''', eiStderrSHA256 = '''',
     eiStdoutPreview = '''', eiStderrPreview = '''', eiStdoutBytes = 0, eiStderrBytes = 0,
     eiScriptSHA256 = scriptSHA, eiExecutedCommand = ''''\<rparr>"

definition executionInfo ::
  "'v Host \<Rightarrow> int \<Rightarrow> ExecResult \<Rightarrow> string \<Rightarrow> string \<Rightarrow> string \<Rightarrow> Plan \<Rightarrow> string list \<Rightarrow> ExecutionInfo" where
  "executionInfo h preview r out err scriptSHA plan auditArgv =
    \<lparr>eiBinary = xBinary r, eiArgv = auditArgv, eiArgvSHA256 = argvSHA256 h (xBinary r) auditArgv,
     eiCWD = xCWD r, eiEnvKeys = xEnvKeys r,
     eiTimeout = durationString (hLib h) (limTimeout (planLimits plan)), eiExitCode = xExitCode r,
     eiDurationMS = xDurationMS r, eiTimedOut = xTimedOut r, eiStdoutSHA256 = hashOutput h out,
     eiStderrSHA256 = hashOutput h err, eiStdoutPreview = truncatePreview out preview,
     eiStderrPreview = truncatePreview err preview, eiStdoutBytes = int (length out),
     eiStderrBytes = int (length err), eiScriptSHA256 = scriptSHA, eiExecutedCommand = ''''\<rparr>"

subsection \<open>Redacted JSON output\<close>

text \<open>Text, hits, redaction failed, overflow, and the buffer after it.\<close>

record jsonOutput =
  joText :: string
  joHits :: "Hit list"
  joFailed :: bool
  joOverflow :: bool
  joBuf :: boundedOutput

definition redactJSONOutput :: "'v Host \<Rightarrow> redactor \<Rightarrow> string \<Rightarrow> boundedOutput \<Rightarrow> bool \<Rightarrow> jsonOutput" where
  "redactJSONOutput h red raw out truncated =
    (let asText = (case applyOutput (hLib h) (hRegex h) red raw truncated False of (text, hits) \<Rightarrow>
        (case takeOutput out (normalizeUTF8 text) of (shown, out') \<Rightarrow>
          \<lparr>joText = shown, joHits = hits, joFailed = False, joOverflow = False, joBuf = out'\<rparr>)) in
     if truncated then asText
     else case applyJSON (hLib h) (hRegex h) (hJson h) red raw of
       (redacted, hits, None) \<Rightarrow>
         if boLimit out < int (length redacted)
         then \<lparr>joText = '''', joHits = hits, joFailed = False, joOverflow = True, joBuf = out\<rparr>
         else \<lparr>joText = redacted, joHits = hits, joFailed = False, joOverflow = False, joBuf = out\<rparr>
     | (redacted, hits, Some ErrInvalidJSON) \<Rightarrow> asText
     | (redacted, hits, Some e) \<Rightarrow>
         \<lparr>joText = redacted, joHits = hits, joFailed = True, joOverflow = False, joBuf = out\<rparr>)"

subsection \<open>The outcome of a run\<close>

definition successExit :: "int \<Rightarrow> int list \<Rightarrow> bool" where
  "successExit code allowed \<longleftrightarrow> code \<in> set allowed"

definition reasonForStatus :: "string \<Rightarrow> ExecResult \<Rightarrow> string" where
  "reasonForStatus s r =
    (if s = StatusSuccess then ''''
     else if s = StatusTimedOut then ''execution timed out''
     else if s = StatusCancelled then ''execution cancelled''
     else if xStatus r = ExecFailed then xStartError r
     else if xExitCode r \<noteq> 0 then ''process exited with code '' @ formatInt (xExitCode r)
     else '''')"

definition parseOutput :: "'v Host \<Rightarrow> Parser \<Rightarrow> string \<Rightarrow> json option \<times> string" where
  "parseOutput h parser out =
    (if parser \<noteq> ParserJSON then (None, '''')
     else case hUnmarshal h out of Inl e \<Rightarrow> (None, e) | Inr v \<Rightarrow> (Some v, ''''))"

record outcome =
  oStatus :: string
  oEventType :: string
  oReason :: string
  oResultError :: string
  oParsed :: "json option"
  oStructured :: string
  oParserError :: string

definition processOutcome :: "Action \<Rightarrow> ExecResult \<Rightarrow> outcome" where
  "processOutcome act r =
    (let out = (\<lambda>t s. \<lparr>oStatus = s, oEventType = t, oReason = reasonForStatus s r, oResultError = '''',
          oParsed = None, oStructured = '''', oParserError = ''''\<rparr>) in
     if xStatus r = StatusTimeout then out EventExecutionFailed StatusTimedOut
     else if xStatus r = ExecCancelled then out EventActionCancelled StatusCancelled
     else if xStatus r = ExecFailed then out EventExecutionFailed StatusError
     else if xExitCode r \<noteq> 0 \<and> \<not> successExit (xExitCode r) (SuccessExitCodes (actExecution act))
       then out EventExecutionCompleted StatusFailed
     else out EventExecutionCompleted StatusSuccess)"

text \<open>The four assignments of a validation failure; \<open>perr\<close> is the parser error.\<close>

definition failValidation :: "outcome \<Rightarrow> string \<Rightarrow> string \<Rightarrow> outcome" where
  "failValidation out reason err =
    out\<lparr>oStatus := StatusValidationFailed, oReason := reason, oResultError := err, oParserError := err\<rparr>"

definition validateStructuredOutput ::
  "'v Host \<Rightarrow> Action \<Rightarrow> 'v Registry \<Rightarrow> ExecResult \<Rightarrow> string \<Rightarrow> outcome \<Rightarrow> outcome" where
  "validateStructuredOutput h act reg r redactedStdout out =
    (if xTruncatedStdout r
       then failValidation out ''output_truncated'' ''structured output was truncated before validation''
     else case outputSchema reg (actID act) of
       None \<Rightarrow> failValidation out ''output_schema_unavailable'' ''structured output schema is unavailable''
     | Some v \<Rightarrow>
         (case hSchema h v redactedStdout of
            Inl (code, msg) \<Rightarrow> failValidation out code msg
          | Inr (value, raw) \<Rightarrow> out\<lparr>oParsed := Some value, oStructured := raw\<rparr>))"

definition parsedOutcome :: "'v Host \<Rightarrow> Action \<Rightarrow> string \<Rightarrow> outcome \<Rightarrow> outcome" where
  "parsedOutcome h act redactedStdout out =
    (case parseOutput h (outParser (actOutput act)) redactedStdout of (parsed, perr) \<Rightarrow>
      let out' = out\<lparr>oParsed := parsed, oParserError := perr\<rparr> in
      if oStatus out = StatusSuccess \<and> ParserRequired (actOutput act) \<and> perr \<noteq> ''''
      then out'\<lparr>oStatus := StatusValidationFailed, oReason := ''output_invalid_json'',
             oResultError := ''required output is not valid JSON''\<rparr>
      else out')"

definition classifyOutcome ::
  "'v Host \<Rightarrow> Action \<Rightarrow> 'v Registry \<Rightarrow> ExecResult \<Rightarrow> string \<Rightarrow> bool \<Rightarrow> bool \<Rightarrow> outcome" where
  "classifyOutcome h act reg r redactedStdout jsonRedactionFailed redactionOverflow =
    (let out = processOutcome act r; ok = (oStatus out = StatusSuccess);
         out' =
           (if ok \<and> jsonRedactionFailed
              then failValidation out ''output_redaction_invalid_json''
                     ''output redaction could not preserve the JSON document''
            else if ok \<and> redactionOverflow
              then failValidation out ''output_redaction_exceeded_limit''
                     ''redacted structured output exceeded its byte limit''
            else if ok \<and> hasSchema (actOutput act)
              then validateStructuredOutput h act reg r redactedStdout out
            else if \<not> hasSchema (actOutput act) then parsedOutcome h act redactedStdout out
            else out) in
     if oStatus out' = StatusValidationFailed then out'\<lparr>oEventType := EventValidationFailed\<rparr> else out')"

subsection \<open>Streaming\<close>

text \<open>The two streams' chunks arrive in some order of their own goroutines: \<open>True\<close> is standard
  output.  When the order is used up the rest of one stream follows the other.\<close>

fun mergeStreams :: "bool list \<Rightarrow> string list \<Rightarrow> string list \<Rightarrow> (bool \<times> string) list" where
  "mergeStreams (True # bs) (o' # os) es = (True, o') # mergeStreams bs os es"
| "mergeStreams (False # bs) os (e # es) = (False, e) # mergeStreams bs os es"
| "mergeStreams bs os es = map (Pair True) os @ map (Pair False) es"

record Streams =
  stOutRed :: StreamRedactor
  stErrRed :: StreamRedactor
  stOutBuf :: boundedOutput
  stErrBuf :: boundedOutput
  stRaw :: string
  stProgress :: "(bool \<times> string) list"

text \<open>Redacted bytes become valid UTF-8, are cut to the limit, and are sent on when any remain.\<close>

definition ship :: "bool \<Rightarrow> string \<Rightarrow> Streams \<Rightarrow> Streams" where
  "ship isOut emitted st =
    (if emitted = '''' then st
     else case takeOutput (if isOut then stOutBuf st else stErrBuf st) (normalizeUTF8 emitted) of
       (shown, buf) \<Rightarrow>
         (let st' = (if isOut then st\<lparr>stOutBuf := buf\<rparr> else st\<lparr>stErrBuf := buf\<rparr>) in
          if shown = '''' then st' else st'\<lparr>stProgress := stProgress st' @ [(isOut, shown)]\<rparr>))"

definition onChunk :: "GoLib \<Rightarrow> RegexLib \<Rightarrow> bool \<Rightarrow> Streams \<Rightarrow> bool \<times> string \<Rightarrow> Streams" where
  "onChunk lib re structuredJSON st chunk =
    (case chunk of (isOut, data) \<Rightarrow>
      if isOut \<and> structuredJSON then st\<lparr>stRaw := stRaw st @ data\<rparr>
      else if isOut
        then (case writeStream lib re (stOutRed st) data of (emitted, sr) \<Rightarrow>
          ship True emitted (st\<lparr>stOutRed := sr\<rparr>))
      else (case writeStream lib re (stErrRed st) data of (emitted, sr) \<Rightarrow>
          ship False emitted (st\<lparr>stErrRed := sr\<rparr>)))"

record redactedRun =
  rrStdout :: string
  rrStderr :: string
  rrHits :: "Hit list"
  rrJSONFailed :: bool
  rrOverflow :: bool
  rrTruncatedOut :: bool
  rrTruncatedErr :: bool
  rrProgress :: "(bool \<times> string) list"

definition initStreams :: "redactor \<Rightarrow> Limits \<Rightarrow> Streams" where
  "initStreams red lims = \<lparr>stOutRed = streamRedactor red, stErrRed = streamRedactor red,
     stOutBuf = newOutput (limMaxStdoutBytes lims), stErrBuf = newOutput (limMaxStderrBytes lims),
     stRaw = '''', stProgress = []\<rparr>"

definition finishStreaming ::
  "'v Host \<Rightarrow> redactor \<Rightarrow> bool \<Rightarrow> ExecResult \<Rightarrow> Streams \<Rightarrow> redactedRun" where
  "finishStreaming h red structuredJSON r st =
    (let lib = hLib h; re = hRegex h;
         (text, hits, failed, overflow, st1) =
           (if structuredJSON
            then let jo = redactJSONOutput h red (stRaw st) (stOutBuf st) (xTruncatedStdout r) in
              (joText jo, joHits jo, joFailed jo, joOverflow jo,
               st\<lparr>stOutBuf := joBuf jo,
                 stProgress := stProgress st @ (if joText jo = '''' then [] else [(True, joText jo)])\<rparr>)
            else case flushStream lib re (stOutRed st) (xTruncatedStdout r) of (tail, sr) \<Rightarrow>
              (let st' = ship True tail (st\<lparr>stOutRed := sr\<rparr>) in
               (boBuf (stOutBuf st'), srHits sr, False, False, st')));
         (etail, esr) = flushStream lib re (stErrRed st1) (xTruncatedStderr r);
         st2 = ship False etail (st1\<lparr>stErrRed := esr\<rparr>) in
     \<lparr>rrStdout = text, rrStderr = boBuf (stErrBuf st2), rrHits = mergeHits [hits, srHits esr],
      rrJSONFailed = failed, rrOverflow = overflow,
      rrTruncatedOut = (xTruncatedStdout r \<or> overflow \<or> boTruncated (stOutBuf st2)),
      rrTruncatedErr = (xTruncatedStderr r \<or> boTruncated (stErrBuf st2)),
      rrProgress = stProgress st2\<rparr>)"

definition redactWhole :: "'v Host \<Rightarrow> redactor \<Rightarrow> bool \<Rightarrow> Limits \<Rightarrow> ExecResult \<Rightarrow> redactedRun" where
  "redactWhole h red structuredJSON lims r =
    (let lib = hLib h; re = hRegex h;
         buf = newOutput (limMaxStdoutBytes lims);
         jo = (if structuredJSON then redactJSONOutput h red (xStdout r) buf (xTruncatedStdout r)
               else case applyOutput lib re red (xStdout r) (xTruncatedStdout r) False of (text, hits) \<Rightarrow>
                 (case takeOutput buf (normalizeUTF8 text) of (shown, buf') \<Rightarrow>
                   \<lparr>joText = shown, joHits = hits, joFailed = False, joOverflow = False, joBuf = buf'\<rparr>));
         (etext, ehits) = applyOutput lib re red (xStderr r) (xTruncatedStderr r) False;
         (eshown, ebuf) = takeOutput (newOutput (limMaxStderrBytes lims)) (normalizeUTF8 etext) in
     \<lparr>rrStdout = joText jo, rrStderr = eshown, rrHits = mergeHits [joHits jo, ehits],
      rrJSONFailed = joFailed jo, rrOverflow = joOverflow jo,
      rrTruncatedOut = (xTruncatedStdout r \<or> joOverflow jo \<or> boTruncated (joBuf jo)),
      rrTruncatedErr = (xTruncatedStderr r \<or> boTruncated ebuf), rrProgress = []\<rparr>)"

subsection \<open>Run\<close>

text \<open>A call's result: what is returned, the progress sent, the plan handed to the executor (if
  the call got that far) and the journal.\<close>

record runReport =
  rpResult :: EngineResult
  rpProgress :: "(bool \<times> string) list"
  rpStarted :: "Plan option"
  rpJournal :: Journal

definition refused :: "EngineResult \<times> Journal \<Rightarrow> runReport" where
  "refused rj = \<lparr>rpResult = fst rj, rpProgress = [], rpStarted = None, rpJournal = snd rj\<rparr>"

definition emitExecError ::
  "'v Host \<Rightarrow> redactor \<Rightarrow> Journal \<Rightarrow> 'v Request \<Rightarrow> Action \<Rightarrow> args \<Rightarrow> string \<Rightarrow> EngineResult \<times> Journal" where
  "emitExecError h red j req act cleanArgs err =
    (let cr = combinedRedactor h red act cleanArgs;
         detail = redactInvocationValue h cr err cleanArgs (actArgs act) in
     refuse j ((actionEvent req act EventExecutionFailed)
         \<lparr>evRequest := Some (requestInfo h req (redactArgs h cr cleanArgs (actArgs act))), evError := detail\<rparr>)
       StatusError (actID act) detail)"

definition zeroPlan :: Plan where
  "zeroPlan = \<lparr>planBinary = '''', planArgv = [], planCWD = '''', planEnv = [],
     planLimits = \<lparr>limTimeout = 0, limMaxStdoutBytes = 0, limMaxStderrBytes = 0\<rparr>,
     planScriptSHA256 = '''', planUser = '''', planCancelGrace = 0, planStreaming = False\<rparr>"

text \<open>The argument templates of the action's kind.  \<open>None\<close> is the nil dereference of an exec
  action without a command, which no loaded action is.\<close>

definition argvTemplates :: "Action \<Rightarrow> string list option" where
  "argvTemplates act =
    (if actKind act = KindExec then map_option cmdArgv (exCommand (actExecution act))
     else if actKind act = KindScript then Some (exArgv (actExecution act))
     else Some [])"

text \<open>From validated arguments to an execution plan: the plan with the script hash, or the text of
  the error that ends the run.\<close>

definition makePlan ::
  "'v Host \<Rightarrow> 'v Registry \<Rightarrow> Action \<Rightarrow> Limits \<Rightarrow> string list \<Rightarrow> (string \<times> string) list \<Rightarrow>
     (string + Plan \<times> string) option" where
  "makePlan h reg act limits argv env =
    (if actKind act = KindExec
       then map_option (\<lambda>p. Inr (p, '''')) (planForExec act argv env limits)
     else if actKind act = KindScript then
       (case scriptInfo reg (actID act) of
          None \<Rightarrow> Some (Inl (''script for action '' @ actID act @ '' missing from registry''))
        | Some si \<Rightarrow>
            (case verifyScriptSHA (hSha h) (hReadFile h) si of
               Some err \<Rightarrow> Some (Inl (hScriptError h err))
             | None \<Rightarrow> map_option (\<lambda>p. Inr (p, siSHA256 si))
                 (planForScript act (siPath si) (siSHA256 si) argv env limits)))
     else Some (Inr (zeroPlan, '''')))"

definition preparePlan ::
  "'v Host \<Rightarrow> 'v Engine \<Rightarrow> 'v Registry \<Rightarrow> Action \<Rightarrow> 'v Request \<Rightarrow> args \<Rightarrow> (string + Plan \<times> string) option" where
  "preparePlan h e reg act req cleanArgs =
    (case argvTemplates act of
       None \<Rightarrow> None
     | Some tmpl \<Rightarrow>
         (case renderArgv (hLib h) tmpl cleanArgs True of
            Inl err \<Rightarrow> Some (Inl (hRenderError h err))
          | Inr argv \<Rightarrow>
              (case renderEnv (hLib h) (exEnv (actExecution act)) cleanArgs of
                 Inl err \<Rightarrow> Some (Inl (hRenderError h err))
               | Inr env \<Rightarrow>
                   map_option (map_sum id (\<lambda>(p, sha). (p\<lparr>planCancelGrace :=
                         (if 0 < exCancelGrace (actExecution act) then exCancelGrace (actExecution act)
                          else engCancelGrace e), planStreaming := reqStreaming req\<rparr>, sha)))
                     (makePlan h reg act (clampLimits act (reqOpts req)) argv env))))"

definition startedEvent ::
  "'v Host \<Rightarrow> redactor \<Rightarrow> 'v Request \<Rightarrow> Action \<Rightarrow> args \<Rightarrow> Plan \<Rightarrow> string \<Rightarrow> Event" where
  "startedEvent h cr req act cleanArgs plan sha =
    (case redactedInvocation h cr (planBinary plan) (planArgv plan) cleanArgs (actArgs act) of (argv, cmd) \<Rightarrow>
      (actionEvent req act EventExecutionStarted)
        \<lparr>evRequest := Some (requestInfo h req (redactArgs h cr cleanArgs (actArgs act))),
         evExecution := Some ((executionStartInfo h plan sha argv)\<lparr>eiExecutedCommand := cmd\<rparr>)\<rparr>)"

text \<open>Everything after the process has ended.\<close>

definition finishRunReport ::
  "'v Host \<Rightarrow> 'v Engine \<Rightarrow> redactor \<Rightarrow> Journal \<Rightarrow> 'v Request \<Rightarrow> 'v Registry \<Rightarrow> Action \<Rightarrow> args \<Rightarrow>
     Plan \<Rightarrow> string \<Rightarrow> ExecResult \<Rightarrow> redactedRun \<Rightarrow> EngineResult \<times> Journal" where
  "finishRunReport h e cr j req reg act cleanArgs plan sha r rr =
    (let out = classifyOutcome h act reg r (rrStdout rr) (rrJSONFailed rr) (rrOverflow rr);
         (argv, cmd) = redactedInvocation h cr (xBinary r) (xArgv r) cleanArgs (actArgs act);
         ev = (actionEvent req act (oEventType out))
           \<lparr>evRequest := Some (requestInfo h req (redactArgs h cr cleanArgs (actArgs act))),
            evExecution := Some ((executionInfo h (engPreviewBytes e) r (rrStdout rr) (rrStderr rr) sha plan argv)
              \<lparr>eiExecutedCommand := cmd\<rparr>),
            evRedactions := rrHits rr, evError := oResultError out\<rparr>;
         (eid, j') = journalEvent j ev in
     (\<lparr>engStatus = oStatus out, engEventID = eid, engLocalAuditFailed = (eid = ''''),
       engActionID = actID act, engExitCode = xExitCode r, engStdout = rrStdout rr,
       engStderr = rrStderr rr, engOutput = oParsed out, engStructuredOutput = oStructured out,
       engParserError = oParserError out, engDurationMS = xDurationMS r, engRedactions = rrHits rr,
       engReason = oReason out, engError = oResultError out, engTimedOut = xTimedOut r,
       engStdoutSHA256 = hashOutput h (rrStdout rr), engStderrSHA256 = hashOutput h (rrStderr rr),
       engStdoutBytes = int (length (rrStdout rr)), engStderrBytes = int (length (rrStderr rr)),
       engTruncatedOut = rrTruncatedOut rr, engTruncatedErr = rrTruncatedErr rr,
       engExecutedCommand = cmd\<rparr>, j'))"

definition runPlan ::
  "'v Host \<Rightarrow> 'v Engine \<Rightarrow> Journal \<Rightarrow> 'v Request \<Rightarrow> 'v Registry \<Rightarrow> Action \<Rightarrow> args \<Rightarrow> Plan \<Rightarrow> string \<Rightarrow>
     runReport" where
  "runPlan h e j req reg act cleanArgs plan sha =
    (let cr = combinedRedactor h (engRedactor e) act cleanArgs;
         structuredJSON = (outParser (actOutput act) = ParserJSON) in
     case recordJournal j (startedEvent h cr req act cleanArgs plan sha) of
       (None, j1) \<Rightarrow>
         refused (zeroEngineResult\<lparr>engStatus := StatusError, engLocalAuditFailed := True,
           engActionID := actID act,
           engReason := ''local audit unavailable; action was not executed''\<rparr>, j1)
     | (Some eid, j1) \<Rightarrow>
         (case execute (hInherit h) (hLookupEnv h) plan (hProcess h plan) of
            Inl err \<Rightarrow>
              (let rj = emitExecError h (engRedactor e) j1 req act cleanArgs (hExecError h err) in
               \<lparr>rpResult = fst rj, rpProgress = [], rpStarted = Some plan, rpJournal = snd rj\<rparr>)
          | Inr (r, outs, errs) \<Rightarrow>
              (let rr = (if reqStreaming req
                   then finishStreaming h cr structuredJSON r
                     (foldl (onChunk (hLib h) (hRegex h) structuredJSON)
                       (initStreams cr (planLimits plan)) (mergeStreams (hMergeOrder h) outs errs))
                   else redactWhole h cr structuredJSON (planLimits plan) r);
                   rj = finishRunReport h e cr j1 req reg act cleanArgs plan sha r rr in
               \<lparr>rpResult = fst rj, rpProgress = rrProgress rr, rpStarted = Some plan,
                rpJournal = snd rj\<rparr>)))"

text \<open>\<open>None\<close> is a nil dereference: no registry at all, or an action whose plan has no command.\<close>

definition engineRun :: "'v Host \<Rightarrow> 'v Engine \<Rightarrow> Journal \<Rightarrow> 'v Request \<Rightarrow> runReport option" where
  "engineRun h e j req =
    (let aid = reqActionID req in
     if trimSpace (reqReason req) = '''' then
       (let rj = refuse j ((baseEvent req EventValidationFailed)
            \<lparr>evActionID := aid, evError := ''reason required''\<rparr>) StatusValidationFailed aid ''reason_required'' in
        Some (refused ((fst rj)\<lparr>engError := ''reason required''\<rparr>, snd rj)))
     else case admit (engAdmission e) aid of
       Some why \<Rightarrow>
         Some (refused (refuse j ((baseEvent req EventActionBlockedByAdmission)
           \<lparr>evActionID := aid, evError := hRefusal h why\<rparr>) StatusBlockedByAdmission aid (hRefusal h why)))
     | None \<Rightarrow>
     case registryFor e req of
       None \<Rightarrow> None
     | Some reg \<Rightarrow>
     case actionOf reg aid of
       None \<Rightarrow>
         Some (refused (refuse j ((baseEvent req EventValidationFailed)
           \<lparr>evActionID := aid, evError := ''unknown action''\<rparr>) StatusUnknownAction aid ''unknown action''))
     | Some act \<Rightarrow>
     case admitRisk (engAdmission e) (actRisk act) of
       Some why \<Rightarrow>
         Some (refused (refuse j ((actionEvent req act EventActionBlockedByAdmission)
           \<lparr>evRequest := Some (reasonOnly req), evError := hRefusal h why\<rparr>)
           StatusBlockedByAdmission (actID act) (hRefusal h why)))
     | None \<Rightarrow>
     case validateArgs (hLib h) (hFS h) (actArgs act) (reqArgs req) (engProtectedPaths e) (effectiveCWD act) of
       Inl err \<Rightarrow>
         (let detail = validationFailureDetail h err (reqArgs req) (actArgs act);
              rj = refuse j ((actionEvent req act EventValidationFailed)
                \<lparr>evRequest := Some (reasonOnly req), evError := detail\<rparr>)
                StatusValidationFailed (actID act) ''argument_invalid'' in
          Some (refused ((fst rj)\<lparr>engError := detail\<rparr>, snd rj)))
     | Inr cleanArgs \<Rightarrow>
     case preparePlan h e reg act req cleanArgs of
       None \<Rightarrow> None
     | Some (Inl err) \<Rightarrow> Some (refused (emitExecError h (engRedactor e) j req act cleanArgs err))
     | Some (Inr (plan, sha)) \<Rightarrow> Some (runPlan h e j req reg act cleanArgs plan sha))"

subsection \<open>What a run leaves in the journal\<close>

text \<open>One journal attempt appended, and what its outcome makes of the result's event id.\<close>

definition attempted :: "Journal \<Rightarrow> Event \<Rightarrow> EngineResult \<Rightarrow> Journal \<Rightarrow> bool" where
  "attempted j ev res j' \<longleftrightarrow>
     j' = j\<lparr>jrAttempts := jrAttempts j @ [ev]\<rparr>
     \<and> engEventID res = (case jrOutcome j (length (jrAttempts j)) of None \<Rightarrow> '''' | Some eid \<Rightarrow> eid)
     \<and> (engLocalAuditFailed res \<longleftrightarrow> engEventID res = '''')"

lemma journalEvent_eq:
  "journalEvent j ev = ((case jrOutcome j (length (jrAttempts j)) of None \<Rightarrow> '''' | Some eid \<Rightarrow> eid),
     j\<lparr>jrAttempts := jrAttempts j @ [ev]\<rparr>)"
  by (simp add: journalEvent_def recordJournal_def split: option.splits)

lemma refuse_facts:
  "attempted j ev (fst (refuse j ev s aid why)) (snd (refuse j ev s aid why))"
  "engStatus (fst (refuse j ev s aid why)) = s" "engReason (fst (refuse j ev s aid why)) = why"
  by (simp_all add: refuse_def journalEvent_eq attempted_def)

lemma attempted_error [simp]: "attempted j ev (res\<lparr>engError := x\<rparr>) j' = attempted j ev res j'"
  by (simp add: attempted_def)

lemma actionEvent_type [simp]:
  "evType (actionEvent req act t) = t" "evActionID (actionEvent req act t) = actID act"
  "evType (baseEvent req t) = t"
  by (simp_all add: actionEvent_def baseEvent_def)

text \<open>The reports of calls that end before a plan exists.\<close>

definition refusalStatuses :: "string set" where
  "refusalStatuses = {StatusValidationFailed, StatusBlockedByAdmission, StatusUnknownAction, StatusError}"

definition refusalReport :: "Journal \<Rightarrow> runReport \<Rightarrow> bool" where
  "refusalReport j rep \<longleftrightarrow> rpStarted rep = None \<and> rpProgress rep = []
     \<and> engStatus (rpResult rep) \<in> refusalStatuses
     \<and> (\<exists>ev. evType ev \<noteq> EventExecutionStarted \<and> attempted j ev (rpResult rep) (rpJournal rep))"

lemma refusalReportI:
  "evType ev \<noteq> EventExecutionStarted \<Longrightarrow> s \<in> refusalStatuses \<Longrightarrow>
   refusalReport j (refused (refuse j ev s aid why))"
  using refuse_facts [of j ev s aid why] by (auto simp: refusalReport_def refused_def)

lemma refusalReportI_error:
  "evType ev \<noteq> EventExecutionStarted \<Longrightarrow> s \<in> refusalStatuses \<Longrightarrow>
   refusalReport j (refused ((fst (refuse j ev s aid why))\<lparr>engError := x\<rparr>, snd (refuse j ev s aid why)))"
  using refuse_facts [of j ev s aid why] by (auto simp: refusalReport_def refused_def)

lemma emitExecError_refusal: "refusalReport j (refused (emitExecError h red j req act args err))"
  unfolding emitExecError_def Let_def
  by (rule refusalReportI) (simp_all add: eventTypes refusalStatuses_def)

text \<open>What stands between a dispatch and the executor.\<close>

definition cleared ::
  "'v Host \<Rightarrow> 'v Engine \<Rightarrow> 'v Request \<Rightarrow> 'v Registry \<Rightarrow> Action \<Rightarrow> args \<Rightarrow> Plan \<Rightarrow> string \<Rightarrow> bool" where
  "cleared h e req reg act cleanArgs plan sha \<longleftrightarrow>
     trimSpace (reqReason req) \<noteq> '''' \<and> admit (engAdmission e) (reqActionID req) = None
     \<and> registryFor e req = Some reg \<and> actionOf reg (reqActionID req) = Some act
     \<and> admitRisk (engAdmission e) (actRisk act) = None
     \<and> validateArgs (hLib h) (hFS h) (actArgs act) (reqArgs req) (engProtectedPaths e) (effectiveCWD act)
         = Inr cleanArgs
     \<and> preparePlan h e reg act req cleanArgs = Some (Inr (plan, sha))"

lemma engineRun_cases:
  assumes "engineRun h e j req = Some rep"
  shows "refusalReport j rep \<or> (\<exists>reg act cleanArgs plan sha. cleared h e req reg act cleanArgs plan sha
      \<and> rep = runPlan h e j req reg act cleanArgs plan sha)"
proof (cases "trimSpace (reqReason req) = ''''")
  case True
  with assms show ?thesis
    by (auto simp: engineRun_def Let_def eventTypes refusalStatuses_def intro!: refusalReportI_error)
next
  case reason: False
  show ?thesis
  proof (cases "admit (engAdmission e) (reqActionID req)")
    case (Some why)
    with assms reason show ?thesis
      by (auto simp: engineRun_def Let_def eventTypes refusalStatuses_def intro!: refusalReportI)
  next
    case adm: None
    obtain reg where reg: "registryFor e req = Some reg"
      using assms reason adm by (cases "registryFor e req") (auto simp: engineRun_def Let_def)
    show ?thesis
    proof (cases "actionOf reg (reqActionID req)")
      case None
      with assms reason adm reg show ?thesis
        by (auto simp: engineRun_def Let_def eventTypes refusalStatuses_def intro!: refusalReportI)
    next
      case act: (Some act)
      show ?thesis
      proof (cases "admitRisk (engAdmission e) (actRisk act)")
        case (Some why)
        with assms reason adm reg act show ?thesis
          by (auto simp: engineRun_def Let_def eventTypes refusalStatuses_def intro!: refusalReportI)
      next
        case risk: None
        let ?val = "validateArgs (hLib h) (hFS h) (actArgs act) (reqArgs req) (engProtectedPaths e) (effectiveCWD act)"
        show ?thesis
        proof (cases ?val)
          case (Inl err)
          with assms reason adm reg act risk show ?thesis
            by (auto simp: engineRun_def Let_def eventTypes refusalStatuses_def intro!: refusalReportI_error)
        next
          case args: (Inr cleanArgs)
          note known = assms reason adm reg act risk args
          obtain p where p: "preparePlan h e reg act req cleanArgs = Some p"
            using known by (cases "preparePlan h e reg act req cleanArgs") (auto simp: engineRun_def Let_def)
          show ?thesis
          proof (cases p)
            case (Inl err)
            with known p show ?thesis using emitExecError_refusal by (auto simp: engineRun_def Let_def)
          next
            case (Inr ps)
            obtain plan sha where ps: "ps = (plan, sha)" by force
            with known p Inr have "rep = runPlan h e j req reg act cleanArgs plan sha"
              by (simp add: engineRun_def Let_def)
            moreover have "cleared h e req reg act cleanArgs plan sha"
              using known p Inr ps by (simp add: cleared_def)
            ultimately show ?thesis by blast
          qed
        qed
      qed
    qed
  qed
qed

lemma startedEvent_type:
  "evType (startedEvent h cr req act cleanArgs plan sha) = EventExecutionStarted"
  "evActionID (startedEvent h cr req act cleanArgs plan sha) = actID act"
  by (simp_all add: startedEvent_def split: prod.splits)

lemma failValidation_sel [simp]:
  "oStatus (failValidation out r e) = StatusValidationFailed"
  "oEventType (failValidation out r e) = oEventType out"
  by (simp_all add: failValidation_def)

lemma validateStructured_event [simp]:
  "oEventType (validateStructuredOutput h act reg r t out) = oEventType out"
  by (simp add: validateStructuredOutput_def split: option.splits sum.splits prod.splits)

lemma parsedOutcome_event [simp]: "oEventType (parsedOutcome h act t out) = oEventType out"
  by (simp add: parsedOutcome_def Let_def split: prod.splits)

lemma processOutcome_event: "oEventType (processOutcome act r) \<noteq> EventExecutionStarted"
  by (simp add: processOutcome_def Let_def eventTypes)

lemma classifyOutcome_event: "oEventType (classifyOutcome h act reg r t f ov) \<noteq> EventExecutionStarted"
  using processOutcome_event [of act r]
  by (auto simp: classifyOutcome_def Let_def EventValidationFailed_def EventExecutionStarted_def)

lemma finishRunReport_facts:
  assumes "finishRunReport h e cr j req reg act cleanArgs plan sha r rr = (res, j')"
  defines "out \<equiv> classifyOutcome h act reg r (rrStdout rr) (rrJSONFailed rr) (rrOverflow rr)"
  shows "\<exists>ev. evType ev \<noteq> EventExecutionStarted \<and> attempted j ev res j'"
    and "engStatus res = oStatus out" "engStructuredOutput res = oStructured out" "engOutput res = oParsed out"
    and "engExitCode res = xExitCode r" "engTimedOut res = xTimedOut r" "engStdout res = rrStdout rr"
    and "engTruncatedOut res = rrTruncatedOut rr" "engParserError res = oParserError out"
proof -
  obtain argv cmd where inv: "redactedInvocation h cr (xBinary r) (xArgv r) cleanArgs (actArgs act) = (argv, cmd)"
    by force
  define ev where "ev = (actionEvent req act (oEventType out))
    \<lparr>evRequest := Some (requestInfo h req (redactArgs h cr cleanArgs (actArgs act))),
     evExecution := Some ((executionInfo h (engPreviewBytes e) r (rrStdout rr) (rrStderr rr) sha plan argv)
              \<lparr>eiExecutedCommand := cmd\<rparr>),
     evRedactions := rrHits rr, evError := oResultError out\<rparr>"
  have "evType ev \<noteq> EventExecutionStarted" using classifyOutcome_event by (simp add: ev_def out_def)
  moreover have "attempted j ev res j'"
    using assms(1) inv by (auto simp: finishRunReport_def journalEvent_eq attempted_def Let_def ev_def out_def)
  ultimately show "\<exists>ev. evType ev \<noteq> EventExecutionStarted \<and> attempted j ev res j'" by blast
  show "engStatus res = oStatus out" "engStructuredOutput res = oStructured out" "engOutput res = oParsed out"
    "engExitCode res = xExitCode r" "engTimedOut res = xTimedOut r" "engStdout res = rrStdout rr"
    "engTruncatedOut res = rrTruncatedOut rr" "engParserError res = oParserError out"
    using assms(1) inv by (auto simp: finishRunReport_def journalEvent_eq Let_def out_def)
qed

lemma runPlan_unrecorded:
  assumes "jrOutcome j (length (jrAttempts j)) = None"
  shows "runPlan h e j req reg act cleanArgs plan sha =
    refused (zeroEngineResult\<lparr>engStatus := StatusError, engLocalAuditFailed := True,
      engActionID := actID act, engReason := ''local audit unavailable; action was not executed''\<rparr>,
      j\<lparr>jrAttempts := jrAttempts j @ [startedEvent h (combinedRedactor h (engRedactor e) act cleanArgs)
          req act cleanArgs plan sha]\<rparr>)"
  using assms by (simp add: runPlan_def recordJournal_def Let_def)

definition afterStart ::
  "'v Host \<Rightarrow> 'v Engine \<Rightarrow> Journal \<Rightarrow> 'v Request \<Rightarrow> Action \<Rightarrow> args \<Rightarrow> Plan \<Rightarrow> string \<Rightarrow> Journal" where
  "afterStart h e j req act cleanArgs plan sha =
    j\<lparr>jrAttempts := jrAttempts j @ [startedEvent h (combinedRedactor h (engRedactor e) act cleanArgs)
          req act cleanArgs plan sha]\<rparr>"

lemma emitExecError_status: "engStatus (fst (emitExecError h red j req act args err)) = StatusError"
  by (simp add: emitExecError_def Let_def refuse_facts)

lemma runPlan_recorded:
  fixes h :: "'v Host" and e :: "'v Engine" and req :: "'v Request" and reg :: "'v Registry"
    and act :: Action and cleanArgs :: args and plan :: Plan and sha :: string
  assumes "jrOutcome j (length (jrAttempts j)) = Some eid"
  defines "rep \<equiv> runPlan h e j req reg act cleanArgs plan sha"
    and "j1 \<equiv> afterStart h e j req act cleanArgs plan sha"
  shows "rpStarted rep = Some plan
    \<and> (\<exists>ev. evType ev \<noteq> EventExecutionStarted \<and> attempted j1 ev (rpResult rep) (rpJournal rep))
    \<and> (engStatus (rpResult rep) = StatusError \<or> (\<exists>r outs errs rr cr.
         execute (hInherit h) (hLookupEnv h) plan (hProcess h plan) = Inr (r, outs, errs) \<and>
         (rpResult rep, rpJournal rep) = finishRunReport h e cr j1 req reg act cleanArgs plan sha r rr \<and>
         (xTruncatedStdout r \<longrightarrow> rrTruncatedOut rr)))"
proof (cases "execute (hInherit h) (hLookupEnv h) plan (hProcess h plan)")
  case (Inl err)
  let ?rj = "emitExecError h (engRedactor e) j1 req act cleanArgs (hExecError h err)"
  have f: "rpStarted rep = Some plan" "rpResult rep = fst ?rj" "rpJournal rep = snd ?rj"
    using assms(1) Inl by (simp_all add: rep_def j1_def afterStart_def runPlan_def recordJournal_def Let_def)
  have "\<exists>ev. evType ev \<noteq> EventExecutionStarted \<and> attempted j1 ev (fst ?rj) (snd ?rj)"
    using emitExecError_refusal [of j1 h "engRedactor e" req act cleanArgs "hExecError h err"]
    by (simp add: refusalReport_def refused_def)
  with f emitExecError_status show ?thesis by (simp only:) blast
next
  case (Inr x)
  obtain r outs errs where x: "x = (r, outs, errs)" by (cases x) auto
  let ?cr = "combinedRedactor h (engRedactor e) act cleanArgs"
  define rr where "rr = (if reqStreaming req
       then finishStreaming h ?cr (outParser (actOutput act) = ParserJSON) r
         (foldl (onChunk (hLib h) (hRegex h) (outParser (actOutput act) = ParserJSON))
           (initStreams ?cr (planLimits plan)) (mergeStreams (hMergeOrder h) outs errs))
       else redactWhole h ?cr (outParser (actOutput act) = ParserJSON) (planLimits plan) r)"
  have st: "rpStarted rep = Some plan" and fin: "(rpResult rep, rpJournal rep)
      = finishRunReport h e ?cr j1 req reg act cleanArgs plan sha r rr"
    using assms(1) Inr x
    by (simp_all add: rep_def j1_def afterStart_def runPlan_def recordJournal_def Let_def rr_def)
  have tr: "xTruncatedStdout r \<longrightarrow> rrTruncatedOut rr"
    by (simp add: rr_def finishStreaming_def redactWhole_def Let_def split: prod.splits)
  from finishRunReport_facts(1) [OF fin [symmetric]] st fin tr Inr x show ?thesis by blast
qed

subsection \<open>What the executor is given\<close>

lemma makePlan_facts:
  assumes "makePlan h reg act limits argv env = Some (Inr (p, sha))"
  shows "actKind act = KindExec \<or> actKind act = KindScript \<Longrightarrow> planLimits p = limits \<and> planEnv p = env"
    and "actKind act = KindScript \<Longrightarrow> \<exists>si data. scriptInfo reg (actID act) = Some si
      \<and> hReadFile h (siPath si) = Some data \<and> hSha h data = siSHA256 si \<and> siSHA256 si \<noteq> ''''
      \<and> sha = siSHA256 si \<and> planArgv p = siPath si # argv"
proof -
  consider (exec) "actKind act = KindExec" | (script) "actKind act \<noteq> KindExec" "actKind act = KindScript"
    | (other) "actKind act \<noteq> KindExec" "actKind act \<noteq> KindScript" by blast
  then show "actKind act = KindExec \<or> actKind act = KindScript \<Longrightarrow> planLimits p = limits \<and> planEnv p = env"
  proof cases
    case exec
    with assms show ?thesis by (auto simp: makePlan_def planForExec_def split: option.splits)
  next
    case script
    with assms show ?thesis by (auto simp: makePlan_def planForScript_def split: option.splits)
  next
    case other
    then show "actKind act = KindExec \<or> actKind act = KindScript \<Longrightarrow> planLimits p = limits \<and> planEnv p = env"
      by blast
  qed
  show "\<exists>si data. scriptInfo reg (actID act) = Some si
      \<and> hReadFile h (siPath si) = Some data \<and> hSha h data = siSHA256 si \<and> siSHA256 si \<noteq> ''''
      \<and> sha = siSHA256 si \<and> planArgv p = siPath si # argv" if k: "actKind act = KindScript"
  proof -
    have "actKind act \<noteq> KindExec" using k by (simp add: KindScript_def KindExec_def)
    with assms k show ?thesis
      by (auto simp: makePlan_def planForScript_def verifyScriptSHA_def check_def split: option.splits if_splits)
  qed
qed

lemma preparePlan_made:
  assumes "preparePlan h e reg act req cleanArgs = Some (Inr (plan, sha))"
  shows "\<exists>tmpl argv env p. argvTemplates act = Some tmpl \<and> renderArgv (hLib h) tmpl cleanArgs True = Inr argv
     \<and> renderEnv (hLib h) (exEnv (actExecution act)) cleanArgs = Inr env
     \<and> makePlan h reg act (clampLimits act (reqOpts req)) argv env = Some (Inr (p, sha))
     \<and> planLimits plan = planLimits p \<and> planArgv plan = planArgv p \<and> planEnv plan = planEnv p
     \<and> planBinary plan = planBinary p"
proof -
  obtain tmpl where t: "argvTemplates act = Some tmpl"
    using assms by (cases "argvTemplates act") (auto simp: preparePlan_def)
  obtain argv where a: "renderArgv (hLib h) tmpl cleanArgs True = Inr argv"
    using assms t by (cases "renderArgv (hLib h) tmpl cleanArgs True") (auto simp: preparePlan_def)
  obtain env where v: "renderEnv (hLib h) (exEnv (actExecution act)) cleanArgs = Inr env"
    using assms t a
    by (cases "renderEnv (hLib h) (exEnv (actExecution act)) cleanArgs") (auto simp: preparePlan_def)
  let ?m = "makePlan h reg act (clampLimits act (reqOpts req)) argv env"
  obtain x where x: "?m = Some x" using assms t a v by (cases ?m) (auto simp: preparePlan_def)
  obtain p where "x = Inr (p, sha)" "planLimits plan = planLimits p" "planArgv plan = planArgv p"
      "planEnv plan = planEnv p" "planBinary plan = planBinary p"
    using assms t a v x by (cases x) (auto simp: preparePlan_def)
  with t a v x show ?thesis by blast
qed

lemma engineRun_started:
  assumes "engineRun h e j req = Some rep" "rpStarted rep = Some plan"
  shows "\<exists>reg act cleanArgs sha eid. cleared h e req reg act cleanArgs plan sha
     \<and> jrOutcome j (length (jrAttempts j)) = Some eid
     \<and> rep = runPlan h e j req reg act cleanArgs plan sha"
proof -
  have "\<not> refusalReport j rep" using assms(2) by (auto simp: refusalReport_def)
  then obtain reg act cleanArgs p sha where c: "cleared h e req reg act cleanArgs p sha"
    and r: "rep = runPlan h e j req reg act cleanArgs p sha"
    using engineRun_cases [OF assms(1)] by blast
  obtain eid where o: "jrOutcome j (length (jrAttempts j)) = Some eid"
    using assms(2) r runPlan_unrecorded [of j h e req reg act cleanArgs p sha]
    by (cases "jrOutcome j (length (jrAttempts j))") (auto simp: refused_def)
  have "p = plan" using runPlan_recorded [OF o, of h e req reg act cleanArgs p sha] r assms(2) by auto
  with c r o show ?thesis by blast
qed

text \<open>C21: The executor is given a plan only when the call has a reason, the action id and its
  risk pass the admission policy, the arguments validate against the action's schema with the
  runner's own state protected, argument vector and environment were rendered from the validated
  values alone, the limits are the clamped ones, a script's bytes still hash to what was recorded at
  load, and the start was recorded in the local journal first.\<close>

theorem started_only_when_cleared:
  assumes "engineRun h e j req = Some rep" "rpStarted rep = Some plan"
  shows "trimSpace (reqReason req) \<noteq> '''' \<and> admit (engAdmission e) (reqActionID req) = None
    \<and> (\<exists>eid. jrOutcome j (length (jrAttempts j)) = Some eid)
    \<and> (\<exists>reg act cleanArgs tmpl argv env. registryFor e req = Some reg \<and> actionOf reg (reqActionID req) = Some act
        \<and> admitRisk (engAdmission e) (actRisk act) = None
        \<and> validateArgs (hLib h) (hFS h) (actArgs act) (reqArgs req) (engProtectedPaths e) (effectiveCWD act)
            = Inr cleanArgs
        \<and> argvTemplates act = Some tmpl \<and> renderArgv (hLib h) tmpl cleanArgs True = Inr argv
        \<and> renderEnv (hLib h) (exEnv (actExecution act)) cleanArgs = Inr env
        \<and> (actKind act = KindExec \<or> actKind act = KindScript \<longrightarrow>
             planLimits plan = clampLimits act (reqOpts req) \<and> planEnv plan = env)
        \<and> (actKind act = KindExec \<longrightarrow> planArgv plan = argv)
        \<and> (actKind act = KindScript \<longrightarrow> (\<exists>si data. scriptInfo reg (actID act) = Some si
             \<and> hReadFile h (siPath si) = Some data \<and> hSha h data = siSHA256 si \<and> siSHA256 si \<noteq> ''''
             \<and> planArgv plan = siPath si # argv)))"
proof -
  obtain reg act cleanArgs sha eid where c: "cleared h e req reg act cleanArgs plan sha"
    and o: "jrOutcome j (length (jrAttempts j)) = Some eid" using engineRun_started [OF assms] by blast
  have pp: "preparePlan h e reg act req cleanArgs = Some (Inr (plan, sha))" using c by (simp add: cleared_def)
  obtain tmpl argv env p where t: "argvTemplates act = Some tmpl"
      "renderArgv (hLib h) tmpl cleanArgs True = Inr argv"
      "renderEnv (hLib h) (exEnv (actExecution act)) cleanArgs = Inr env"
    and m: "makePlan h reg act (clampLimits act (reqOpts req)) argv env = Some (Inr (p, sha))"
    and eq: "planLimits plan = planLimits p" "planArgv plan = planArgv p" "planEnv plan = planEnv p"
    using preparePlan_made [OF pp] by blast
  have ex: "actKind act = KindExec \<longrightarrow> planArgv plan = argv"
    using m eq by (auto simp: makePlan_def planForExec_def split: option.splits)
  show ?thesis using c o t ex makePlan_facts [OF m] eq unfolding cleared_def by metis
qed

subsection \<open>The trail in the journal\<close>

lemma statuses_in:
  "s \<in> refusalStatuses \<Longrightarrow> s \<in> set resultStatuses" "StatusError \<in> set resultStatuses"
  "StatusValidationFailed \<in> set resultStatuses"
  by (auto simp: refusalStatuses_def resultStatuses_def)

lemma validateStructured_status:
  "oStatus (validateStructuredOutput h act reg r t out) \<in> {oStatus out, StatusValidationFailed}"
  by (auto simp: validateStructuredOutput_def split: option.splits sum.splits prod.splits)

lemma parsedOutcome_status: "oStatus (parsedOutcome h act t out) \<in> {oStatus out, StatusValidationFailed}"
  by (auto simp: parsedOutcome_def Let_def split: prod.splits)

lemma processOutcome_status: "oStatus (processOutcome act r) \<in> set resultStatuses"
  by (simp add: processOutcome_def resultStatuses_def Let_def)

lemma classifyOutcome_status: "oStatus (classifyOutcome h act reg r t f ov) \<in> set resultStatuses"
proof -
  let ?out = "processOutcome act r"
  have "oStatus (classifyOutcome h act reg r t f ov) \<in> {oStatus ?out, StatusValidationFailed}"
    using validateStructured_status [of h act reg r t ?out] parsedOutcome_status [of h act t ?out]
    by (auto simp: classifyOutcome_def Let_def)
  then show ?thesis using processOutcome_status [of act r] statuses_in(3) by auto
qed

lemma runPlan_actionID: "engActionID (rpResult (runPlan h e j req reg act cleanArgs plan sha)) = actID act"
  by (auto simp: runPlan_def recordJournal_def refused_def emitExecError_def refuse_def finishRunReport_def
      Let_def split: option.splits sum.splits prod.splits)

text \<open>C22: Every call leaves a complete trail.  A call that never reached the executor appended
  exactly one event, and when that event is a start it was not recorded and the result says error.
  A call that reached it appended exactly two: the recorded start and one terminal event.  The
  result carries the id of its last event, reports a local audit failure exactly when that event was
  not recorded, and has one of the eight declared statuses.\<close>

theorem journal_trail:
  assumes "engineRun h e j req = Some rep"
  defines "n \<equiv> length (jrAttempts j)" and "res \<equiv> rpResult rep"
  defines "trail \<equiv> drop n (jrAttempts (rpJournal rep))"
  shows "take n (jrAttempts (rpJournal rep)) = jrAttempts j \<and> engStatus res \<in> set resultStatuses
    \<and> (engLocalAuditFailed res \<longleftrightarrow> engEventID res = '''')
    \<and> engEventID res = (case jrOutcome j (n + length trail - 1) of None \<Rightarrow> '''' | Some eid \<Rightarrow> eid)
    \<and> (rpStarted rep = None \<longrightarrow> (\<exists>ev. trail = [ev] \<and> rpProgress rep = [] \<and> (evType ev = EventExecutionStarted \<longrightarrow>
         jrOutcome j n = None \<and> engStatus res = StatusError)))
    \<and> (rpStarted rep \<noteq> None \<longrightarrow> (\<exists>start ev. trail = [start, ev] \<and> evType start = EventExecutionStarted
         \<and> evType ev \<noteq> EventExecutionStarted \<and> evActionID start = engActionID res \<and> jrOutcome j n \<noteq> None))"
proof -
  from engineRun_cases [OF assms(1)] consider (ref) "refusalReport j rep"
    | (plan) reg act cleanArgs plan sha where "cleared h e req reg act cleanArgs plan sha"
      "rep = runPlan h e j req reg act cleanArgs plan sha" by blast
  then show ?thesis
  proof cases
    case ref
    then obtain ev where ev: "evType ev \<noteq> EventExecutionStarted" "attempted j ev res (rpJournal rep)"
        "rpStarted rep = None" "rpProgress rep = []" "engStatus res \<in> refusalStatuses"
      by (auto simp: refusalReport_def res_def)
    have tr: "trail = [ev]" "take n (jrAttempts (rpJournal rep)) = jrAttempts j"
      using ev(2) by (simp_all add: attempted_def trail_def n_def)
    have "engEventID res = (case jrOutcome j n of None \<Rightarrow> '''' | Some eid \<Rightarrow> eid)"
        "engLocalAuditFailed res \<longleftrightarrow> engEventID res = ''''"
      using ev(2) unfolding attempted_def n_def by blast+
    with ev tr statuses_in(1) [OF ev(5)] show ?thesis by simp
  next
    case plan
    show ?thesis
    proof (cases "jrOutcome j n")
      case None
      with runPlan_unrecorded [of j h e req reg act cleanArgs plan sha] plan(2) statuses_in(2) show ?thesis
        by (simp add: refused_def n_def res_def trail_def zeroEngineResult_def)
    next
      case (Some eid)
      then have o: "jrOutcome j (length (jrAttempts j)) = Some eid" by (simp add: n_def)
      note rec = runPlan_recorded [OF o, of h e req reg act cleanArgs plan sha, folded plan(2)]
      let ?j1 = "afterStart h e j req act cleanArgs plan sha"
      obtain ev where ev: "evType ev \<noteq> EventExecutionStarted" "attempted ?j1 ev res (rpJournal rep)"
        using rec unfolding res_def by blast
      have st: "rpStarted rep = Some plan" using rec by blast
      define start where "start = startedEvent h (combinedRedactor h (engRedactor e) act cleanArgs)
          req act cleanArgs plan sha"
      have j1: "jrAttempts ?j1 = jrAttempts j @ [start]" "jrOutcome ?j1 = jrOutcome j"
        by (simp_all add: afterStart_def start_def)
      have tr: "trail = [start, ev]" "take n (jrAttempts (rpJournal rep)) = jrAttempts j"
        using ev(2) j1 by (simp_all add: attempted_def trail_def n_def)
      have eid: "engEventID res = (case jrOutcome j (n + 1) of None \<Rightarrow> '''' | Some eid \<Rightarrow> eid)"
          "engLocalAuditFailed res \<longleftrightarrow> engEventID res = ''''"
        using ev(2) j1 unfolding attempted_def n_def by simp_all
      have "engStatus res \<in> set resultStatuses"
        using rec finishRunReport_facts(2) [of h e _ ?j1 req reg act cleanArgs plan sha]
          classifyOutcome_status statuses_in(2) unfolding res_def by metis
      moreover have "engActionID res = actID act" unfolding res_def plan(2) by (rule runPlan_actionID)
      ultimately show ?thesis
        using st tr eid ev(1) Some by (simp add: start_def startedEvent_type)
    qed
  qed
qed

subsection \<open>What success means\<close>

lemma execute_success:
  assumes "execute inherit env p pr = Inr (r, outs, errs)"
  shows "xTimedOut r \<Longrightarrow> xStatus r = StatusTimeout \<or> xStatus r = ExecFailed"
    and "xStatus r \<in> {StatusOK, StatusNonZero, StatusTimeout, ExecCancelled, ExecFailed}"
    and "planBinary p \<noteq> '''' \<and> 0 < limTimeout (planLimits p)"
proof -
  show "xTimedOut r \<Longrightarrow> xStatus r = StatusTimeout \<or> xStatus r = ExecFailed"
    and "xStatus r \<in> {StatusOK, StatusNonZero, StatusTimeout, ExecCancelled, ExecFailed}"
    using assms by (auto simp: execute_def classifyEnd_def baseResult_def Let_def
        split: option.splits if_splits ctxErr.splits waitErr.splits)
  show "planBinary p \<noteq> '''' \<and> 0 < limTimeout (planLimits p)"
    using assms by (auto simp: execute_def split: if_splits)
qed

lemma processOutcome_success:
  assumes "oStatus (processOutcome act r) = StatusSuccess"
  shows "xStatus r \<notin> {StatusTimeout, ExecCancelled, ExecFailed}
    \<and> (xExitCode r = 0 \<or> xExitCode r \<in> set (SuccessExitCodes (actExecution act)))"
  using assms by (auto simp: processOutcome_def Let_def statuses successExit_def split: if_splits)

text \<open>Nothing downstream of \<open>processOutcome\<close> turns another status into success.\<close>

lemma classifyOutcome_success:
  fixes h :: "'v Host" and act :: Action and reg :: "'v Registry" and r :: ExecResult
    and t :: string and failed overflow :: bool
  defines "out \<equiv> classifyOutcome h act reg r t failed overflow"
  assumes "oStatus out = StatusSuccess"
  shows "oStatus (processOutcome act r) = StatusSuccess \<and> \<not> failed \<and> \<not> overflow"
    and "hasSchema (actOutput act) \<Longrightarrow> \<not> xTruncatedStdout r \<and> (\<exists>v val. outputSchema reg (actID act) = Some v
      \<and> hSchema h v t = Inr (val, oStructured out) \<and> oParsed out = Some val)"
    and "\<not> hasSchema (actOutput act) \<Longrightarrow> oParsed out = fst (parseOutput h (outParser (actOutput act)) t)
      \<and> oParserError out = snd (parseOutput h (outParser (actOutput act)) t)
      \<and> (ParserRequired (actOutput act) \<longrightarrow> oParserError out = '''')"
proof -
  let ?po = "processOutcome act r"
  have ne: "StatusValidationFailed \<noteq> StatusSuccess" by (simp add: statuses)
  have st: "oStatus ?po = StatusSuccess"
  proof (rule ccontr)
    assume n: "oStatus ?po \<noteq> StatusSuccess"
    have "oStatus out \<in> {oStatus ?po, StatusValidationFailed}"
      using n parsedOutcome_status [of h act t ?po] by (auto simp: out_def classifyOutcome_def Let_def)
    with n ne assms(2) show False by auto
  qed
  moreover have nf: "\<not> failed" "\<not> overflow"
    using st assms(2) ne by (auto simp: out_def classifyOutcome_def Let_def split: if_splits)
  ultimately show "oStatus ?po = StatusSuccess \<and> \<not> failed \<and> \<not> overflow" by blast
  show "\<not> xTruncatedStdout r \<and> (\<exists>v val. outputSchema reg (actID act) = Some v
      \<and> hSchema h v t = Inr (val, oStructured out) \<and> oParsed out = Some val)"
    if s: "hasSchema (actOutput act)"
  proof -
    have o: "out = validateStructuredOutput h act reg r t ?po"
      using st nf s assms(2) ne by (auto simp: out_def classifyOutcome_def Let_def split: if_splits)
    show ?thesis using assms(2) ne unfolding o
      by (auto simp: validateStructuredOutput_def split: if_splits option.splits sum.splits prod.splits)
  qed
  show "oParsed out = fst (parseOutput h (outParser (actOutput act)) t)
      \<and> oParserError out = snd (parseOutput h (outParser (actOutput act)) t)
      \<and> (ParserRequired (actOutput act) \<longrightarrow> oParserError out = '''')" if s: "\<not> hasSchema (actOutput act)"
  proof -
    have o: "out = parsedOutcome h act t ?po"
      using st nf s assms(2) ne by (auto simp: out_def classifyOutcome_def Let_def split: if_splits)
    show ?thesis using assms(2) ne st unfolding o
      by (auto simp: parsedOutcome_def Let_def split: prod.splits if_splits)
  qed
qed

lemma engineRun_success:
  assumes "engineRun h e j req = Some rep" "engStatus (rpResult rep) = StatusSuccess"
  shows "\<exists>reg act cleanArgs plan sha r outs errs rr cr j1. cleared h e req reg act cleanArgs plan sha
    \<and> rpStarted rep = Some plan
    \<and> execute (hInherit h) (hLookupEnv h) plan (hProcess h plan) = Inr (r, outs, errs)
    \<and> (rpResult rep, rpJournal rep) = finishRunReport h e cr j1 req reg act cleanArgs plan sha r rr
    \<and> (xTruncatedStdout r \<longrightarrow> rrTruncatedOut rr)"
proof -
  have ne: "StatusError \<noteq> StatusSuccess" "StatusSuccess \<notin> refusalStatuses"
    by (simp_all add: statuses refusalStatuses_def)
  have "\<not> refusalReport j rep" using ne assms(2) by (auto simp: refusalReport_def)
  then obtain reg act cleanArgs plan sha where c: "cleared h e req reg act cleanArgs plan sha"
    and r: "rep = runPlan h e j req reg act cleanArgs plan sha"
    using engineRun_cases [OF assms(1)] by blast
  obtain eid where o: "jrOutcome j (length (jrAttempts j)) = Some eid"
    using assms(2) r ne runPlan_unrecorded [of j h e req reg act cleanArgs plan sha]
    by (cases "jrOutcome j (length (jrAttempts j))") (auto simp: refused_def)
  show ?thesis using runPlan_recorded [OF o, of h e req reg act cleanArgs plan sha, folded r] c ne assms(2)
    by metis
qed


subsection \<open>Concrete calls\<close>

definition sampleProcess :: ProcRun where
  "sampleProcess = \<lparr>prCredentialErr = None, prContextBefore = None, prStartErr = None,
     prStdout = ''first line'', prStderr = '''', prStdoutErr = None, prStderrErr = None,
     prContextAfter = None, prWait = ExitError 1, prElapsedMS = 5\<rparr>"

definition sampleRegex :: RegexLib where
  "sampleRegex = \<lparr>reCompiles = (\<lambda>p. False), findAllSub = (\<lambda>p s. []), expandString = (\<lambda>p t s m. '''')\<rparr>"

definition sampleHost :: "unit Host" where
  "sampleHost = \<lparr>hLib = sampleLib, hRegex = sampleRegex,
     hJson = \<lparr>encodeJSONValue = (\<lambda>v. None), marshalProbe = (\<lambda>s. None)\<rparr>, hDefaultRules = [],
     hSha = (\<lambda>s. s), hReadFile = (\<lambda>p. None), hFS = sampleFS, hInherit = [''PATH''],
     hLookupEnv = (\<lambda>k. None), hProcess = (\<lambda>p. sampleProcess), hMergeOrder = [],
     hSchema = (\<lambda>v s. Inl (''no'', ''no'')), hUnmarshal = (\<lambda>s. Inl ''no''), hMarshalArgs = (\<lambda>a. None),
     hSprint = (\<lambda>v. ''''), hRefusal = (\<lambda>r. ''refused''), hArgError = (\<lambda>e. ''bad''),
     hRenderError = (\<lambda>e. ''bad''), hScriptError = (\<lambda>e. ''bad''), hExecError = (\<lambda>e. ''bad'')\<rparr>"

definition sampleEngine :: "unit Engine" where
  "sampleEngine = newEngine \<lparr>engRegistry = Some sampleRegistry, engAdmission = None, engRedactor = None,
     engPreviewBytes = 0, engCancelGrace = 3, engProtectedPaths = [''/etc/emisar'']\<rparr>"

definition sampleRequest :: "unit Request" where
  "sampleRequest = \<lparr>ControlPlaneRequestID = ''req_1'', reqActionID = ''fs.head'', reqArgs = [],
     reqReason = ''check'', reqOpts = zeroOpts, RegistrySnapshot = None, reqStreaming = False\<rparr>"

definition sampleJournal :: Journal where
  "sampleJournal = \<lparr>jrAttempts = [], jrOutcome = (\<lambda>n. Some ''evt_1'')\<rparr>"

definition sampleReport :: runReport where
  "sampleReport = (case engineRun sampleHost sampleEngine sampleJournal sampleRequest of
     Some rep \<Rightarrow> rep | None \<Rightarrow> refused (zeroEngineResult, sampleJournal))"

lemma sample_facts:
  "engineRun sampleHost sampleEngine sampleJournal sampleRequest \<noteq> None"
  "rpStarted sampleReport \<noteq> None" "engStatus (rpResult sampleReport) = StatusSuccess"
  "engStdout (rpResult sampleReport) = ''first line''"
  by code_simp+

lemma sample_run: "engineRun sampleHost sampleEngine sampleJournal sampleRequest = Some sampleReport"
  using sample_facts(1) by (auto simp: sampleReport_def)

lemma validateKind_commands:
  assumes "validateKind act = None"
  shows "actKind act = KindExec \<Longrightarrow> exCommand (actExecution act) \<noteq> None"
    and "actKind act = KindScript \<Longrightarrow> exScript (actExecution act) \<noteq> None"
  using assms by (auto simp: validateKind_def KindExec_def KindScript_def Let_def split: option.splits if_splits)

lemma preparePlan_total:
  assumes "validateKind act = None"
  shows "preparePlan h e reg act req cleanArgs \<noteq> None"
proof -
  note cmd = validateKind_commands [OF assms]
  have "argvTemplates act \<noteq> None" using cmd(1) by (simp add: argvTemplates_def)
  moreover have "makePlan h reg act l argv env \<noteq> None" for l argv env
    using cmd by (auto simp: makePlan_def planForExec_def planForScript_def split: option.splits)
  ultimately show ?thesis by (auto simp: preparePlan_def split: option.splits sum.splits)
qed

text \<open>C24: A call on a registry whose actions all passed the loader's checks always answers with
  a result: no input, journal outcome or process behaviour makes \<open>Run\<close> panic on a missing command
  or script.\<close>

theorem run_always_answers:
  assumes "registryFor e req = Some reg"
    and "\<forall>act. actionOf reg (reqActionID req) = Some act \<longrightarrow> validateAction (hLib h) act = None"
  shows "\<exists>rep. engineRun h e j req = Some rep"
proof -
  have pp: "\<exists>p. preparePlan h e reg act req cleanArgs = Some p" if "actionOf reg (reqActionID req) = Some act"
    for act cleanArgs
  proof -
    have "validateAction (hLib h) act = None" using assms(2) that by simp
    then have "preparePlan h e reg act req cleanArgs \<noteq> None"
      by (intro preparePlan_total validateAction_checks(8))
    then show ?thesis by blast
  qed
  show ?thesis using assms(1)
    by (auto simp: engineRun_def Let_def split: option.splits sum.splits) (metis pp option.distinct(1))
qed

theorem started_only_when_cleared_witness:
  "engineRun sampleHost sampleEngine sampleJournal sampleRequest = Some sampleReport
   \<and> rpStarted sampleReport \<noteq> None \<and> (\<exists>eid. jrOutcome sampleJournal 0 = Some eid)"
proof -
  obtain plan where "rpStarted sampleReport = Some plan" using sample_facts(2) by auto
  from started_only_when_cleared [OF sample_run this] sample_run sample_facts(2) show ?thesis
    by (simp add: sampleJournal_def)
qed

theorem journal_trail_witness:
  "engineRun sampleHost sampleEngine sampleJournal sampleRequest = Some sampleReport
   \<and> (\<exists>start ev. jrAttempts (rpJournal sampleReport) = [start, ev] \<and> evType start = EventExecutionStarted)"
  using journal_trail [OF sample_run] sample_facts(2) sample_run by (auto simp: sampleJournal_def)


theorem run_always_answers_witness:
  "validateAction sampleLib sampleAction = None \<and>
   (\<exists>rep. engineRun sampleHost sampleEngine sampleJournal sampleRequest = Some rep)"
proof -
  have r: "registryFor sampleEngine sampleRequest = Some sampleRegistry"
    and a: "actionOf sampleRegistry (reqActionID sampleRequest) = Some sampleAction"
    and l: "hLib sampleHost = sampleLib" by (code_simp, code_simp, simp add: sampleHost_def)
  have "\<forall>act. actionOf sampleRegistry (reqActionID sampleRequest) = Some act \<longrightarrow>
      validateAction (hLib sampleHost) act = None" using a l sampleAction_loads by simp
  from run_always_answers [OF r this, of sampleJournal] sampleAction_loads show ?thesis by blast
qed

end
