(* ===== verification/Attest.thy ===== *)
theory Attest
  imports Wire "HOL-Library.Multiset" "HOL-Library.List_Lexorder" "HOL-Library.Char_ord"
begin

text \<open>
  The attestation format of \<open>runner/internal/attest/attest.go\<close> and the public runner references of
  \<open>runner/internal/runnerref/ref.go\<close>: the bytes a claim is signed as, the scope URI of a dispatch
  certificate with its canonical spelling, the certificate profile, and claim verification.
  X.509 parsing and path building, the two signature schemes and SHA-256 (as lower-case
  hexadecimal) are arguments, and so is \<open>encoding/json\<close>'s spelling of one string.
\<close>

subsection \<open>Claims\<close>

definition attVersion :: string where "attVersion = ''emisar-attestation-v5''"
definition attTool :: string where "attTool = ''run_action''"
definition MaxRunnerRefs :: nat where "MaxRunnerRefs = 16"
definition MaxRunnerRefBytes :: nat where "MaxRunnerRefBytes = 113"

record Claim =
  clmActionID :: string
  clmPackRef :: string
  clmArgsRaw :: string
  clmRunnerRefs :: "string list"
  clmReason :: string
  Evidence :: string
  Expected :: string
  EvidenceSHA256 :: string
  ExpectedSHA256 :: string
  clmOperationID :: string
  PortalOrigin :: string
  Nonce :: string
  IssuedAt :: string

datatype attest_error =
    ArgsNotObject | RefsEmpty | TooManyRefs | EmptyRef | RefTooLong | DuplicateRef string
  | ScopeKeyEmpty | ScopeURITooLong

definition narrativeDigest :: "(string \<Rightarrow> string) \<Rightarrow> string \<Rightarrow> string \<Rightarrow> string" where
  "narrativeDigest sha digest text = (if digest \<noteq> '''' then digest else sha text)"

text \<open>Valid JSON whose first byte past the white space opens an object.\<close>

definition argsSHA256 :: "(string \<Rightarrow> string) \<Rightarrow> string \<Rightarrow> attest_error + string" where
  "argsSHA256 sha raw0 =
    (let raw = (if raw0 = '''' then ''{}'' else raw0) in
     case decodeAll raw of Some (JObject kvs) \<Rightarrow> Inr (sha raw) | _ \<Rightarrow> Inl ArgsNotObject)"

text \<open>The loop over the sorted copy; \<open>prev\<close> is the entry before.\<close>

fun checkRefs :: "string option \<Rightarrow> string list \<Rightarrow> attest_error option" where
  "checkRefs prev [] = None"
| "checkRefs prev (ref # refs) =
    (if ref = '''' then Some EmptyRef
     else if MaxRunnerRefBytes < length ref then Some RefTooLong
     else if prev = Some ref then Some (DuplicateRef ref)
     else checkRefs (Some ref) refs)"

definition canonicalRunnerRefs :: "string list \<Rightarrow> attest_error + string list" where
  "canonicalRunnerRefs refs =
    (if refs = [] then Inl RefsEmpty
     else if MaxRunnerRefs < length refs then Inl TooManyRefs
     else case checkRefs None (sort refs) of Some e \<Rightarrow> Inl e | None \<Rightarrow> Inr (sort refs))"

text \<open>\<open>json.Marshal\<close> of a list of strings, and of a struct of strings, over the spelling \<open>jstr\<close>
  of one string.\<close>

definition jsonList :: "(string \<Rightarrow> string) \<Rightarrow> string list \<Rightarrow> string" where
  "jsonList jstr ss = ''['' @ joinWith '','' (map jstr ss) @ '']''"

definition jsonStruct :: "(string \<Rightarrow> string) \<Rightarrow> (string \<times> string) list \<Rightarrow> string" where
  "jsonStruct jstr kvs =
    ''{'' @ joinWith '','' (map (\<lambda>kv. jstr (fst kv) @ '':'' @ jstr (snd kv)) kvs) @ ''}''"

definition signingBytes ::
  "(string \<Rightarrow> string) \<Rightarrow> (string \<Rightarrow> string) \<Rightarrow> Claim \<Rightarrow> attest_error + string" where
  "signingBytes sha jstr c =
    rbind (argsSHA256 sha (clmArgsRaw c)) (\<lambda>argsDigest.
    rbind (canonicalRunnerRefs (clmRunnerRefs c)) (\<lambda>refs.
      Inr (jsonStruct jstr
        [(''version'', attVersion), (''tool'', attTool), (''portal_origin'', PortalOrigin c),
         (''action_id'', clmActionID c), (''pack_ref'', clmPackRef c), (''args_sha256'', argsDigest),
         (''runner_refs_sha256'', sha (jsonList jstr refs)), (''reason'', clmReason c),
         (''evidence_sha256'', narrativeDigest sha (EvidenceSHA256 c) (Evidence c)),
         (''expected_sha256'', narrativeDigest sha (ExpectedSHA256 c) (Expected c)),
         (''operation_id'', clmOperationID c), (''nonce'', Nonce c), (''issued_at'', IssuedAt c)])))"

subsection \<open>Scope\<close>

definition ScopeURI :: string where "ScopeURI = ''emisar://dispatch/v1''"
definition MaxScopeURIBytes :: nat where "MaxScopeURIBytes = 512"
definition MaxChainCerts :: nat where "MaxChainCerts = 2"

definition CodeCertProfile :: string where "CodeCertProfile = ''cert_profile''"
definition CodeCertUntrusted :: string where "CodeCertUntrusted = ''cert_untrusted''"
definition CodeCertExpired :: string where "CodeCertExpired = ''cert_expired''"
definition CodeCertScope :: string where "CodeCertScope = ''cert_scope''"

text \<open>The reason of a certificate error, as a value in place of its sentence.\<close>

datatype cert_reason =
    URITooLong | NotScopeURI | EmptyQuery | ParamWithoutValue string | BadEncoding string
  | RepeatedGroup | EmptyGroup | EmptyLabelKey | RepeatedLabel string | UnknownParam string
  | ScopeEncode attest_error | NotCanonical string
  | EmptyChain | TooManyCerts nat | CertUnparsed nat | ChainInvalid string
  | NoScopeURI | ManyURIs nat | CALeaf | KeyUsageForbids | NotP256 | KeyAlgorithm

record CertError =
  ceCode :: string
  ceReason :: cert_reason

definition certErr :: "string \<Rightarrow> cert_reason \<Rightarrow> CertError" where
  "certErr code why = \<lparr>ceCode = code, ceReason = why\<rparr>"

record Scope =
  scGroup :: string
  scLabels :: "(string \<times> string) list"

definition isUnreserved :: "char \<Rightarrow> bool" where
  "isUnreserved c \<longleftrightarrow> within 97 122 c \<or> within 65 90 c \<or> within 48 57 c \<or> c \<in> set ''-._~''"

definition hexUpper :: "nat \<Rightarrow> char" where
  "hexUpper n = (if n < 10 then char_of (48 + n) else char_of (55 + n))"

definition encodeByte :: "char \<Rightarrow> string" where
  "encodeByte c =
    (if isUnreserved c then [c] else [CHR ''%'', hexUpper (byte c div 16), hexUpper (byte c mod 16)])"

definition encodeScopeComponent :: "string \<Rightarrow> string" where
  "encodeScopeComponent s = concat (map encodeByte s)"

fun decodeScopeComponent :: "string \<Rightarrow> string option" where
  "decodeScopeComponent [] = Some []"
| "decodeScopeComponent (c # s) =
    (if c \<noteq> CHR ''%'' then
       (if isUnreserved c then map_option ((#) c) (decodeScopeComponent s) else None)
     else (case s of
         a # b # rest \<Rightarrow>
           (case (hexVal a, hexVal b) of
              (Some x, Some y) \<Rightarrow> map_option ((#) (char_of (16 * x + y))) (decodeScopeComponent rest)
            | _ \<Rightarrow> None)
       | _ \<Rightarrow> None))"

definition groupParam :: "string \<Rightarrow> string" where
  "groupParam g = ''group='' @ encodeScopeComponent g"

definition labelParam :: "string \<times> string \<Rightarrow> string" where
  "labelParam kv = ''label.'' @ encodeScopeComponent (fst kv) @ ''='' @ encodeScopeComponent (snd kv)"

definition scopeParams :: "Scope \<Rightarrow> string list" where
  "scopeParams s = (if scGroup s = '''' then [] else [groupParam (scGroup s)]) @ map labelParam (scLabels s)"

definition encodeScopeURI :: "Scope \<Rightarrow> attest_error + string" where
  "encodeScopeURI s =
    (if '''' \<in> fst ` set (scLabels s) then Inl ScopeKeyEmpty
     else let params = sort (scopeParams s);
              uri = (if params = [] then ScopeURI else ScopeURI @ ''?'' @ joinWith ''&'' params) in
       if MaxScopeURIBytes < length uri then Inl ScopeURITooLong else Inr uri)"

text \<open>\<open>strings.Cut\<close>.\<close>

fun cutAt :: "char \<Rightarrow> string \<Rightarrow> string \<times> string option" where
  "cutAt d [] = ([], None)"
| "cutAt d (c # cs) = (if c = d then ([], Some cs) else (case cutAt d cs of (a, b) \<Rightarrow> (c # a, b)))"

definition parseScopeParam :: "Scope \<Rightarrow> string \<Rightarrow> cert_reason + Scope" where
  "parseScopeParam scope param =
    (case cutAt (CHR ''='') param of
       (name, None) \<Rightarrow> Inl (ParamWithoutValue param)
     | (name, Some value) \<Rightarrow>
         (case decodeScopeComponent value of
            None \<Rightarrow> Inl (BadEncoding name)
          | Some decodedValue \<Rightarrow>
              if name = ''group'' then
                (if scGroup scope \<noteq> '''' then Inl RepeatedGroup
                 else if decodedValue = '''' then Inl EmptyGroup
                 else Inr (scope\<lparr>scGroup := decodedValue\<rparr>))
              else if prefix ''label.'' name then
                (case decodeScopeComponent (drop 6 name) of
                   None \<Rightarrow> Inl (BadEncoding name)
                 | Some key \<Rightarrow>
                     if key = '''' then Inl EmptyLabelKey
                     else if map_of (scLabels scope) key \<noteq> None then Inl (RepeatedLabel key)
                     else Inr (scope\<lparr>scLabels := scLabels scope @ [(key, decodedValue)]\<rparr>))
              else Inl (UnknownParam name)))"

fun parseScopeParams :: "Scope \<Rightarrow> string list \<Rightarrow> cert_reason + Scope" where
  "parseScopeParams scope [] = Inr scope"
| "parseScopeParams scope (p # ps) = rbind (parseScopeParam scope p) (\<lambda>s. parseScopeParams s ps)"

definition emptyScope :: Scope where "emptyScope = \<lparr>scGroup = '''', scLabels = []\<rparr>"

definition parseScopeURI :: "string \<Rightarrow> CertError + Scope" where
  "parseScopeURI raw =
    map_sum (certErr CodeCertProfile) id
      (if MaxScopeURIBytes < length raw then Inl URITooLong
       else case cutAt (CHR ''?'') raw of (base, query) \<Rightarrow>
         if base \<noteq> ScopeURI then Inl NotScopeURI
         else rbind (case query of
             None \<Rightarrow> Inr emptyScope
           | Some q \<Rightarrow> if q = '''' then Inl EmptyQuery
                      else parseScopeParams emptyScope (splitOn (CHR ''&'') q))
          (\<lambda>scope. case encodeScopeURI scope of
              Inl e \<Rightarrow> Inl (ScopeEncode e)
            | Inr canonical \<Rightarrow> if canonical \<noteq> raw then Inl (NotCanonical canonical) else Inr scope))"

definition scopeMatches :: "Scope \<Rightarrow> string \<Rightarrow> (string \<times> string) list \<Rightarrow> bool" where
  "scopeMatches s grp labels \<longleftrightarrow>
     (scGroup s = '''' \<or> scGroup s = grp)
     \<and> list_all (\<lambda>kv. map_of labels (fst kv) = Some (snd kv)) (scLabels s)"

subsection \<open>Certificates\<close>

datatype PublicKey = Ed25519Key string | ECDSAKey bool string | OtherKey

record Certificate =
  certURIs :: "(string \<times> string) list"
  certBasicConstraintsValid :: bool
  certIsCA :: bool
  certKeyUsage :: int
  certPublicKey :: PublicKey
  certCommonName :: string

datatype chainVerdict = ChainOK | ChainExpired string | ChainUntrusted string

text \<open>The cryptographic library: \<open>'r\<close> is a pool of trusted roots.\<close>

record 'r CryptoLib =
  libSHA256 :: "string \<Rightarrow> string"
  libJSON :: "string \<Rightarrow> string"
  libParseCert :: "string \<Rightarrow> Certificate option"
  libVerifyChain :: "'r \<Rightarrow> Certificate list \<Rightarrow> int \<Rightarrow> Certificate \<Rightarrow> chainVerdict"
  libEd25519 :: "string \<Rightarrow> string \<Rightarrow> string \<Rightarrow> bool"
  libECDSA :: "string \<Rightarrow> string \<Rightarrow> string \<Rightarrow> bool"
  libBase64 :: "string \<Rightarrow> string option"
  libParseTime :: "string \<Rightarrow> int option"

definition leafScope :: "Certificate \<Rightarrow> CertError + Scope" where
  "leafScope leaf =
    (case certURIs leaf of
       [] \<Rightarrow> Inl (certErr CodeCertProfile NoScopeURI)
     | [(scheme, uri)] \<Rightarrow>
         if scheme \<noteq> ''emisar'' then Inl (certErr CodeCertProfile NoScopeURI) else parseScopeURI uri
     | uris \<Rightarrow> Inl (certErr CodeCertProfile (ManyURIs (length uris))))"

definition claimVerifier :: "'r CryptoLib \<Rightarrow> PublicKey \<Rightarrow> CertError + (string \<Rightarrow> string \<Rightarrow> bool)" where
  "claimVerifier lib pub =
    (case pub of
       Ed25519Key k \<Rightarrow> Inr (libEd25519 lib k)
     | ECDSAKey p256 k \<Rightarrow>
         if \<not> p256 then Inl (certErr CodeCertProfile NotP256)
         else Inr (\<lambda>msg. libECDSA lib k (libSHA256 lib msg))
     | OtherKey \<Rightarrow> Inl (certErr CodeCertProfile KeyAlgorithm))"

definition checkLeafProfile :: "'r CryptoLib \<Rightarrow> Certificate \<Rightarrow> CertError option" where
  "checkLeafProfile lib leaf =
    (if certBasicConstraintsValid leaf \<and> certIsCA leaf then Some (certErr CodeCertProfile CALeaf)
     else if certKeyUsage leaf \<noteq> 0 \<and> certKeyUsage leaf mod 2 = 0
       then Some (certErr CodeCertProfile KeyUsageForbids)
     else case claimVerifier lib (certPublicKey leaf) of Inl e \<Rightarrow> Some e | Inr v \<Rightarrow> None)"

fun parseCerts :: "'r CryptoLib \<Rightarrow> nat \<Rightarrow> string list \<Rightarrow> CertError + Certificate list" where
  "parseCerts lib i [] = Inr []"
| "parseCerts lib i (der # ders) =
    (case libParseCert lib der of
       None \<Rightarrow> Inl (certErr CodeCertProfile (CertUnparsed i))
     | Some c \<Rightarrow> rbind (parseCerts lib (Suc i) ders) (\<lambda>cs. Inr (c # cs)))"

definition verifyChain ::
  "'r CryptoLib \<Rightarrow> 'r \<Rightarrow> string list \<Rightarrow> int \<Rightarrow> CertError + Certificate \<times> Scope" where
  "verifyChain lib roots chain now =
    (if chain = [] then Inl (certErr CodeCertProfile EmptyChain)
     else if MaxChainCerts < length chain then Inl (certErr CodeCertProfile (TooManyCerts (length chain)))
     else rbind (parseCerts lib 0 chain) (\<lambda>parsed.
       let leaf = hd parsed in
       case libVerifyChain lib roots (tl parsed) now leaf of
         ChainExpired e \<Rightarrow> Inl (certErr CodeCertExpired (ChainInvalid e))
       | ChainUntrusted e \<Rightarrow> Inl (certErr CodeCertUntrusted (ChainInvalid e))
       | ChainOK \<Rightarrow> rbind (leafScope leaf) (\<lambda>scope.
           case checkLeafProfile lib leaf of Some e \<Rightarrow> Inl e | None \<Rightarrow> Inr (leaf, scope))))"

text \<open>\<open>hex.DecodeString\<close>.\<close>

fun hexDecode :: "string \<Rightarrow> string option" where
  "hexDecode [] = Some []"
| "hexDecode (a # s) =
    (case s of
       [] \<Rightarrow> None
     | b # rest \<Rightarrow>
         (case (hexVal a, hexVal b) of
            (Some x, Some y) \<Rightarrow> map_option ((#) (char_of (16 * x + y))) (hexDecode rest)
          | _ \<Rightarrow> None))"

text \<open>\<open>None\<close> is the error of a malformed claim or signature.\<close>

definition verifyClaim :: "'r CryptoLib \<Rightarrow> Certificate \<Rightarrow> Claim \<Rightarrow> string \<Rightarrow> bool option" where
  "verifyClaim lib leaf c sigHex =
    (case claimVerifier lib (certPublicKey leaf) of
       Inl e \<Rightarrow> None
     | Inr verify \<Rightarrow>
         (case signingBytes (libSHA256 lib) (libJSON lib) c of
            Inl e \<Rightarrow> None
          | Inr msg \<Rightarrow> map_option (verify msg) (hexDecode sigHex)))"

definition hexLower :: "nat \<Rightarrow> char" where
  "hexLower n = (if n < 10 then char_of (48 + n) else char_of (87 + n))"

definition hexEncode :: "string \<Rightarrow> string" where
  "hexEncode s = concat (map (\<lambda>c. [hexLower (byte c div 16), hexLower (byte c mod 16)]) s)"

text \<open>A \<open>crypto.Signer\<close>: its public key, and signing of a message or of a digest, which may fail.\<close>

record Signer =
  sgPublic :: PublicKey
  sgSign :: "string \<Rightarrow> string option"

datatype sign_error = NoClaimBytes attest_error | SignerFailed | SignerAlgorithm

definition signClaim :: "'r CryptoLib \<Rightarrow> Signer \<Rightarrow> Claim \<Rightarrow> sign_error + string" where
  "signClaim lib signer c =
    (case signingBytes (libSHA256 lib) (libJSON lib) c of
       Inl e \<Rightarrow> Inl (NoClaimBytes e)
     | Inr msg \<Rightarrow>
         (case sgPublic signer of
            Ed25519Key k \<Rightarrow>
              (case sgSign signer msg of None \<Rightarrow> Inl SignerFailed | Some sig \<Rightarrow> Inr (hexEncode sig))
          | ECDSAKey p256 k \<Rightarrow>
              (case sgSign signer (libSHA256 lib msg) of None \<Rightarrow> Inl SignerFailed | Some sig \<Rightarrow> Inr (hexEncode sig))
          | OtherKey \<Rightarrow> Inl SignerAlgorithm))"

subsection \<open>Runner references\<close>

definition suffixLength :: nat where "suffixLength = 32"

definition refSuffix :: "(string \<Rightarrow> string) \<Rightarrow> string \<Rightarrow> string option" where
  "refSuffix sha externalID =
    (if externalID = '''' then None else Some (take suffixLength (sha externalID)))"

definition lowerHex :: "char \<Rightarrow> bool" where
  "lowerHex c \<longleftrightarrow> within 48 57 c \<or> within 97 102 c"

text \<open>\<open>Matches\<close>: the last tilde is the only one, with something before it and exactly the suffix
  of the local id after it.\<close>

definition refMatches :: "(string \<Rightarrow> string) \<Rightarrow> string \<Rightarrow> string \<Rightarrow> bool" where
  "refMatches sha ref externalID =
    (case cutAt (CHR ''~'') (rev ref) of
       (_, None) \<Rightarrow> False
     | (revSuffix, Some revName) \<Rightarrow>
         (let suffix = rev revSuffix in
          revName \<noteq> '''' \<and> CHR ''~'' \<notin> set revName \<and> length suffix = suffixLength
          \<and> list_all lowerHex suffix \<and> refSuffix sha externalID = Some suffix))"

definition containsLocal :: "(string \<Rightarrow> string) \<Rightarrow> string list \<Rightarrow> string \<Rightarrow> bool" where
  "containsLocal sha refs externalID \<longleftrightarrow> length (filter (\<lambda>r. refMatches sha r externalID) refs) = 1"

subsection \<open>Percent coding\<close>

text \<open>What the scope codec needs of the coding of one component: it can be undone, and what it
  writes never contains a delimiter.\<close>

locale component_code =
  fixes encode :: "string \<Rightarrow> string" and decode :: "string \<Rightarrow> string option"
  assumes undo: "decode (encode s) = Some s"
    and plain: "c \<in> set (encode s) \<Longrightarrow> c \<notin> {CHR ''&'', CHR ''='', CHR ''?''}"
begin

lemma encode_inj: "encode s = encode t \<Longrightarrow> s = t"
  by (metis undo option.inject)

lemma no_delimiter:
  "CHR ''&'' \<notin> set (encode s)" "CHR ''='' \<notin> set (encode s)" "CHR ''?'' \<notin> set (encode s)"
  using plain by blast+

end

lemma hexVal_hexUpper: "n < 16 \<Longrightarrow> hexVal (hexUpper n) = Some n"
  by (auto simp: hexVal_def hexUpper_def byte_def Let_def)

lemma byte_bound: "byte c < 256"
  by (simp add: byte_def)

lemma char_of_byte: "char_of (byte c) = c"
  by (simp add: byte_def)

lemma decode_encodeByte: "decodeScopeComponent (encodeByte c @ s) = map_option ((#) c) (decodeScopeComponent s)"
proof (cases "isUnreserved c")
  case True
  moreover have "\<not> isUnreserved (CHR ''%'')" by (simp add: isUnreserved_def within_def byte_def)
  ultimately have "c \<noteq> CHR ''%''" by auto
  with True show ?thesis by (simp add: encodeByte_def)
next
  case False
  have "byte c div 16 < 16" "byte c mod 16 < 16" using byte_bound [of c] by auto
  moreover have "16 * (byte c div 16) + byte c mod 16 = byte c" by simp
  ultimately show ?thesis using False by (simp add: encodeByte_def hexVal_hexUpper char_of_byte)
qed

lemma decode_encode: "decodeScopeComponent (encodeScopeComponent s) = Some s"
proof (induction s)
  case (Cons c s)
  then show ?case using decode_encodeByte [of c "encodeScopeComponent s"]
    by (simp add: encodeScopeComponent_def)
qed (simp add: encodeScopeComponent_def)

lemma hexUpper_plain: "n < 16 \<Longrightarrow> hexUpper n \<notin> {CHR ''&'', CHR ''='', CHR ''?''}"
proof
  assume n: "n < 16" and h: "hexUpper n \<in> {CHR ''&'', CHR ''='', CHR ''?''}"
  have "hexVal (hexUpper n) = Some n" by (rule hexVal_hexUpper [OF n])
  moreover have "hexVal (CHR ''&'') = None" "hexVal (CHR ''='') = None" "hexVal (CHR ''?'') = None"
    by (simp_all add: hexVal_def byte_def)
  ultimately show False using h by auto
qed

lemma encode_plain: "c \<in> set (encodeScopeComponent s) \<Longrightarrow> c \<notin> {CHR ''&'', CHR ''='', CHR ''?''}"
proof -
  assume "c \<in> set (encodeScopeComponent s)"
  then obtain d where d: "c \<in> set (encodeByte d)" by (auto simp: encodeScopeComponent_def)
  have "byte d div 16 < 16" "byte d mod 16 < 16" using byte_bound [of d] by auto
  then have "hexUpper (byte d div 16) \<notin> {CHR ''&'', CHR ''='', CHR ''?''}"
      "hexUpper (byte d mod 16) \<notin> {CHR ''&'', CHR ''='', CHR ''?''}" using hexUpper_plain by blast+
  then show ?thesis using d
    by (auto simp: encodeByte_def isUnreserved_def within_def byte_def split: if_splits)
qed

interpretation percent: component_code encodeScopeComponent decodeScopeComponent
  by unfold_locales (rule decode_encode, rule encode_plain)

subsection \<open>One spelling of a scope\<close>

lemma cutAt_found: "d \<notin> set a \<Longrightarrow> cutAt d (a @ d # b) = (a, Some b)"
  by (induction a) auto

lemma cutAt_absent: "d \<notin> set a \<Longrightarrow> cutAt d a = (a, None)"
  by (induction a) auto

text \<open>A parameter of the query: the group, or one label.\<close>

definition renderParam :: "string + string \<times> string \<Rightarrow> string" where
  "renderParam p = (case p of Inl g \<Rightarrow> groupParam g | Inr kv \<Rightarrow> labelParam kv)"

definition scopeItems :: "Scope \<Rightarrow> (string + string \<times> string) list" where
  "scopeItems s = (if scGroup s = '''' then [] else [Inl (scGroup s)]) @ map Inr (scLabels s)"

lemma scopeParams_items: "scopeParams s = map renderParam (scopeItems s)"
  by (simp add: scopeParams_def scopeItems_def renderParam_def)

lemma parse_group:
  assumes "g \<noteq> ''''" and "scGroup s = ''''"
  shows "parseScopeParam s (groupParam g) = Inr (s\<lparr>scGroup := g\<rparr>)"
proof -
  have "cutAt (CHR ''='') (groupParam g) = (''group'', Some (encodeScopeComponent g))"
    using cutAt_found [of "CHR ''=''" "''group''"] by (simp add: groupParam_def)
  with assms show ?thesis by (simp add: parseScopeParam_def percent.undo)
qed

lemma parse_label:
  assumes "k \<noteq> ''''" and "k \<notin> fst ` set (scLabels s)"
  shows "parseScopeParam s (labelParam (k, v)) = Inr (s\<lparr>scLabels := scLabels s @ [(k, v)]\<rparr>)"
proof -
  have "CHR ''='' \<notin> set (''label.'' @ encodeScopeComponent k)" using percent.no_delimiter(2) by auto
  from cutAt_found [OF this, of "encodeScopeComponent v"]
  have c: "cutAt (CHR ''='') (labelParam (k, v))
      = (''label.'' @ encodeScopeComponent k, Some (encodeScopeComponent v))" by (simp add: labelParam_def)
  have "map_of (scLabels s) k = None" using assms(2) by (simp add: map_of_eq_None_iff)
  with c assms(1) show ?thesis by (simp add: parseScopeParam_def percent.undo)
qed

definition labelsOf :: "(string + string \<times> string) list \<Rightarrow> (string \<times> string) list" where
  "labelsOf items = concat (map (\<lambda>i. case i of Inl g \<Rightarrow> [] | Inr kv \<Rightarrow> [kv]) items)"

definition groupsOf :: "(string + string \<times> string) list \<Rightarrow> string list" where
  "groupsOf items = concat (map (\<lambda>i. case i of Inl g \<Rightarrow> [g] | Inr kv \<Rightarrow> []) items)"

lemma items_simps [simp]:
  "labelsOf [] = []" "labelsOf (Inl g # is) = labelsOf is" "labelsOf (Inr kv # is) = kv # labelsOf is"
  "groupsOf [] = []" "groupsOf (Inl g # is) = g # groupsOf is" "groupsOf (Inr kv # is) = groupsOf is"
  by (simp_all add: labelsOf_def groupsOf_def)

lemma parse_items:
  assumes "distinct (map fst (scLabels s @ labelsOf is))" and "'''' \<notin> fst ` set (labelsOf is)"
    and "groupsOf is = [] \<or> (\<exists>g. groupsOf is = [g] \<and> g \<noteq> '''' \<and> scGroup s = '''')"
  shows "parseScopeParams s (map renderParam is) = Inr (s\<lparr>scGroup := (case groupsOf is of [] \<Rightarrow> scGroup s | g # _ \<Rightarrow> g),
      scLabels := scLabels s @ labelsOf is\<rparr>)"
  using assms
proof (induction "is" arbitrary: s)
  case (Cons i "is")
  show ?case
  proof (cases i)
    case (Inl g)
    with Cons.prems have g: "g \<noteq> ''''" "scGroup s = ''''" "groupsOf is = []" by auto
    with Cons.prems Inl Cons.IH [of "s\<lparr>scGroup := g\<rparr>"] show ?thesis
      by (simp add: renderParam_def parse_group)
  next
    case (Inr kv)
    obtain k v where kv: "kv = (k, v)" by force
    with Inr Cons.prems have k: "k \<noteq> ''''" "k \<notin> fst ` set (scLabels s)" by auto
    let ?s = "s\<lparr>scLabels := scLabels s @ [(k, v)]\<rparr>"
    have "distinct (map fst (scLabels ?s @ labelsOf is))" "'''' \<notin> fst ` set (labelsOf is)"
      "groupsOf is = [] \<or> (\<exists>g. groupsOf is = [g] \<and> g \<noteq> '''' \<and> scGroup ?s = '''')"
      using Cons.prems Inr kv by auto
    from Cons.IH [OF this] show ?thesis using Inr kv k
      by (cases "groupsOf is") (simp_all add: renderParam_def parse_label)
  qed
qed simp

lemma labels_items [simp]: "labelsOf (scopeItems s) = scLabels s"
proof -
  have "labelsOf (map Inr kvs) = kvs" for kvs by (induction kvs) simp_all
  then show ?thesis by (simp add: scopeItems_def)
qed

lemma groups_items [simp]: "groupsOf (scopeItems s) = (if scGroup s = '''' then [] else [scGroup s])"
proof -
  have "groupsOf (map Inr kvs) = []" for kvs by (induction kvs) simp_all
  then show ?thesis by (simp add: scopeItems_def)
qed

lemma mset_labelsOf: "mset xs = mset ys \<Longrightarrow> mset (labelsOf xs) = mset (labelsOf ys)"
  and mset_groupsOf: "mset xs = mset ys \<Longrightarrow> mset (groupsOf xs) = mset (groupsOf ys)"
proof -
  have "mset (labelsOf xs) = (\<Sum>i\<in>#mset xs. case i of Inl g \<Rightarrow> {#} | Inr kv \<Rightarrow> {#kv#})" for xs
    by (induction xs) (auto split: sum.splits)
  moreover have "mset (groupsOf xs) = (\<Sum>i\<in>#mset xs. case i of Inl g \<Rightarrow> {#g#} | Inr kv \<Rightarrow> {#})" for xs
    by (induction xs) (auto split: sum.splits)
  ultimately show "mset xs = mset ys \<Longrightarrow> mset (labelsOf xs) = mset (labelsOf ys)"
    "mset xs = mset ys \<Longrightarrow> mset (groupsOf xs) = mset (groupsOf ys)" by simp_all
qed

lemma sorted_items:
  obtains "is" where "sort (map f xs) = map f is" "mset is = mset xs"
proof
  show "sort (map f xs) = map f (sort_key f xs)" by (rule properties_for_sort) simp_all
  show "mset (sort_key f xs) = mset xs" by simp
qed

definition scopeWF :: "Scope \<Rightarrow> bool" where
  "scopeWF s \<longleftrightarrow> distinct (map fst (scLabels s)) \<and> '''' \<notin> fst ` set (scLabels s)"

text \<open>What one scope means: its group and its label map.\<close>

definition sameScope :: "Scope \<Rightarrow> Scope \<Rightarrow> bool" where
  "sameScope s t \<longleftrightarrow> scGroup s = scGroup t \<and> map_of (scLabels s) = map_of (scLabels t)"

lemma sameScope_params:
  assumes "scopeWF s" and "scopeWF t"
  shows "sameScope s t \<longleftrightarrow> scGroup s = scGroup t \<and> mset (scLabels s) = mset (scLabels t)"
proof -
  have d: "distinct (scLabels s)" "distinct (scLabels t)"
    using assms by (auto simp: scopeWF_def distinct_map)
  have "map_of (scLabels s) = map_of (scLabels t) \<longleftrightarrow> set (scLabels s) = set (scLabels t)"
    using assms by (simp add: scopeWF_def map_of_inject_set)
  with set_eq_iff_mset_eq_distinct [OF d] show ?thesis by (simp add: sameScope_def)
qed

lemma sort_mset: "mset xs = mset ys \<Longrightarrow> sort xs = sort ys"
  by (metis mset_sort properties_for_sort sorted_sort)

lemma encode_sameScope:
  assumes "scGroup s = scGroup t" and "mset (scLabels s) = mset (scLabels t)"
  shows "encodeScopeURI s = encodeScopeURI t"
proof -
  have "mset (scopeParams s) = mset (scopeParams t)" using assms by (simp add: scopeParams_def)
  then have "sort (scopeParams s) = sort (scopeParams t)" by (rule sort_mset)
  moreover have "set (scLabels s) = set (scLabels t)" using assms(2) by (metis set_mset_mset)
  ultimately show ?thesis by (simp add: encodeScopeURI_def)
qed

lemma renderParam_plain: "CHR ''&'' \<notin> set (renderParam i)" "renderParam i \<noteq> ''''"
  using percent.no_delimiter(1)
  by (auto simp: renderParam_def groupParam_def labelParam_def split: sum.splits)

lemma joinWith_nonempty: "ws \<noteq> [] \<Longrightarrow> '''' \<notin> set ws \<Longrightarrow> joinWith sep ws \<noteq> ''''"
  by (cases "(sep, ws)" rule: joinWith.cases) auto

lemma parse_encoded:
  assumes "encodeScopeURI s = Inr raw" and "distinct (map fst (scLabels s))"
  shows "\<exists>t. parseScopeURI raw = Inr t \<and> scopeWF t \<and> scGroup t = scGroup s
    \<and> mset (scLabels t) = mset (scLabels s)"
proof -
  let ?ps = "sort (scopeParams s)"
  from assms(1) have e: "'''' \<notin> fst ` set (scLabels s)" and len: "length raw \<le> MaxScopeURIBytes"
    and raw: "raw = (if ?ps = [] then ScopeURI else ScopeURI @ ''?'' @ joinWith ''&'' ?ps)"
    by (auto simp: encodeScopeURI_def Let_def split: if_splits)
  obtain "is" where items: "?ps = map renderParam is" "mset is = mset (scopeItems s)"
    using sorted_items [of renderParam "scopeItems s"] by (auto simp: scopeParams_items)
  have ml: "mset (labelsOf is) = mset (scLabels s)"
    using mset_labelsOf [OF items(2)] by simp
  have mg: "mset (groupsOf is) = mset (if scGroup s = '''' then [] else [scGroup s])"
    using mset_groupsOf [OF items(2)] by simp
  then have g: "groupsOf is = (if scGroup s = '''' then [] else [scGroup s])"
    by (auto split: if_splits)
  have sl: "set (labelsOf is) = set (scLabels s)" using ml by (metis set_mset_mset)
  have dl: "distinct (map fst (labelsOf is))"
    using ml assms(2) by (metis mset_map distinct_count_atmost_1 mset_eq_imp_distinct_iff)
  define t where "t = \<lparr>scGroup = scGroup s, scLabels = labelsOf is\<rparr>"
  have pp: "parseScopeParams emptyScope ?ps = Inr t"
    unfolding items(1) using dl e sl g
    by (subst parse_items) (auto simp: emptyScope_def t_def split: if_splits)
  have wf: "scopeWF t" using dl e sl by (simp add: t_def scopeWF_def)
  have "encodeScopeURI t = encodeScopeURI s"
    by (rule encode_sameScope) (simp_all add: t_def ml)
  then have enc: "encodeScopeURI t = Inr raw" using assms(1) by simp
  have q: "CHR ''?'' \<notin> set ScopeURI" by (simp add: ScopeURI_def)
  have "parseScopeURI raw = Inr t"
  proof (cases "?ps = []")
    case True
    with pp have "t = emptyScope" by simp
    moreover have "cutAt (CHR ''?'') raw = (ScopeURI, None)" using True raw cutAt_absent [OF q] by simp
    ultimately show ?thesis using len enc by (simp add: parseScopeURI_def)
  next
    case False
    have ne: "joinWith ''&'' ?ps \<noteq> ''''"
      using False by (intro joinWith_nonempty) (auto simp: items(1), metis renderParam_plain(2))
    have sp: "splitOn (CHR ''&'') (joinWith ''&'' ?ps) = ?ps"
      using False renderParam_plain(1) by (intro splitOn_joinWith) (auto simp: items(1))
    have "cutAt (CHR ''?'') raw = (ScopeURI, Some (joinWith ''&'' ?ps))"
      using False raw cutAt_found [OF q] by simp
    then show ?thesis using len enc ne sp pp by (simp add: parseScopeURI_def)
  qed
  with wf show ?thesis using ml by (auto simp: t_def)
qed

lemma parseScopeParam_WF: "parseScopeParam s p = Inr t \<Longrightarrow> scopeWF s \<Longrightarrow> scopeWF t"
  by (auto simp: parseScopeParam_def scopeWF_def map_of_eq_None_iff split: option.splits if_splits prod.splits)

lemma parseScopeParams_WF: "parseScopeParams s ps = Inr t \<Longrightarrow> scopeWF s \<Longrightarrow> scopeWF t"
  by (induction ps arbitrary: s) (auto simp: rbind_eq_Inr dest: parseScopeParam_WF)

lemma parseScopeURI_Inr:
  assumes "parseScopeURI raw = Inr s"
  shows "encodeScopeURI s = Inr raw \<and> scopeWF s"
proof -
  have wf: "scopeWF emptyScope" by (simp add: scopeWF_def emptyScope_def)
  obtain base query where c: "cutAt (CHR ''?'') raw = (base, query)" by force
  let ?parsed = "case query of None \<Rightarrow> Inr emptyScope
           | Some q \<Rightarrow> if q = '''' then Inl EmptyQuery else parseScopeParams emptyScope (splitOn (CHR ''&'') q)"
  have map_sum_Inr: "map_sum f id x = Inr y \<longleftrightarrow> x = Inr y" for f :: "cert_reason \<Rightarrow> CertError" and x and y :: Scope
    by (cases x) auto
  have r: "rbind ?parsed (\<lambda>scope. case encodeScopeURI scope of
              Inl e \<Rightarrow> Inl (ScopeEncode e)
            | Inr canonical \<Rightarrow> if canonical \<noteq> raw then Inl (NotCanonical canonical) else Inr scope) = Inr s"
    using assms c by (auto simp: parseScopeURI_def map_sum_Inr split: if_splits)
  then obtain t where t: "?parsed = Inr t" and e0: "(case encodeScopeURI t of
              Inl e \<Rightarrow> Inl (ScopeEncode e)
            | Inr canonical \<Rightarrow> if canonical \<noteq> raw then Inl (NotCanonical canonical) else Inr t) = Inr s"
    by (auto simp: rbind_eq_Inr)
  from e0 have e: "encodeScopeURI t = Inr raw" "t = s"
    by (cases "encodeScopeURI t"; force split: if_splits)+
  have "scopeWF t" using t wf
    by (cases query) (auto split: if_splits dest: parseScopeParams_WF)
  with e show ?thesis by blast
qed

text \<open>C29: The scope URI of a certificate is a faithful and unique spelling.  Parsing what the
  encoder writes gives the same group and the same label map, and two URIs that the parser accepts
  with the same meaning are the same bytes, so an issuer and a runner cannot read one scope in two
  ways.\<close>

theorem scope_spelling_unique:
  "(encodeScopeURI s = Inr raw \<and> distinct (map fst (scLabels s)) \<longrightarrow>
      (\<exists>t. parseScopeURI raw = Inr t \<and> sameScope t s))
   \<and> (parseScopeURI raw1 = Inr s1 \<and> parseScopeURI raw2 = Inr s2 \<and> sameScope s1 s2 \<longrightarrow> raw1 = raw2)"
proof (intro conjI impI)
  assume "encodeScopeURI s = Inr raw \<and> distinct (map fst (scLabels s))"
  then obtain t where t: "parseScopeURI raw = Inr t" "scopeWF t" "scGroup t = scGroup s"
      "mset (scLabels t) = mset (scLabels s)" and e: "encodeScopeURI s = Inr raw"
      "distinct (map fst (scLabels s))" using parse_encoded by blast
  have "scopeWF s" using e by (auto simp: encodeScopeURI_def scopeWF_def split: if_splits)
  with t show "\<exists>t. parseScopeURI raw = Inr t \<and> sameScope t s" using sameScope_params by metis
next
  assume a: "parseScopeURI raw1 = Inr s1 \<and> parseScopeURI raw2 = Inr s2 \<and> sameScope s1 s2"
  then have e: "encodeScopeURI s1 = Inr raw1" "encodeScopeURI s2 = Inr raw2" "scopeWF s1" "scopeWF s2"
    using parseScopeURI_Inr by blast+
  with a have "scGroup s1 = scGroup s2" "mset (scLabels s1) = mset (scLabels s2)"
    using sameScope_params by blast+
  from encode_sameScope [OF this] e show "raw1 = raw2" by simp
qed

definition sampleScope :: Scope where
  "sampleScope = \<lparr>scGroup = ''prod'', scLabels = [(''team'', ''a b''), (''rack'', '''')]\<rparr>"

theorem scope_spelling_unique_witness:
  "encodeScopeURI sampleScope = Inr ''emisar://dispatch/v1?group=prod&label.rack=&label.team=a%20b''
   \<and> (\<exists>t. parseScopeURI ''emisar://dispatch/v1?group=prod&label.rack=&label.team=a%20b'' = Inr t
        \<and> sameScope t sampleScope)"
proof -
  have e: "encodeScopeURI sampleScope = Inr ''emisar://dispatch/v1?group=prod&label.rack=&label.team=a%20b''"
    by code_simp
  have "distinct (map fst (scLabels sampleScope))" by (simp add: sampleScope_def)
  with scope_spelling_unique [of sampleScope] e show ?thesis by blast
qed

subsection \<open>What a signature binds\<close>

text \<open>The spelling of a string can be read back from the front of a text, for the strings JSON
  decoding produces.\<close>

definition selfDelimiting :: "(string \<Rightarrow> string) \<Rightarrow> bool" where
  "selfDelimiting jstr \<longleftrightarrow> (\<forall>a b x y. validString a \<and> validString b \<and> jstr a @ x = jstr b @ y
     \<longrightarrow> a = b \<and> x = y)"

lemma selfDelimitingD:
  "selfDelimiting jstr \<Longrightarrow> jstr a @ x = jstr b @ y \<Longrightarrow> validString a \<Longrightarrow> validString b \<Longrightarrow> a = b \<and> x = y"
  unfolding selfDelimiting_def by blast

lemma joinWith_Cons: "joinWith sep (w # ws) = w @ (if ws = [] then [] else sep @ joinWith sep ws)"
  by (cases ws) simp_all

lemma jsonStruct_inj:
  assumes j: "selfDelimiting jstr" and eq: "jsonStruct jstr kvs = jsonStruct jstr kvs'"
    and names: "map fst kvs = map fst kvs'"
    and valid: "\<forall>v \<in> snd ` set kvs \<union> snd ` set kvs'. validString v"
  shows "kvs = kvs'"
proof -
  let ?f = "\<lambda>kv. jstr (fst kv) @ '':'' @ jstr (snd kv)"
  have "kvs = kvs'" if "joinWith '','' (map ?f kvs) @ ''}'' = joinWith '','' (map ?f kvs') @ ''}''"
    using that names valid
  proof (induction kvs arbitrary: kvs')
    case (Cons kv kvs)
    obtain kv' rest' where k: "kvs' = kv' # rest'" using Cons.prems(2) by (cases kvs') auto
    let ?tail = "\<lambda>l. (if l = [] then [] else '','' @ joinWith '','' (map ?f l)) @ ''}''"
    have fst_eq: "fst kv = fst kv'" using Cons.prems(2) k by simp
    have head: "joinWith '','' (map ?f (p # l)) @ ''}'' = jstr (fst p) @ '':'' @ jstr (snd p) @ ?tail l" for p l
      by (simp add: joinWith_Cons)
    have "jstr (snd kv) @ ?tail kvs = jstr (snd kv') @ ?tail rest'"
      using Cons.prems(1) unfolding k head fst_eq same_append_eq .
    moreover have "validString (snd kv)" "validString (snd kv')" using Cons.prems(3) k by simp_all
    ultimately have s: "snd kv = snd kv'" "?tail kvs = ?tail rest'" using selfDelimitingD [OF j] by blast+
    have l: "length kvs = length rest'" using arg_cong [OF Cons.prems(2), of length] k by simp
    then have "joinWith '','' (map ?f kvs) @ ''}'' = joinWith '','' (map ?f rest') @ ''}''"
      using s(2) by (auto split: if_splits)
    from Cons.IH [OF this] Cons.prems(2,3) k fst_eq s(1) show ?case by (simp add: prod_eq_iff)
  qed simp
  with eq show ?thesis by (simp add: jsonStruct_def)
qed

lemma jsonList_inj:
  assumes j: "selfDelimiting jstr" and eq: "jsonList jstr ss = jsonList jstr ts"
    and ne: "ss \<noteq> []" "ts \<noteq> []" and valid: "\<forall>v \<in> set ss \<union> set ts. validString v"
  shows "ss = ts"
proof -
  have "ss = ts" if "joinWith '','' (map jstr ss) @ '']'' = joinWith '','' (map jstr ts) @ '']''"
    using that ne valid
  proof (induction ss arbitrary: ts)
    case (Cons s ss)
    obtain t rest where t: "ts = t # rest" using Cons.prems(3) by (cases ts) auto
    let ?tail = "\<lambda>l. (if l = [] then [] else '','' @ joinWith '','' (map jstr l)) @ '']''"
    have head: "joinWith '','' (map jstr (p # l)) @ '']'' = jstr p @ ?tail l" for p l
      by (simp add: joinWith_Cons)
    have "jstr s @ ?tail ss = jstr t @ ?tail rest" using Cons.prems(1) unfolding t head .
    moreover have "validString s" "validString t" using Cons.prems(4) t by simp_all
    ultimately have s: "s = t" "?tail ss = ?tail rest" using selfDelimitingD [OF j] by blast+
    show ?case
    proof (cases "ss = []")
      case True
      with s t show ?thesis by (auto split: if_splits)
    next
      case False
      with s(2) have r: "rest \<noteq> []" "joinWith '','' (map jstr ss) @ '']'' = joinWith '','' (map jstr rest) @ '']''"
        by (auto split: if_splits)
      from Cons.IH [OF r(2) False r(1)] Cons.prems(4) t s(1) show ?thesis by simp
    qed
  qed simp
  with eq show ?thesis by (simp add: jsonList_def)
qed

definition normalArgs :: "string \<Rightarrow> string" where
  "normalArgs raw = (if raw = '''' then ''{}'' else raw)"

definition claimTexts :: "Claim \<Rightarrow> string list" where
  "claimTexts c = [PortalOrigin c, clmActionID c, clmPackRef c, clmReason c, EvidenceSHA256 c,
     ExpectedSHA256 c, clmOperationID c, Nonce c, IssuedAt c] @ clmRunnerRefs c"

definition noCollision :: "(string \<Rightarrow> string) \<Rightarrow> string \<Rightarrow> string \<Rightarrow> bool" where
  "noCollision sha a b \<longleftrightarrow> (sha a = sha b \<longrightarrow> a = b)"

lemma canonicalRunnerRefs_Inr:
  "canonicalRunnerRefs refs = Inr cs \<Longrightarrow> refs \<noteq> [] \<and> cs = sort refs \<and> length refs \<le> MaxRunnerRefs"
  by (auto simp: canonicalRunnerRefs_def split: if_splits option.splits)

lemma argsSHA256_Inr: "argsSHA256 sha raw = Inr d \<Longrightarrow> d = sha (normalArgs raw)"
  by (auto simp: argsSHA256_def normalArgs_def Let_def split: option.splits json.splits if_splits)

definition signedFields :: "(string \<Rightarrow> string) \<Rightarrow> (string \<Rightarrow> string) \<Rightarrow> Claim \<Rightarrow> (string \<times> string) list" where
  "signedFields sha jstr c =
    [(''version'', attVersion), (''tool'', attTool), (''portal_origin'', PortalOrigin c),
     (''action_id'', clmActionID c), (''pack_ref'', clmPackRef c),
     (''args_sha256'', sha (normalArgs (clmArgsRaw c))),
     (''runner_refs_sha256'', sha (jsonList jstr (sort (clmRunnerRefs c)))), (''reason'', clmReason c),
     (''evidence_sha256'', narrativeDigest sha (EvidenceSHA256 c) (Evidence c)),
     (''expected_sha256'', narrativeDigest sha (ExpectedSHA256 c) (Expected c)),
     (''operation_id'', clmOperationID c), (''nonce'', Nonce c), (''issued_at'', IssuedAt c)]"

lemma signingBytes_Inr:
  assumes "signingBytes sha jstr c = Inr msg"
  shows "msg = jsonStruct jstr (signedFields sha jstr c) \<and> clmRunnerRefs c \<noteq> []"
  using assms by (auto simp: signingBytes_def signedFields_def rbind_eq_Inr
      dest!: argsSHA256_Inr canonicalRunnerRefs_Inr)

lemma valid_signedFields:
  assumes "\<forall>x. validString (sha x)" and "\<forall>t \<in> set (claimTexts c). validString t"
  shows "\<forall>v \<in> snd ` set (signedFields sha jstr c). validString v"
proof -
  have "validString attVersion" "validString attTool" by code_simp+
  with assms show ?thesis by (simp add: signedFields_def claimTexts_def narrativeDigest_def)
qed

text \<open>A signature binds the whole intent.  Two claims that are signed as the same bytes name
  the same portal, action, pack, operation, reason, nonce and time, carry the same argument bytes
  and the same set of runners, and the same narrative digests, when the JSON string spelling can be
  read back and the hash does not collide on the two argument texts and the two runner lists.\<close>

lemma signing_bytes_bind:
  assumes "signingBytes sha jstr c = Inr msg" and "signingBytes sha jstr c' = Inr msg"
    and "selfDelimiting jstr" and "\<forall>x. validString (sha x)"
    and "\<forall>t \<in> set (claimTexts c @ claimTexts c'). validString t"
    and "noCollision sha (normalArgs (clmArgsRaw c)) (normalArgs (clmArgsRaw c'))"
    and "noCollision sha (jsonList jstr (sort (clmRunnerRefs c))) (jsonList jstr (sort (clmRunnerRefs c')))"
  shows "PortalOrigin c = PortalOrigin c' \<and> clmActionID c = clmActionID c' \<and> clmPackRef c = clmPackRef c'
    \<and> normalArgs (clmArgsRaw c) = normalArgs (clmArgsRaw c')
    \<and> set (clmRunnerRefs c) = set (clmRunnerRefs c') \<and> clmReason c = clmReason c'
    \<and> clmOperationID c = clmOperationID c' \<and> Nonce c = Nonce c' \<and> IssuedAt c = IssuedAt c'
    \<and> narrativeDigest sha (EvidenceSHA256 c) (Evidence c) = narrativeDigest sha (EvidenceSHA256 c') (Evidence c')
    \<and> narrativeDigest sha (ExpectedSHA256 c) (Expected c) = narrativeDigest sha (ExpectedSHA256 c') (Expected c')"
proof -
  have m: "msg = jsonStruct jstr (signedFields sha jstr c)" "msg = jsonStruct jstr (signedFields sha jstr c')"
    and ne: "clmRunnerRefs c \<noteq> []" "clmRunnerRefs c' \<noteq> []"
    using signingBytes_Inr assms(1,2) by blast+
  have v: "\<forall>v \<in> snd ` set (signedFields sha jstr c) \<union> snd ` set (signedFields sha jstr c'). validString v"
  proof -
    have "\<forall>t \<in> set (claimTexts c). validString t" "\<forall>t \<in> set (claimTexts c'). validString t"
      using assms(5) by simp_all
    then show ?thesis using valid_signedFields [OF assms(4)] by blast
  qed
  have "signedFields sha jstr c = signedFields sha jstr c'"
    by (rule jsonStruct_inj [OF assms(3) _ _ v]) (use m in \<open>simp_all add: signedFields_def\<close>)
  then have f: "PortalOrigin c = PortalOrigin c'" "clmActionID c = clmActionID c'" "clmPackRef c = clmPackRef c'"
      "sha (normalArgs (clmArgsRaw c)) = sha (normalArgs (clmArgsRaw c'))"
      "sha (jsonList jstr (sort (clmRunnerRefs c))) = sha (jsonList jstr (sort (clmRunnerRefs c')))"
      "clmReason c = clmReason c'" "clmOperationID c = clmOperationID c'" "Nonce c = Nonce c'"
      "IssuedAt c = IssuedAt c'"
      "narrativeDigest sha (EvidenceSHA256 c) (Evidence c) = narrativeDigest sha (EvidenceSHA256 c') (Evidence c')"
      "narrativeDigest sha (ExpectedSHA256 c) (Expected c) = narrativeDigest sha (ExpectedSHA256 c') (Expected c')"
    by (simp_all add: signedFields_def)
  have sne: "sort (clmRunnerRefs c) \<noteq> []" "sort (clmRunnerRefs c') \<noteq> []"
    using ne by (metis set_empty set_sort)+
  have "jsonList jstr (sort (clmRunnerRefs c)) = jsonList jstr (sort (clmRunnerRefs c'))"
    using assms(7) f(5) by (simp add: noCollision_def)
  then have "sort (clmRunnerRefs c) = sort (clmRunnerRefs c')"
    by (rule jsonList_inj [OF assms(3)]) (use sne assms(5) in \<open>simp_all add: claimTexts_def\<close>)
  then have "set (clmRunnerRefs c) = set (clmRunnerRefs c')" by (metis set_sort)
  with f assms(6) show ?thesis by (simp add: noCollision_def)
qed

text \<open>A spelling that can be read back: quotes and backslashes escaped, between quotes.\<close>

definition sampleJSON :: "string \<Rightarrow> string" where
  "sampleJSON s = quote # concat (map (\<lambda>c. if c = quote \<or> c = bslash then [bslash, c] else [c]) s) @ [quote]"

lemma sampleJSON_delimits: "selfDelimiting sampleJSON"
proof -
  let ?esc = "\<lambda>s. concat (map (\<lambda>c. if c = quote \<or> c = bslash then [bslash, c] else [c]) s)"
  have q: "quote \<noteq> bslash" by (simp add: quote_def bslash_def)
  have "a = b \<and> x = y" if "?esc a @ quote # x = ?esc b @ quote # y" for a b x y
    using that
  proof (induction a arbitrary: b)
    case Nil
    then show ?case using q by (cases b) (auto split: if_splits)
  next
    case (Cons c a)
    obtain d b' where b: "b = d # b'"
      using Cons.prems q by (cases b) (auto split: if_splits)
    have "c = d" and eq: "?esc a @ quote # x = ?esc b' @ quote # y"
      using Cons.prems b q by (auto split: if_splits)
    with Cons.IH [OF eq] b show ?case by simp
  qed
  then have h: "?esc a @ quote # x = ?esc b @ quote # y \<Longrightarrow> a = b \<and> x = y" for a b x y by blast
  show ?thesis unfolding selfDelimiting_def
  proof (intro allI impI)
    fix a b x y
    assume "validString a \<and> validString b \<and> sampleJSON a @ x = sampleJSON b @ y"
    then have "?esc a @ quote # x = ?esc b @ quote # y" by (simp add: sampleJSON_def)
    then show "a = b \<and> x = y" by (rule h)
  qed
qed

lemma decoded_sample: "decodeAll ''{}'' = Some (JObject [])"
  by code_simp

subsection \<open>Signing and verifying agree\<close>

lemma hexVal_hexLower: "n < 16 \<Longrightarrow> hexVal (hexLower n) = Some n"
  by (auto simp: hexVal_def hexLower_def byte_def Let_def)

lemma hexDecode_hexEncode: "hexDecode (hexEncode s) = Some s"
proof (induction s)
  case (Cons c s)
  have "byte c div 16 < 16" "byte c mod 16 < 16" using byte_bound [of c] by auto
  moreover have "16 * (byte c div 16) + byte c mod 16 = byte c" by simp
  ultimately show ?case using Cons.IH by (simp add: hexEncode_def hexVal_hexLower char_of_byte)
qed (simp add: hexEncode_def)

text \<open>The two schemes: what a signer signs verifies under its public key.\<close>

definition honestSigner :: "'r CryptoLib \<Rightarrow> Signer \<Rightarrow> bool" where
  "honestSigner lib signer \<longleftrightarrow> (\<forall>m sig. sgSign signer m = Some sig \<longrightarrow>
     (case sgPublic signer of Ed25519Key k \<Rightarrow> libEd25519 lib k m sig
      | ECDSAKey p256 k \<Rightarrow> libECDSA lib k m sig | OtherKey \<Rightarrow> True))"

text \<open>C30: What the bridge signs, the runner verifies.  A claim signed by the key of a certificate
  verifies under that certificate, unless the key is an ECDSA key on another curve than P-256, which
  signs but is an error to verify; and the runner, which holds only the digests of the narrative,
  verifies the same signature as the bridge, which holds the text.\<close>

theorem signed_claim_verifies:
  assumes "signClaim lib signer c = Inr sig" and "honestSigner lib signer"
    and "certPublicKey leaf = sgPublic signer"
  shows "verifyClaim lib leaf c sig = (case sgPublic signer of ECDSAKey False k \<Rightarrow> None | _ \<Rightarrow> Some True)
    \<and> (EvidenceSHA256 c = '''' \<and> ExpectedSHA256 c = ''''
        \<and> libSHA256 lib (Evidence c) \<noteq> '''' \<and> libSHA256 lib (Expected c) \<noteq> '''' \<longrightarrow>
      verifyClaim lib leaf (c\<lparr>Evidence := '''', Expected := '''', EvidenceSHA256 := libSHA256 lib (Evidence c),
          ExpectedSHA256 := libSHA256 lib (Expected c)\<rparr>) sig = verifyClaim lib leaf c sig)"
proof -
  obtain msg where m: "signingBytes (libSHA256 lib) (libJSON lib) c = Inr msg"
    using assms(1) by (auto simp: signClaim_def split: sum.splits)
  have v: "verifyClaim lib leaf c sig = (case sgPublic signer of ECDSAKey False k \<Rightarrow> None | _ \<Rightarrow> Some True)"
    using assms m unfolding honestSigner_def
    by (auto simp: signClaim_def verifyClaim_def claimVerifier_def hexDecode_hexEncode
        split: PublicKey.splits option.splits bool.splits)
  let ?d = "c\<lparr>Evidence := '''', Expected := '''', EvidenceSHA256 := libSHA256 lib (Evidence c),
      ExpectedSHA256 := libSHA256 lib (Expected c)\<rparr>"
  have "verifyClaim lib leaf ?d sig = verifyClaim lib leaf c sig"
    if "EvidenceSHA256 c = '''' \<and> ExpectedSHA256 c = '''' \<and> libSHA256 lib (Evidence c) \<noteq> ''''
      \<and> libSHA256 lib (Expected c) \<noteq> ''''"
  proof -
    have eq: "signingBytes (libSHA256 lib) (libJSON lib) ?d = signingBytes (libSHA256 lib) (libJSON lib) c"
      using that by (simp add: signingBytes_def narrativeDigest_def)
    show ?thesis unfolding verifyClaim_def eq ..
  qed
  with v show ?thesis by blast
qed

text \<open>A key that signs a message with itself.\<close>

definition echoLib :: "unit CryptoLib" where
  "echoLib = \<lparr>libSHA256 = (\<lambda>x. ''0''), libJSON = sampleJSON, libParseCert = (\<lambda>x. None),
     libVerifyChain = (\<lambda>roots others now leaf. ChainUntrusted ''none''), libEd25519 = (\<lambda>k msg sig. sig = msg),
     libECDSA = (\<lambda>k msg sig. sig = msg), libBase64 = Some, libParseTime = (\<lambda>x. None)\<rparr>"

definition echoSigner :: Signer where
  "echoSigner = \<lparr>sgPublic = Ed25519Key ''k'', sgSign = Some\<rparr>"

definition echoClaim :: Claim where
  "echoClaim = \<lparr>clmActionID = ''fs.head'', clmPackRef = ''fs@1.0.0/h'', clmArgsRaw = ''{}'',
     clmRunnerRefs = [''b~1''], clmReason = ''check'', Evidence = ''seen'', Expected = '''',
     EvidenceSHA256 = '''', ExpectedSHA256 = '''', clmOperationID = ''op1'',
     PortalOrigin = ''https://p'', Nonce = ''n'', IssuedAt = ''t''\<rparr>"

theorem signed_claim_verifies_witness:
  "\<exists>sig. signClaim echoLib echoSigner echoClaim = Inr sig
     \<and> verifyClaim echoLib \<lparr>certURIs = [], certBasicConstraintsValid = False, certIsCA = False, certKeyUsage = 1,
         certPublicKey = Ed25519Key ''k'', certCommonName = ''leaf''\<rparr> echoClaim sig = Some True"
proof -
  have "signingBytes (libSHA256 echoLib) (libJSON echoLib) echoClaim \<noteq> Inl e" for e
    by (simp add: signingBytes_def argsSHA256_def canonicalRunnerRefs_def decoded_sample echoClaim_def
        MaxRunnerRefs_def MaxRunnerRefBytes_def)
  then obtain sig where s: "signClaim echoLib echoSigner echoClaim = Inr sig"
    by (cases "signingBytes (libSHA256 echoLib) (libJSON echoLib) echoClaim")
      (auto simp: signClaim_def echoSigner_def)
  have "honestSigner echoLib echoSigner" by (simp add: honestSigner_def echoSigner_def echoLib_def)
  from signed_claim_verifies [OF s this] s show ?thesis by (auto simp: echoSigner_def)
qed

end
