(* ===== verification/Nonce_Store.thy ===== *)
theory Nonce_Store
  imports Attest Dispatch_Store
begin

text \<open>
  The replay journal of \<open>runner/internal/signing/nonce_store.go\<close>: the accepted nonces in memory
  with their expiry queue, the journal file with its header, appends, compaction by replacement,
  and opening.  A line of the file is what the strict decoder reads from it, with its length in
  bytes; a file may end in an unterminated tail.  As in the dispatch log every input/output call
  takes its outcome from a script of faults, and a restart follows a crash that settles which of
  the replaced files survived and how much of the unsynced lines.  Times are nanoseconds.
\<close>

subsection \<open>The journal file\<close>

definition nonceJournalVersion :: int where "nonceJournalVersion = 1"
definition defaultMaxNonces :: nat where "defaultMaxNonces = 100000"
definition defaultMaxJournal :: nat where "defaultMaxJournal = 16777216"
definition defaultCompactAfter :: nat where "defaultCompactAfter = 1024"
definition maxNonceRecordBytes :: nat where "maxNonceRecordBytes = 256"
definition maxNonceJournalLines :: nat where "maxNonceJournalLines = 200001"

text \<open>A decoded line: the header, a record (whose time may not parse), or neither.\<close>

datatype journalLine = HeaderLine int int | RecordLine string "int option" | OtherLine

record JournalFile =
  jfLines :: "(journalLine \<times> nat) list"
  jfExtra :: nat
  jfSynced :: nat

record NonceDisk =
  ndFile :: "JournalFile option"
  ndOld :: "JournalFile option list"
  ndScript :: "fault list"

definition journalSize :: "JournalFile \<Rightarrow> nat" where
  "journalSize f = sum_list (map snd (jfLines f)) + jfExtra f"

definition diskFault :: "NonceDisk \<Rightarrow> fault \<times> NonceDisk" where
  "diskFault d = (case ndScript d of [] \<Rightarrow> (Works, d) | f # fs \<Rightarrow> (f, d\<lparr>ndScript := fs\<rparr>))"

datatype nonce_error =
    NoJournalPath | BadMaxAge | LockFailed | JournalIO string | JournalTooLarge | TornTrailing
  | TooManyLines | BadHeader | UnsupportedVersion int | InvalidRetention int
  | InvalidRecordSize nat | BadRecord nat | InvalidNonce nat | BadIssuedAt nat | DuplicateNonce nat
  | TooManyEntries | RetentionWidened | PreviouslyFailed | RetentionUnbound | StoreFull | WouldExceed

record NonceStore =
  nsPath :: string
  nsRetention :: int
  nsSeen :: "(string \<times> int) list"
  nsExpiry :: "(int \<times> string) list"
  nsFileSize :: nat
  nsObsolete :: nat
  nsFailed :: "nonce_error option"
  nsMaxEntries :: nat
  nsMaxBytes :: nat
  nsCompactAfter :: nat

definition newNonceStore :: "string \<Rightarrow> int \<Rightarrow> NonceStore" where
  "newNonceStore path maxAge =
    \<lparr>nsPath = path, nsRetention = maxAge, nsSeen = [], nsExpiry = [], nsFileSize = 0, nsObsolete = 0,
     nsFailed = None, nsMaxEntries = defaultMaxNonces, nsMaxBytes = defaultMaxJournal,
     nsCompactAfter = defaultCompactAfter\<rparr>"

subsection \<open>The expiry queue\<close>

text \<open>\<open>container/heap\<close> over \<open>expiryQueue.Less\<close>, as the sorted list its pops produce.\<close>

definition earlier :: "int \<times> string \<Rightarrow> int \<times> string \<Rightarrow> bool" where
  "earlier p q \<longleftrightarrow> (if fst p = fst q then snd p < snd q else fst p < fst q)"

fun pushExpiry :: "int \<times> string \<Rightarrow> (int \<times> string) list \<Rightarrow> (int \<times> string) list" where
  "pushExpiry p [] = [p]"
| "pushExpiry p (q # qs) = (if earlier p q then p # q # qs else q # pushExpiry p qs)"

definition dropKey :: "string \<Rightarrow> (string \<times> int) list \<Rightarrow> (string \<times> int) list" where
  "dropKey n seen = filter (\<lambda>e. fst e \<noteq> n) seen"

fun pruneFrom ::
  "int \<Rightarrow> (int \<times> string) list \<Rightarrow> (string \<times> int) list \<Rightarrow> nat \<Rightarrow>
     (int \<times> string) list \<times> (string \<times> int) list \<times> nat" where
  "pruneFrom cutoff [] seen obsolete = ([], seen, obsolete)"
| "pruneFrom cutoff ((i, n) # q) seen obsolete =
    (if i < cutoff then
       (if map_of seen n = Some i then pruneFrom cutoff q (dropKey n seen) (Suc obsolete)
        else pruneFrom cutoff q seen obsolete)
     else ((i, n) # q, seen, obsolete))"

definition pruneLocked :: "int \<Rightarrow> NonceStore \<Rightarrow> NonceStore" where
  "pruneLocked cutoff s =
    (case pruneFrom cutoff (nsExpiry s) (nsSeen s) (nsObsolete s) of (q, seen, obsolete) \<Rightarrow>
      s\<lparr>nsExpiry := q, nsSeen := seen, nsObsolete := obsolete\<rparr>)"

definition shouldCompact :: "NonceStore \<Rightarrow> bool" where
  "shouldCompact s \<longleftrightarrow> nsCompactAfter s \<le> nsObsolete s \<and> length (nsSeen s) \<le> nsObsolete s"

subsection \<open>Writing\<close>

text \<open>\<open>bl\<close> is the length of an encoded line without its newline.\<close>

definition compactedLines :: "(journalLine \<Rightarrow> nat) \<Rightarrow> NonceStore \<Rightarrow> (journalLine \<times> nat) list" where
  "compactedLines bl s =
    map (\<lambda>l. (l, Suc (bl l)))
      (HeaderLine nonceJournalVersion (nsRetention s)
       # map (\<lambda>e. RecordLine (fst e) (Some (snd e))) (sort_key snd (sort_key fst (nsSeen s))))"

definition rewriteLocked ::
  "(journalLine \<Rightarrow> nat) \<Rightarrow> NonceStore \<Rightarrow> NonceDisk \<Rightarrow> nonce_error option \<times> NonceStore \<times> NonceDisk" where
  "rewriteLocked bl s d =
    (let ls = compactedLines bl s; total = sum_list (map snd ls);
         new = \<lparr>jfLines = ls, jfExtra = 0, jfSynced = length ls\<rparr> in
     if nsMaxBytes s < total then (Some JournalTooLarge, s, d)
     else case diskFault d of
       (Works, d1) \<Rightarrow> (None, s\<lparr>nsFileSize := total, nsObsolete := 0\<rparr>, d1\<lparr>ndFile := Some new, ndOld := []\<rparr>)
     | (Fails, d1) \<Rightarrow> (Some (JournalIO ''replace''), s, d1)
     | (After n, d1) \<Rightarrow>
         (Some (JournalIO ''sync directory''), s, d1\<lparr>ndFile := Some new, ndOld := ndFile d # ndOld d\<rparr>))"

definition appendLine :: "journalLine \<times> nat \<Rightarrow> JournalFile \<Rightarrow> JournalFile" where
  "appendLine line f =
    f\<lparr>jfLines := jfLines f @ [if jfExtra f = 0 then line else (OtherLine, jfExtra f + snd line)],
      jfExtra := 0\<rparr>"

definition appendLocked ::
  "journalLine \<times> nat \<Rightarrow> NonceStore \<Rightarrow> NonceDisk \<Rightarrow> nonce_error option \<times> NonceStore \<times> NonceDisk" where
  "appendLocked line s d =
    (case ndFile d of
       None \<Rightarrow> (Some (JournalIO ''open''), s, d)
     | Some f \<Rightarrow>
         (case diskFault d of
            (Works, d1) \<Rightarrow>
              (let g = appendLine line f in
               (None, s\<lparr>nsFileSize := nsFileSize s + snd line\<rparr>,
                d1\<lparr>ndFile := Some (g\<lparr>jfSynced := length (jfLines g)\<rparr>)\<rparr>))
          | (Fails, d1) \<Rightarrow> (Some (JournalIO ''append''), s, d1)
          | (After n, d1) \<Rightarrow>
              (Some (JournalIO ''sync''), s,
               d1\<lparr>ndFile := Some (if snd line \<le> n then appendLine line f else f\<lparr>jfExtra := jfExtra f + n\<rparr>)\<rparr>)))"

definition latch ::
  "nonce_error \<Rightarrow> NonceStore \<Rightarrow> NonceDisk \<Rightarrow> (nonce_error + bool) \<times> NonceStore \<times> NonceDisk" where
  "latch e s d = (Inl e, s\<lparr>nsFailed := Some e\<rparr>, d)"

text \<open>The last part of \<open>consume\<close>: the record goes to the file, then to memory.\<close>

definition admitNonce ::
  "(journalLine \<Rightarrow> nat) \<Rightarrow> string \<Rightarrow> int \<Rightarrow> NonceStore \<Rightarrow> NonceDisk \<Rightarrow>
     (nonce_error + bool) \<times> NonceStore \<times> NonceDisk" where
  "admitNonce bl nonce issued s d =
    (let l = RecordLine nonce (Some issued); line = (l, Suc (bl l)) in
     case (if nsPath s \<noteq> '''' then appendLocked line s d else (None, s, d)) of
       (Some e, s1, d1) \<Rightarrow> latch e s1 d1
     | (None, s1, d1) \<Rightarrow>
         (Inr True, s1\<lparr>nsSeen := (nonce, issued) # nsSeen s1,
            nsExpiry := pushExpiry (issued, nonce) (nsExpiry s1)\<rparr>, d1))"

text \<open>Room in the file, by compaction when there is none.\<close>

definition makeRoom ::
  "(journalLine \<Rightarrow> nat) \<Rightarrow> string \<Rightarrow> int \<Rightarrow> NonceStore \<Rightarrow> NonceDisk \<Rightarrow>
     (nonce_error + bool) \<times> NonceStore \<times> NonceDisk" where
  "makeRoom bl nonce issued s d =
    (let size = Suc (bl (RecordLine nonce (Some issued))) in
     if nsMaxBytes s < size + nsFileSize s \<and> nsPath s \<noteq> '''' then
       (case rewriteLocked bl s d of
          (Some e, s1, d1) \<Rightarrow> latch e s1 d1
        | (None, s1, d1) \<Rightarrow>
            if nsMaxBytes s1 < size + nsFileSize s1 then (Inl WouldExceed, s1, d1)
            else admitNonce bl nonce issued s1 d1)
     else admitNonce bl nonce issued s d)"

definition consumeNonce ::
  "(journalLine \<Rightarrow> nat) \<Rightarrow> string \<Rightarrow> int \<Rightarrow> int \<Rightarrow> NonceStore \<Rightarrow> NonceDisk \<Rightarrow>
     (nonce_error + bool) \<times> NonceStore \<times> NonceDisk" where
  "consumeNonce bl nonce issued now s0 d =
    (if nsFailed s0 \<noteq> None then (Inl PreviouslyFailed, s0, d)
     else if nsRetention s0 \<le> 0 then (Inl RetentionUnbound, s0, d)
     else let s = pruneLocked (now - nsRetention s0) s0 in
       if map_of (nsSeen s) nonce \<noteq> None then (Inr False, s, d)
       else case (if nsPath s \<noteq> '''' \<and> shouldCompact s then rewriteLocked bl s d else (None, s, d)) of
         (Some e, s1, d1) \<Rightarrow> latch e s1 d1
       | (None, s1, d1) \<Rightarrow>
           if nsMaxEntries s1 \<le> length (nsSeen s1) then (Inl StoreFull, s1, d1)
           else makeRoom bl nonce issued s1 d1)"

subsection \<open>Opening\<close>

definition validNonce :: "string \<Rightarrow> bool" where
  "validNonce nonce \<longleftrightarrow> length nonce = 32 \<and> list_all lowerHex nonce"

fun loadRecords :: "int \<Rightarrow> nat \<Rightarrow> (journalLine \<times> nat) list \<Rightarrow> NonceStore \<Rightarrow> nonce_error + NonceStore" where
  "loadRecords cutoff i [] s = Inr s"
| "loadRecords cutoff i ((l, n) # ls) s =
    (if n \<le> 1 \<or> maxNonceRecordBytes < n - 1 then Inl (InvalidRecordSize i)
     else case l of
       RecordLine nonce when \<Rightarrow>
         (if \<not> validNonce nonce then Inl (InvalidNonce i)
          else case when of
            None \<Rightarrow> Inl (BadIssuedAt i)
          | Some issued \<Rightarrow>
              if issued < cutoff then loadRecords cutoff (Suc i) ls (s\<lparr>nsObsolete := Suc (nsObsolete s)\<rparr>)
              else if map_of (nsSeen s) nonce \<noteq> None then Inl (DuplicateNonce i)
              else if nsMaxEntries s \<le> length (nsSeen s) then Inl TooManyEntries
              else loadRecords cutoff (Suc i) ls
                (s\<lparr>nsSeen := (nonce, issued) # nsSeen s, nsExpiry := nsExpiry s @ [(issued, nonce)]\<rparr>))
     | _ \<Rightarrow> Inl (BadRecord i))"

definition loadJournal :: "int \<Rightarrow> JournalFile \<Rightarrow> NonceStore \<Rightarrow> nonce_error + NonceStore" where
  "loadJournal now f s =
    (if jfExtra f \<noteq> 0 \<or> jfLines f = [] then Inl TornTrailing
     else if maxNonceJournalLines < length (jfLines f) then Inl TooManyLines
     else case fst (hd (jfLines f)) of
       HeaderLine version retention \<Rightarrow>
         (if version \<noteq> nonceJournalVersion then Inl (UnsupportedVersion version)
          else if retention \<le> 0 then Inl (InvalidRetention retention)
          else loadRecords (now - retention) 2 (tl (jfLines f)) (s\<lparr>nsRetention := retention\<rparr>))
     | _ \<Rightarrow> Inl BadHeader)"

definition openNonceStore ::
  "(journalLine \<Rightarrow> nat) \<Rightarrow> string \<Rightarrow> int \<Rightarrow> int \<Rightarrow> NonceDisk \<Rightarrow> (nonce_error + NonceStore) \<times> NonceDisk" where
  "openNonceStore bl path maxAge now d0 =
    (let s0 = newNonceStore path maxAge;
         rewritten = (\<lambda>s d. case rewriteLocked bl s d of
            (Some e, s1, d1) \<Rightarrow> (Inl e, d1) | (None, s1, d1) \<Rightarrow> (Inr s1, d1)) in
     if path = '''' then (Inl NoJournalPath, d0)
     else if maxAge \<le> 0 then (Inl BadMaxAge, d0)
     else case diskFault d0 of (f1, d1) \<Rightarrow>
       if f1 \<noteq> Works then (Inl LockFailed, d1)
       else case ndFile d1 of
         None \<Rightarrow> rewritten s0 d1
       | Some f \<Rightarrow>
           (case diskFault d1 of (f2, d2) \<Rightarrow>
             if f2 \<noteq> Works then (Inl (JournalIO ''stat''), d2)
             else if nsMaxBytes s0 < journalSize f then (Inl JournalTooLarge, d2)
             else (case diskFault d2 of (f3, d3) \<Rightarrow>
               if f3 \<noteq> Works then (Inl (JournalIO ''read''), d3)
               else (case loadJournal now f s0 of
                  Inl e \<Rightarrow> (Inl e, d3)
                | Inr s1 \<Rightarrow>
                    if nsRetention s1 < maxAge then (Inl RetentionWidened, d3)
                    else let s = s1\<lparr>nsFileSize := journalSize f,
                                 nsExpiry := foldr pushExpiry (nsExpiry s1) []\<rparr> in
                      if 0 < nsObsolete s then rewritten s d3 else (Inr s, d3)))))"

definition bindRetention :: "int \<Rightarrow> NonceStore \<Rightarrow> nonce_error + NonceStore" where
  "bindRetention maxAge s =
    (if maxAge \<le> 0 then Inl BadMaxAge
     else if nsRetention s = 0 then Inr (s\<lparr>nsRetention := maxAge\<rparr>)
     else if nsRetention s < maxAge then Inl RetentionWidened
     else Inr s)"

subsection \<open>What survives\<close>

text \<open>After a crash one of the candidate files is there, with all its synced lines and any part of
  the rest, possibly ending in a torn tail; then everything on the disk is settled.\<close>

definition nonceCrash :: "NonceDisk \<Rightarrow> NonceDisk \<Rightarrow> bool" where
  "nonceCrash d d' \<longleftrightarrow> ndOld d' = [] \<and> (\<exists>c \<in> set (ndFile d # ndOld d).
     case c of None \<Rightarrow> ndFile d' = None
     | Some f \<Rightarrow> (\<exists>k x. jfSynced f \<le> k \<and> ndFile d' = Some
         \<lparr>jfLines = take k (jfLines f), jfExtra = x, jfSynced = min k (length (jfLines f))\<rparr>))"

text \<open>The accepted nonces \<open>acc\<close> not older than \<open>cutoff\<close> are on the safe part of a file.\<close>

definition journalOK :: "int \<Rightarrow> (string \<times> int) set \<Rightarrow> int \<Rightarrow> JournalFile \<Rightarrow> bool" where
  "journalOK R acc cutoff f \<longleftrightarrow> 1 \<le> jfSynced f \<and> jfSynced f \<le> length (jfLines f)
     \<and> fst (hd (jfLines f)) = HeaderLine nonceJournalVersion R
     \<and> (\<forall>e \<in> acc. cutoff \<le> snd e \<longrightarrow>
          RecordLine (fst e) (Some (snd e)) \<in> fst ` set (tl (take (jfSynced f) (jfLines f))))"

definition diskOK :: "int \<Rightarrow> (string \<times> int) set \<Rightarrow> int \<Rightarrow> NonceDisk \<Rightarrow> bool" where
  "diskOK R acc cutoff d \<longleftrightarrow>
     (\<forall>c \<in> set (ndFile d # ndOld d). \<exists>f. c = Some f \<and> journalOK R acc cutoff f)"

definition storeOK :: "int \<Rightarrow> (string \<times> int) set \<Rightarrow> int \<Rightarrow> NonceStore \<Rightarrow> bool" where
  "storeOK R acc cutoff s \<longleftrightarrow> nsRetention s = R \<and> nsPath s \<noteq> '''' \<and> distinct (map fst (nsSeen s))
     \<and> (\<forall>e \<in> acc. cutoff \<le> snd e \<longrightarrow> e \<in> set (nsSeen s))"

text \<open>The disk a working store writes to: one candidate, ending in a whole line.\<close>

definition cleanDisk :: "NonceDisk \<Rightarrow> bool" where
  "cleanDisk d \<longleftrightarrow> ndOld d = [] \<and> (\<exists>f. ndFile d = Some f \<and> jfExtra f = 0)"

definition nonceInv :: "int \<Rightarrow> (string \<times> int) set \<Rightarrow> int \<Rightarrow> NonceStore \<times> NonceDisk \<Rightarrow> bool" where
  "nonceInv R acc cutoff sd \<longleftrightarrow> storeOK R acc cutoff (fst sd) \<and> diskOK R acc cutoff (snd sd)
     \<and> (nsFailed (fst sd) = None \<longrightarrow> cleanDisk (snd sd))"

lemma journalOK_mono: "journalOK R acc c f \<Longrightarrow> c \<le> c' \<Longrightarrow> journalOK R acc c' f"
  unfolding journalOK_def by (meson order_trans)

lemma diskOK_mono: "diskOK R acc c d \<Longrightarrow> c \<le> c' \<Longrightarrow> diskOK R acc c' d"
  unfolding diskOK_def using journalOK_mono by blast

lemma storeOK_mono: "storeOK R acc c s \<Longrightarrow> c \<le> c' \<Longrightarrow> storeOK R acc c' s"
  unfolding storeOK_def by (meson order_trans)

lemma nonceInv_mono: "nonceInv R acc c sd \<Longrightarrow> c \<le> c' \<Longrightarrow> nonceInv R acc c' sd"
  unfolding nonceInv_def using storeOK_mono diskOK_mono by blast

lemma diskFault_files [simp]:
  "ndFile (snd (diskFault d)) = ndFile d" "ndOld (snd (diskFault d)) = ndOld d"
  by (simp_all add: diskFault_def split: list.splits)

lemma diskFault_same: "diskFault d = (f, d1) \<Longrightarrow> ndFile d1 = ndFile d \<and> ndOld d1 = ndOld d"
  using diskFault_files [of d] by simp

lemma diskOK_same: "ndFile d' = ndFile d \<Longrightarrow> ndOld d' = ndOld d \<Longrightarrow> diskOK R acc c d' = diskOK R acc c d"
  by (simp add: diskOK_def)

lemma set_dropKey: "set (dropKey n seen) = {e \<in> set seen. fst e \<noteq> n}"
  by (auto simp: dropKey_def)

lemma pruneFrom_keeps:
  assumes "pruneFrom cutoff q seen ob = (q', seen', ob')" and "distinct (map fst seen)"
  shows "distinct (map fst seen') \<and> set seen' \<subseteq> set seen \<and> (\<forall>e \<in> set seen. cutoff \<le> snd e \<longrightarrow> e \<in> set seen')"
  using assms
proof (induction cutoff q seen ob arbitrary: q' seen' ob' rule: pruneFrom.induct)
  case (2 cutoff i n q seen ob)
  show ?case
  proof (cases "i < cutoff \<and> map_of seen n = Some i")
    case True
    have d: "distinct (map fst (dropKey n seen))"
      using 2(4) by (simp add: dropKey_def distinct_map_filter)
    have p: "pruneFrom cutoff q (dropKey n seen) (Suc ob) = (q', seen', ob')" using 2(3) True by simp
    have k: "e \<in> set (dropKey n seen)" if e: "e \<in> set seen" "cutoff \<le> snd e" for e
    proof -
      have "map_of seen (fst e) = Some (snd e)" using e(1) 2(4) by simp
      with True e show ?thesis by (auto simp: set_dropKey)
    qed
    from 2(1) [OF _ _ p d] True k show ?thesis by (auto simp: set_dropKey)
  next
    case False
    show ?thesis
    proof (cases "i < cutoff")
      case True
      with False 2(3) have p: "pruneFrom cutoff q seen ob = (q', seen', ob')" by auto
      from 2(2) [OF True _ p 2(4)] False True show ?thesis by blast
    next
      case False
      with 2(3,4) show ?thesis by auto
    qed
  qed
qed simp

lemma storeOK_prune: "storeOK R acc c s \<Longrightarrow> storeOK R acc c (pruneLocked c s)"
  and prune_fields: "nsFailed (pruneLocked c s) = nsFailed s" "nsPath (pruneLocked c s) = nsPath s"
proof -
  obtain q seen ob where p: "pruneFrom c (nsExpiry s) (nsSeen s) (nsObsolete s) = (q, seen, ob)"
    by (metis prod_cases3)
  show "nsFailed (pruneLocked c s) = nsFailed s" "nsPath (pruneLocked c s) = nsPath s"
    by (simp_all add: pruneLocked_def p)
  show "storeOK R acc c s \<Longrightarrow> storeOK R acc c (pruneLocked c s)"
    using pruneFrom_keeps [OF p] by (auto simp: storeOK_def pruneLocked_def p)
qed

lemma compacted_OK:
  assumes "storeOK R acc c s"
  shows "journalOK R acc c \<lparr>jfLines = compactedLines bl s, jfExtra = 0, jfSynced = length (compactedLines bl s)\<rparr>"
  using assms by (force simp: journalOK_def storeOK_def compactedLines_def image_iff)

lemma rewriteLocked_OK:
  assumes "rewriteLocked bl s d = (e, s', d')" and "storeOK R acc c s"
  shows "storeOK R acc c s' \<and> nsFailed s' = nsFailed s \<and> nsSeen s' = nsSeen s \<and> nsExpiry s' = nsExpiry s
    \<and> (diskOK R acc c d \<or> e = None \<longrightarrow> diskOK R acc c d') \<and> (e = None \<longrightarrow> cleanDisk d')"
proof -
  let ?new = "\<lparr>jfLines = compactedLines bl s, jfExtra = 0, jfSynced = length (compactedLines bl s)\<rparr>"
  obtain f d1 where f: "diskFault d = (f, d1)" by force
  have d1: "ndFile d1 = ndFile d" "ndOld d1 = ndOld d" using diskFault_same [OF f] by blast+
  have new: "journalOK R acc c ?new" by (rule compacted_OK [OF assms(2)])
  have st: "storeOK R acc c s'" "nsFailed s' = nsFailed s" "nsSeen s' = nsSeen s" "nsExpiry s' = nsExpiry s"
    using assms(1,2) by (auto simp: rewriteLocked_def f Let_def storeOK_def split: if_splits fault.splits)
  show ?thesis
  proof (cases "nsMaxBytes s < sum_list (map snd (compactedLines bl s))")
    case True
    with assms(1) st show ?thesis by (auto simp: rewriteLocked_def Let_def)
  next
    case False
    with assms(1) st d1 new show ?thesis
      by (cases f) (auto simp: rewriteLocked_def f Let_def diskOK_def cleanDisk_def)
  qed
qed

lemma appendLocked_OK:
  assumes "appendLocked line s d = (e, s', d')" and "diskOK R acc c d" and "cleanDisk d"
  shows "nsRetention s' = nsRetention s \<and> nsPath s' = nsPath s \<and> nsSeen s' = nsSeen s \<and> nsFailed s' = nsFailed s
    \<and> nsExpiry s' = nsExpiry s \<and> diskOK R acc c d' \<and> (e = None \<longrightarrow> cleanDisk d' \<and>
      (\<forall>n i. fst line = RecordLine n (Some i) \<longrightarrow> diskOK R (insert (n, i) acc) c d'))"
proof -
  from assms(2,3) obtain f where f: "ndFile d = Some f" "jfExtra f = 0" "ndOld d = []" "journalOK R acc c f"
    by (auto simp: cleanDisk_def diskOK_def)
  obtain ft d1 where ft: "diskFault d = (ft, d1)" by force
  have d1: "ndFile d1 = ndFile d" "ndOld d1 = ndOld d" using diskFault_same [OF ft] by blast+
  let ?g = "f\<lparr>jfLines := jfLines f @ [line], jfExtra := 0\<rparr>"
  have g: "appendLine line f = ?g" using f(2) by (simp add: appendLine_def)
  have ne: "jfLines f \<noteq> []" using f(4) by (auto simp: journalOK_def)
  have sub: "set (tl (take (jfSynced f) (jfLines f))) \<subseteq> set (tl (jfLines f))"
    by (metis set_take_subset tl_take)
  have unsynced: "journalOK R acc c ?g" "journalOK R acc c (f\<lparr>jfExtra := x\<rparr>)" for x
    using f(4) ne by (auto simp: journalOK_def)
  have synced: "journalOK R acc c (?g\<lparr>jfSynced := Suc (length (jfLines f))\<rparr>)"
    using f(4) ne sub by (auto simp: journalOK_def)
  have more: "journalOK R (insert (n, i) acc) c (?g\<lparr>jfSynced := Suc (length (jfLines f))\<rparr>)"
    if "fst line = RecordLine n (Some i)" for n i
    using synced that ne by (auto simp: journalOK_def image_iff)
  show ?thesis
    using assms(1) f d1 ft unsynced synced more
    by (cases ft) (auto simp: appendLocked_def g diskOK_def cleanDisk_def Let_def split: if_splits)
qed

text \<open>Admission keeps every accepted nonce, and adds the new one exactly when it says so.\<close>

definition admitted :: "(string \<times> int) set \<Rightarrow> string \<Rightarrow> int \<Rightarrow> (nonce_error + bool) \<Rightarrow> (string \<times> int) set" where
  "admitted acc n i r = (if r = Inr True then insert (n, i) acc else acc)"

lemma latch_eq: "latch e s d = (r, s', d') \<longleftrightarrow> r = Inl e \<and> s' = s\<lparr>nsFailed := Some e\<rparr> \<and> d' = d"
  by (auto simp: latch_def)

lemma storeOK_failed [simp]: "storeOK R acc c (s\<lparr>nsFailed := x\<rparr>) = storeOK R acc c s"
  by (simp add: storeOK_def)

lemma admitNonce_inv:
  assumes "admitNonce bl n i s d = (r, s', d')" and "nonceInv R acc c (s, d)" and "nsFailed s = None"
    and "map_of (nsSeen s) n = None"
  shows "nonceInv R (admitted acc n i r) c (s', d')"
proof -
  let ?line = "(RecordLine n (Some i), Suc (bl (RecordLine n (Some i))))"
  obtain e s1 d1 where a: "appendLocked ?line s d = (e, s1, d1)" by (metis prod_cases3)
  have inv: "storeOK R acc c s" "diskOK R acc c d" "cleanDisk d" "nsPath s \<noteq> ''''"
    using assms(2,3) by (auto simp: nonceInv_def storeOK_def)
  note ap = appendLocked_OK [OF a inv(2,3)]
  have s1: "storeOK R acc c s1" using ap inv(1) by (simp add: storeOK_def)
  show ?thesis
  proof (cases e)
    case (Some err)
    with assms(1) a inv(4) have "r = Inl err" "s' = s1\<lparr>nsFailed := Some err\<rparr>" "d' = d1"
      by (auto simp: admitNonce_def Let_def latch_eq)
    with ap s1 show ?thesis by (simp add: nonceInv_def admitted_def)
  next
    case None
    with assms(1) a inv(4) have r: "r = Inr True" "d' = d1"
      and s': "s' = s1\<lparr>nsSeen := (n, i) # nsSeen s1, nsExpiry := pushExpiry (i, n) (nsExpiry s1)\<rparr>"
      by (auto simp: admitNonce_def Let_def)
    have "n \<notin> fst ` set (nsSeen s1)" using assms(4) ap by (simp add: map_of_eq_None_iff)
    with s1 s' have "storeOK R (insert (n, i) acc) c s'" by (auto simp: storeOK_def)
    with ap None r show ?thesis by (simp add: nonceInv_def admitted_def)
  qed
qed

lemma rewrite_inv:
  assumes "rewriteLocked bl s d = (e, s', d')" and "nonceInv R acc c (s, d)" and "nsFailed s = None"
  shows "if e = None then nonceInv R acc c (s', d') \<and> nsFailed s' = None \<and> nsSeen s' = nsSeen s
    else nonceInv R acc c (s'\<lparr>nsFailed := e\<rparr>, d')"
proof -
  have st: "storeOK R acc c s" "diskOK R acc c d" using assms(2) by (simp_all add: nonceInv_def)
  from rewriteLocked_OK [OF assms(1) st(1)] st(2) have
    "storeOK R acc c s'" "nsFailed s' = nsFailed s" "nsSeen s' = nsSeen s" "diskOK R acc c d'"
    "e = None \<longrightarrow> cleanDisk d'" by blast+
  with assms(3) show ?thesis by (cases e) (simp_all add: nonceInv_def)
qed

lemma makeRoom_inv:
  assumes "makeRoom bl n i s d = (r, s', d')" and inv: "nonceInv R acc c (s, d)" and "nsFailed s = None"
    and "map_of (nsSeen s) n = None"
  shows "nonceInv R (admitted acc n i r) c (s', d')"
proof -
  obtain e s1 d1 where w: "rewriteLocked bl s d = (e, s1, d1)" by (metis prod_cases3)
  note rw = rewrite_inv [OF w inv assms(3)]
  let ?size = "Suc (bl (RecordLine n (Some i)))"
  have c: "(r, s', d') = (if nsMaxBytes s < ?size + nsFileSize s \<and> nsPath s \<noteq> ''''
      then (case e of Some err \<Rightarrow> latch err s1 d1
        | None \<Rightarrow> if nsMaxBytes s1 < ?size + nsFileSize s1 then (Inl WouldExceed, s1, d1) else admitNonce bl n i s1 d1)
      else admitNonce bl n i s d)"
    unfolding assms(1) [symmetric] makeRoom_def Let_def w by (cases e) simp_all
  show ?thesis
  proof (cases "nsMaxBytes s < ?size + nsFileSize s \<and> nsPath s \<noteq> ''''")
    case False
    with c have "admitNonce bl n i s d = (r, s', d')" by auto
    then show ?thesis by (rule admitNonce_inv [OF _ inv assms(3,4)])
  next
    case True
    show ?thesis
    proof (cases e)
      case (Some err)
      with c True rw show ?thesis by (simp add: latch_def admitted_def)
    next
      case None
      then have s1: "nonceInv R acc c (s1, d1)" "nsFailed s1 = None" "map_of (nsSeen s1) n = None"
        using rw assms(4) by simp_all
      show ?thesis
      proof (cases "nsMaxBytes s1 < ?size + nsFileSize s1")
        case full: True
        with c True None s1(1) show ?thesis by (simp add: admitted_def)
      next
        case room: False
        with c True None have "admitNonce bl n i s1 d1 = (r, s', d')" by simp
        then show ?thesis by (rule admitNonce_inv [OF _ s1])
      qed
    qed
  qed
qed

lemma consumeNonce_inv:
  assumes "consumeNonce bl n i now s d = (r, s', d')" and inv: "nonceInv R acc (now - R) (s, d)"
  shows "nonceInv R (admitted acc n i r) (now - R) (s', d')
    \<and> (r = Inr True \<longrightarrow> (\<forall>j. (n, j) \<in> acc \<longrightarrow> j < now - R))"
proof (cases "nsFailed s \<noteq> None \<or> nsRetention s \<le> 0")
  case True
  with assms show ?thesis by (auto simp: consumeNonce_def admitted_def split: if_splits)
next
  case False
  define p where "p = pruneLocked (now - R) s"
  have R: "nsRetention s = R" using inv by (simp add: nonceInv_def storeOK_def)
  have pinv: "nonceInv R acc (now - R) (p, d)" and pf: "nsFailed p = None"
    using inv False storeOK_prune [of R acc "now - R" s] by (auto simp: nonceInv_def p_def prune_fields)
  show ?thesis
  proof (cases "map_of (nsSeen p) n")
    case (Some j)
    with assms(1) False R have "r = Inr False" "s' = p" "d' = d"
      by (auto simp: consumeNonce_def Let_def p_def)
    with pinv show ?thesis by (simp add: admitted_def)
  next
    case None
    have old: "j < now - R" if "(n, j) \<in> acc" for j
    proof (rule ccontr)
      assume "\<not> j < now - R"
      then have "(n, j) \<in> set (nsSeen p)" using pinv that by (force simp: nonceInv_def storeOK_def)
      with None show False by (force simp: map_of_eq_None_iff)
    qed
    obtain e s1 d1 where w: "(if nsPath p \<noteq> '''' \<and> shouldCompact p then rewriteLocked bl p d else (None, p, d)) = (e, s1, d1)"
      by (metis prod_cases3)
    have rw: "if e = None then nonceInv R acc (now - R) (s1, d1) \<and> nsFailed s1 = None \<and> nsSeen s1 = nsSeen p
        else nonceInv R acc (now - R) (s1\<lparr>nsFailed := e\<rparr>, d1)"
      using w pinv pf rewrite_inv [of bl p d e s1 d1] by (auto split: if_splits)
    have c: "consumeNonce bl n i now s d = (case e of Some err \<Rightarrow> latch err s1 d1
        | None \<Rightarrow> if nsMaxEntries s1 \<le> length (nsSeen s1) then (Inl StoreFull, s1, d1) else makeRoom bl n i s1 d1)"
      unfolding consumeNonce_def Let_def R p_def [symmetric] w using False None R by (simp split: option.split)
    have "nonceInv R (admitted acc n i r) (now - R) (s', d')"
    proof (cases e)
      case (Some err)
      with c assms(1) rw show ?thesis by (auto simp: latch_def admitted_def)
    next
      case e: None
      show ?thesis
      proof (cases "nsMaxEntries s1 \<le> length (nsSeen s1)")
        case True
        with c assms(1) rw e show ?thesis by (auto simp: admitted_def)
      next
        case False
        with c assms(1) e have "makeRoom bl n i s1 d1 = (r, s', d')" by simp
        with rw e None show ?thesis by (auto intro: makeRoom_inv)
      qed
    qed
    with old show ?thesis by blast
  qed
qed

subsection \<open>Opening finds what was accepted\<close>

lemma loadRecords_inv:
  assumes "loadRecords cutoff k ls s = Inr s'" and "distinct (map fst (nsSeen s))"
  shows "nsRetention s' = nsRetention s \<and> nsPath s' = nsPath s \<and> nsFailed s' = nsFailed s
    \<and> distinct (map fst (nsSeen s')) \<and> set (nsSeen s) \<subseteq> set (nsSeen s')
    \<and> (\<forall>n i. RecordLine n (Some i) \<in> fst ` set ls \<and> cutoff \<le> i \<longrightarrow> (n, i) \<in> set (nsSeen s'))"
  using assms
proof (induction cutoff k ls s rule: loadRecords.induct)
  case (2 cutoff k l m ls s)
  from 2(3) obtain nonce issued where l: "l = RecordLine nonce (Some issued)"
    by (auto split: if_splits journalLine.splits option.splits)
  show ?case
  proof (cases "issued < cutoff")
    case True
    with 2(3) l have "loadRecords cutoff (Suc k) ls (s\<lparr>nsObsolete := Suc (nsObsolete s)\<rparr>) = Inr s'"
      by (auto split: if_splits)
    from 2(1) [OF _ l _ refl True this] 2(3,4) l True show ?thesis by (auto split: if_splits)
  next
    case False
    let ?s = "s\<lparr>nsSeen := (nonce, issued) # nsSeen s, nsExpiry := nsExpiry s @ [(issued, nonce)]\<rparr>"
    from False 2(3) l have n: "loadRecords cutoff (Suc k) ls ?s = Inr s'" "map_of (nsSeen s) nonce = None"
      by (auto split: if_splits)
    then have d: "distinct (map fst (nsSeen ?s))" using 2(4) by (simp add: map_of_eq_None_iff)
    from 2(2) [OF _ l _ refl False _ _ n(1) d] 2(3) l False n(2) show ?thesis by (auto split: if_splits)
  qed
qed simp


lemma rewritten_OK:
  assumes "rewriteLocked bl s d = (e, s', d')" and "storeOK R acc c s"
  shows "storeOK R acc c s' \<and> nsFailed s' = nsFailed s \<and> (diskOK R acc c d \<or> e = None \<longrightarrow> diskOK R acc c d')
    \<and> (e = None \<longrightarrow> cleanDisk d')"
  using rewriteLocked_OK [OF assms] by blast

lemma foldr_push_same [simp]: "storeOK R acc c (s\<lparr>nsFileSize := x, nsExpiry := y\<rparr>) = storeOK R acc c s"
  by (simp add: storeOK_def)

lemma loadJournal_Inr:
  assumes "loadJournal now f s = Inr s'" and "nsSeen s = []"
  shows "jfExtra f = 0 \<and> jfLines f \<noteq> [] \<and> nsPath s' = nsPath s \<and> nsFailed s' = nsFailed s \<and> 0 < nsRetention s'
    \<and> fst (hd (jfLines f)) = HeaderLine nonceJournalVersion (nsRetention s') \<and> distinct (map fst (nsSeen s'))
    \<and> (\<forall>n i. RecordLine n (Some i) \<in> fst ` set (tl (jfLines f)) \<and> now - nsRetention s' \<le> i \<longrightarrow> (n, i) \<in> set (nsSeen s'))"
proof -
  from assms(1) obtain R where R: "jfExtra f = 0" "jfLines f \<noteq> []" "0 < R"
      "fst (hd (jfLines f)) = HeaderLine nonceJournalVersion R"
    and l: "loadRecords (now - R) 2 (tl (jfLines f)) (s\<lparr>nsRetention := R\<rparr>) = Inr s'"
    by (auto simp: loadJournal_def split: if_splits journalLine.splits)
  have "distinct (map fst (nsSeen (s\<lparr>nsRetention := R\<rparr>)))" using assms(2) by simp
  from loadRecords_inv [OF l this] R show ?thesis by auto
qed

lemma journal_loads:
  assumes "journalOK R acc c f" and "loadJournal now f s = Inr s'" and "nsSeen s = []" and "c \<le> now - R"
    and "nsPath s \<noteq> ''''"
  shows "nsRetention s' = R \<and> storeOK R acc (now - R) s'"
proof -
  note l = loadJournal_Inr [OF assms(2,3)]
  have R: "nsRetention s' = R" using l assms(1) by (simp add: journalOK_def)
  have sub: "set (tl (take (jfSynced f) (jfLines f))) \<subseteq> set (tl (jfLines f))"
    by (metis set_take_subset tl_take)
  have "e \<in> set (nsSeen s')" if e: "e \<in> acc" "now - R \<le> snd e" for e
  proof -
    have "c \<le> snd e" using e(2) assms(4) by simp
    with assms(1) e(1) have "RecordLine (fst e) (Some (snd e)) \<in> fst ` set (tl (take (jfSynced f) (jfLines f)))"
      by (simp add: journalOK_def)
    with sub have "RecordLine (fst e) (Some (snd e)) \<in> fst ` set (tl (jfLines f))" by blast
    with l R e(2) show ?thesis by (metis prod.collapse)
  qed
  with l R assms(5) show ?thesis by (simp add: storeOK_def)
qed

text \<open>Opening on a disk that holds every accepted nonce.\<close>

lemma openNonceStore_inv:
  assumes "openNonceStore bl path maxAge now d = (r, d')" and "diskOK R acc c d" and "c \<le> now - R" and "ndOld d = []"
  shows "diskOK R acc (now - R) d' \<and> (\<forall>s. r = Inr s \<longrightarrow> nonceInv R acc (now - R) (s, d'))"
proof (cases "path = '''' \<or> maxAge \<le> 0")
  case True
  then have "d' = d \<and> (\<forall>s. r \<noteq> Inr s)"
    using assms(1) by (auto simp: openNonceStore_def Let_def split: if_splits)
  with diskOK_mono [OF assms(2,3)] show ?thesis by simp
next
  case False
  obtain f1 d1 where f1: "diskFault d = (f1, d1)" by force
  obtain f2 d2 where f2: "diskFault d1 = (f2, d2)" by force
  obtain f3 d3 where f3: "diskFault d2 = (f3, d3)" by force
  note same = diskFault_same [OF f1] diskFault_same [OF f2] diskFault_same [OF f3]
  have ok: "diskOK R acc (now - R) d" by (rule diskOK_mono [OF assms(2,3)])
  have ok': "diskOK R acc (now - R) d1" "diskOK R acc (now - R) d2" "diskOK R acc (now - R) d3"
    using ok same by (simp_all add: diskOK_def)
  obtain f where f: "ndFile d = Some f" "journalOK R acc c f" using assms(2) by (auto simp: diskOK_def)
  let ?s0 = "newNonceStore path maxAge"
  show ?thesis
  proof (cases "f1 = Works \<and> f2 = Works \<and> f3 = Works \<and> journalSize f \<le> nsMaxBytes ?s0")
    case bad: False
    with assms(1) False f1 f2 f3 f(1) same ok' show ?thesis
      by (auto simp: openNonceStore_def Let_def split: if_splits)
  next
    case io: True
    show ?thesis
    proof (cases "loadJournal now f ?s0")
      case (Inl e)
      with io assms(1) False f1 f2 f3 f(1) same ok' show ?thesis
        by (auto simp: openNonceStore_def Let_def)
    next
      case (Inr s1)
      have "nsSeen ?s0 = []" "nsPath ?s0 \<noteq> ''''" "nsFailed ?s0 = None"
        using False by (simp_all add: newNonceStore_def)
      with journal_loads [OF f(2) Inr _ assms(3)] loadJournal_Inr [OF Inr]
      have s1: "nsRetention s1 = R" "storeOK R acc (now - R) s1" "nsFailed s1 = None" "jfExtra f = 0" by auto
      define s where "s = s1\<lparr>nsFileSize := journalSize f, nsExpiry := foldr pushExpiry (nsExpiry s1) []\<rparr>"
      have so: "storeOK R acc (now - R) s" "nsFailed s = None" using s1 by (simp_all add: s_def)
      obtain e s2 d4 where w: "rewriteLocked bl s d3 = (e, s2, d4)" by (metis prod_cases3)
      note rw = rewritten_OK [OF w so(1)]
      have o: "(r, d') = (if R < maxAge then (Inl RetentionWidened, d3)
          else if 0 < nsObsolete s then (case e of Some err \<Rightarrow> (Inl err, d4) | None \<Rightarrow> (Inr s2, d4))
          else (Inr s, d3))"
        using assms(1) False f1 f2 f3 f(1) same io Inr w s1(1)
        by (auto simp: openNonceStore_def Let_def s_def split: option.splits)
      have "cleanDisk d3" using same assms(4) f(1) s1(4) by (simp add: cleanDisk_def)
      with o rw ok'(3) so show ?thesis by (auto simp: nonceInv_def split: if_splits option.splits)
    qed
  qed
qed

subsection \<open>A nonce is accepted once\<close>

text \<open>The life of a journal: nonces are consumed, time passes, and the process dies and opens it
  again, with any faults.  The clock does not go back.  A label records an acceptance: the nonce, its
  attestation's time, and the time of day.\<close>

inductive nonceStep ::
  "(journalLine \<Rightarrow> nat) \<Rightarrow> (string \<times> int \<times> int) option \<Rightarrow>
     NonceStore option \<times> NonceDisk \<times> int \<Rightarrow> NonceStore option \<times> NonceDisk \<times> int \<Rightarrow> bool"
  for bl where
  consumed:
    "consumeNonce bl n i now s (d\<lparr>ndScript := sc\<rparr>) = (r, s', d') \<Longrightarrow> T \<le> now \<Longrightarrow>
     nonceStep bl (if r = Inr True then Some (n, i, now) else None) (Some s, d, T) (Some s', d', now)"
| reopened:
    "nonceCrash d d1 \<Longrightarrow> T \<le> now \<Longrightarrow> openNonceStore bl path maxAge now (d1\<lparr>ndScript := sc\<rparr>) = (r, d2) \<Longrightarrow>
     nonceStep bl None (so, d, T) ((case r of Inl e \<Rightarrow> None | Inr s \<Rightarrow> Some s), d2, now)"
| waited:
    "T \<le> now \<Longrightarrow> nonceStep bl None (so, d, T) (so, d\<lparr>ndScript := sc\<rparr>, now)"

inductive_cases nonceStepE: "nonceStep bl l x y"

definition acceptedBy :: "(string \<times> int \<times> int) option list \<Rightarrow> (string \<times> int) set" where
  "acceptedBy evs = {(n, i). \<exists>t. Some (n, i, t) \<in> set evs}"

definition lifeInv :: "int \<Rightarrow> (string \<times> int) set \<Rightarrow> NonceStore option \<times> NonceDisk \<times> int \<Rightarrow> bool" where
  "lifeInv R acc x \<longleftrightarrow> (case x of (so, d, T) \<Rightarrow> diskOK R acc (T - R) d
     \<and> (case so of None \<Rightarrow> True | Some s \<Rightarrow> nonceInv R acc (T - R) (s, d)))"

lemma diskOK_script [simp]: "diskOK R acc c (d\<lparr>ndScript := sc\<rparr>) = diskOK R acc c d"
  by (simp add: diskOK_def)

lemma nonceInv_script [simp]: "nonceInv R acc c (s, d\<lparr>ndScript := sc\<rparr>) = nonceInv R acc c (s, d)"
  by (simp add: nonceInv_def cleanDisk_def)

lemma nonceCrash_OK:
  assumes "nonceCrash d d'" and "diskOK R acc c d"
  shows "diskOK R acc c d' \<and> ndOld d' = []"
proof -
  from assms obtain f k x where f: "journalOK R acc c f" "jfSynced f \<le> k" and old: "ndOld d' = []"
    and d': "ndFile d' = Some \<lparr>jfLines = take k (jfLines f), jfExtra = x, jfSynced = min k (length (jfLines f))\<rparr>"
    unfolding nonceCrash_def diskOK_def by (smt (verit) option.case(2))
  let ?g = "\<lparr>jfLines = take k (jfLines f), jfExtra = x, jfSynced = min k (length (jfLines f))\<rparr>"
  have sub: "set (tl (take (jfSynced f) (jfLines f))) \<subseteq> set (tl (take k (jfLines f)))"
    using f(2) by (metis min.absorb1 set_take_subset take_take tl_take)
  have "0 < k" "jfLines f \<noteq> []" using f by (auto simp: journalOK_def)
  then have "hd (take k (jfLines f)) = hd (jfLines f)" by simp
  moreover have "take (min k (length (jfLines f))) (jfLines f) = take k (jfLines f)" by (simp add: min_def)
  moreover have "\<forall>e \<in> acc. c \<le> snd e \<longrightarrow>
      RecordLine (fst e) (Some (snd e)) \<in> fst ` set (tl (take k (jfLines f)))"
    using f(1) sub unfolding journalOK_def by blast
  ultimately have "journalOK R acc c ?g"
    using f \<open>0 < k\<close> \<open>jfLines f \<noteq> []\<close> unfolding journalOK_def JournalFile.simps
    by (simp add: Suc_le_eq)
  with old d' show ?thesis by (simp add: diskOK_def)
qed

lemma nonceStep_inv:
  assumes "nonceStep bl l x y" and "lifeInv R acc x"
  shows "lifeInv R (acc \<union> acceptedBy [l]) y
    \<and> (\<forall>n i now. l = Some (n, i, now) \<longrightarrow> (\<forall>j. (n, j) \<in> acc \<longrightarrow> j < now - R))"
  using assms(1)
proof (cases rule: nonceStep.cases)
  case (consumed n i now s sc d r s' d' T)
  have "nonceInv R acc (T - R) (s, d)" using assms(2) consumed by (simp add: lifeInv_def)
  then have "nonceInv R acc (now - R) (s, d\<lparr>ndScript := sc\<rparr>)"
    using consumed(5) by (auto intro: nonceInv_mono)
  from consumeNonce_inv [OF consumed(4) this] consumed show ?thesis
    by (auto simp: lifeInv_def nonceInv_def admitted_def acceptedBy_def split: if_splits)
next
  case (reopened d d1 T now path maxAge sc r d2 so)
  have "diskOK R acc (T - R) d" using assms(2) reopened by (simp add: lifeInv_def)
  from nonceCrash_OK [OF reopened(4) this] have d1: "diskOK R acc (T - R) (d1\<lparr>ndScript := sc\<rparr>)"
    "ndOld (d1\<lparr>ndScript := sc\<rparr>) = []" by simp_all
  have "T - R \<le> now - R" using reopened(5) by simp
  from openNonceStore_inv [OF reopened(6) d1(1) this d1(2)] reopened show ?thesis
    by (auto simp: lifeInv_def acceptedBy_def split: sum.splits)
next
  case (waited T now so d sc)
  with assms(2) diskOK_mono [of R acc "T - R" d "now - R"] nonceInv_mono [of R acc "T - R" _ "now - R"]
  show ?thesis by (simp add: lifeInv_def acceptedBy_def split: option.splits)
qed

lemma trace_lifeInv:
  "trace (nonceStep bl) x evs y \<Longrightarrow> lifeInv R acc x \<Longrightarrow> lifeInv R (acc \<union> acceptedBy evs) y"
proof (induction arbitrary: acc rule: trace.induct)
  case (trace_cons e s s1 es s2)
  have u: "acc \<union> acceptedBy [e] \<union> acceptedBy es = acc \<union> acceptedBy (e # es)"
    by (auto simp: acceptedBy_def)
  from trace_cons.IH [OF conjunct1 [OF nonceStep_inv [OF trace_cons.hyps(1) trace_cons.prems]]] u
  show ?case by simp
qed (simp add: acceptedBy_def)

text \<open>Opening for the first time in a trace, with nothing unsettled on the disk.\<close>

definition settledJournal :: "NonceDisk \<Rightarrow> bool" where
  "settledJournal d \<longleftrightarrow> ndOld d = [] \<and> (\<forall>f. ndFile d = Some f \<longrightarrow> jfSynced f = length (jfLines f))"

lemma storeOK_start:
  "nsPath s \<noteq> '''' \<Longrightarrow> distinct (map fst (nsSeen s)) \<Longrightarrow> storeOK (nsRetention s) {} c s"
  by (simp add: storeOK_def)

lemma openNonceStore_start:
  assumes "openNonceStore bl path maxAge now d = (Inr s, d')" and "settledJournal d"
  shows "lifeInv (nsRetention s) {} (Some s, d', now)"
proof -
  have p: "path \<noteq> ''''" "0 < maxAge"
    using assms(1) by (auto simp: openNonceStore_def Let_def split: if_splits)
  obtain f1 d1 where f1: "diskFault d = (f1, d1)" by force
  obtain f2 d2 where f2: "diskFault d1 = (f2, d2)" by force
  obtain f3 d3 where f3: "diskFault d2 = (f3, d3)" by force
  note same = diskFault_same [OF f1] diskFault_same [OF f2] diskFault_same [OF f3]
  let ?s0 = "newNonceStore path maxAge"
  have start: "lifeInv (nsRetention s) {} (Some s, d', now)"
    if w: "rewriteLocked bl t dd = (None, s, d')" and t: "nsPath t \<noteq> ''''" "distinct (map fst (nsSeen t))"
      "nsFailed t = None" for t dd
  proof -
    from rewritten_OK [OF w storeOK_start [OF t(1,2)]] t(3)
    have "storeOK (nsRetention t) {} (now - nsRetention t) s" "nsFailed s = None"
      "diskOK (nsRetention t) {} (now - nsRetention t) d'" "cleanDisk d'"
      by blast (use rewritten_OK [OF w storeOK_start [OF t(1,2)]] t(3) in auto)
    then show ?thesis by (auto simp: lifeInv_def nonceInv_def storeOK_def)
  qed
  show ?thesis
  proof (cases "ndFile d")
    case None
    obtain e s2 d4 where w: "rewriteLocked bl ?s0 d1 = (e, s2, d4)" by (metis prod_cases3)
    have "e = None" "s2 = s" "d4 = d'"
      using assms(1) p f1 None same w by (auto simp: openNonceStore_def Let_def split: if_splits option.splits)
    with w start [of ?s0 d1] p show ?thesis by (simp add: newNonceStore_def)
  next
    case (Some f)
    obtain s1 where l: "loadJournal now f ?s0 = Inr s1"
      using assms(1) p f1 f2 f3 Some same
      by (cases "loadJournal now f ?s0") (auto simp: openNonceStore_def Let_def split: if_splits)
    have s0: "nsSeen ?s0 = []" "nsPath ?s0 = path" "nsFailed ?s0 = None" by (simp_all add: newNonceStore_def)
    note li = loadJournal_Inr [OF l s0(1)]
    define t where "t = s1\<lparr>nsFileSize := journalSize f, nsExpiry := foldr pushExpiry (nsExpiry s1) []\<rparr>"
    have t: "nsPath t \<noteq> ''''" "distinct (map fst (nsSeen t))" "nsFailed t = None"
        "nsRetention t = nsRetention s1" using li s0 p by (simp_all add: t_def)
    obtain e s2 d4 where w: "rewriteLocked bl t d3 = (e, s2, d4)" by (metis prod_cases3)
    have o: "if 0 < nsObsolete t then e = None \<and> s2 = s \<and> d4 = d' else s = t \<and> d' = d3"
      using assms(1) p f1 f2 f3 Some same l w
      by (auto simp: openNonceStore_def Let_def t_def split: if_splits option.splits)
    show ?thesis
    proof (cases "0 < nsObsolete t")
      case True
      with o w start [of t d3] t show ?thesis by simp
    next
      case False
      with o have s: "s = t" "d' = d3" by auto
      have f: "ndFile d3 = Some f" "ndOld d3 = []" "jfSynced f = length (jfLines f)"
        using same Some assms(2) by (simp_all add: settledJournal_def)
      have "journalOK (nsRetention t) {} c f" for c
        using li f(3) t(4) by (auto simp: journalOK_def Suc_le_eq)
      with f s t li storeOK_start [OF t(1,2)] show ?thesis
        by (auto simp: lifeInv_def nonceInv_def diskOK_def cleanDisk_def)
    qed
  qed
qed

text \<open>A nonce is accepted once in its lifetime.  Open a settled journal and let the runner
  consume nonces, crash and reopen in any order, with any input/output failures and any part of the
  unsynced journal lost: when a nonce accepted with issue time \<open>i\<close> is accepted again at time \<open>u\<close>, that
  first attestation is older than the retention at \<open>u\<close>, so no freshness window within the retention
  still contains it.\<close>

lemma nonce_accepted_once:
  assumes "openNonceStore bl path maxAge now d0 = (Inr s0, d)" and "settledJournal d0"
    and "trace (nonceStep bl) (Some s0, d, now) (a @ Some (n, i, t) # b @ Some (n, j, u) # c) x"
  shows "i < u - nsRetention s0"
proof -
  let ?R = "nsRetention s0"
  have start: "lifeInv ?R {} (Some s0, d, now)" by (rule openNonceStore_start [OF assms(1,2)])
  have "trace (nonceStep bl) (Some s0, d, now) ((a @ Some (n, i, t) # b) @ Some (n, j, u) # c) x"
    using assms(3) by simp
  then obtain y where y: "trace (nonceStep bl) (Some s0, d, now) (a @ Some (n, i, t) # b) y"
    and rest: "trace (nonceStep bl) y (Some (n, j, u) # c) x" by (rule trace_appendE)
  from rest obtain z where "nonceStep bl (Some (n, j, u)) y z" by (auto elim: trace.cases)
  moreover have "lifeInv ?R (acceptedBy (a @ Some (n, i, t) # b)) y"
    using trace_lifeInv [OF y start] by simp
  moreover have "(n, i) \<in> acceptedBy (a @ Some (n, i, t) # b)" by (auto simp: acceptedBy_def)
  ultimately show ?thesis using nonceStep_inv by blast
qed


definition sampleNonce :: string where "sampleNonce = ''0123456789abcdef0123456789abcdef''"

end
