(* ===== verification/Signing.thy ===== *)
theory Signing
  imports Nonce_Store
begin

text \<open>
  The signature gate of \<open>runner/internal/signing/signing.go\<close>: building a verifier from trusted
  certificates, and \<open>Check\<close>, which decides whether one delivered dispatch may run and consumes its
  nonce.  The clock is read twice in a check, so a check takes two times.  A refusal keeps its
  machine code; its sentence is a value.  Durations are nanoseconds in 64 bits.
\<close>

subsection \<open>Building a verifier\<close>

record CAConfig =
  caName :: string
  caPEM :: string

record SignedDispatch =
  sdActionID :: string
  sdPackRef :: string
  sdArgsRaw :: string
  sdReason :: string
  sdOperationID :: string

datatype refusal_detail =
    NoDetail | NoSignedCertificate | VersionUnsupported string | ToolUnsupported string | OtherPortal
  | IntentFieldMissing | IntentDiffers | DeliveredArgsInvalid | ArgsDigestDiffers | RefsInvalid
  | RunnerNotNamed | NonceShape | ChainTooLong nat | ChainNotBase64 nat | CertRefused cert_reason
  | ScopeUnsatisfied | IssuedAtUnparsed string | OutsideWindow string int | DigestShape
  | SignatureMalformed | SignatureDiffers | NonceUnrecorded | NonceReused

record Decision =
  Allowed :: bool
  Code :: string
  Detail :: refusal_detail

definition allowed :: Decision where
  "allowed = \<lparr>Allowed = True, Code = '''', Detail = NoDetail\<rparr>"

definition refuseWith :: "string \<Rightarrow> refusal_detail \<Rightarrow> Decision" where
  "refuseWith code why = \<lparr>Allowed = False, Code = code, Detail = why\<rparr>"

record 'r Verifier =
  vEnforce :: bool
  vMaxAge :: int
  vRoots :: 'r
  vCANames :: "string list"
  vRunnerID :: string
  vOrigin :: string
  vGroup :: string
  vLabels :: "(string \<times> string) list"

datatype verifier_error =
    AgeNotPositive | StoreMissing | NotPEMCertificate nat | CAUnparsed nat | NotCA nat string
  | NoTrustedCAs | NoRunnerID | NoPortalOrigin | RetentionRefused nonce_error

text \<open>What parses a PEM block (its type and bytes), the empty pool, and adding to a pool.\<close>

record 'r PoolLib =
  poolPEM :: "string \<Rightarrow> (string \<times> string) option"
  poolEmpty :: 'r
  poolAdd :: "Certificate \<Rightarrow> 'r \<Rightarrow> 'r"

fun addCAs ::
  "'r CryptoLib \<Rightarrow> 'r PoolLib \<Rightarrow> nat \<Rightarrow> CAConfig list \<Rightarrow> 'r \<Rightarrow> string list \<Rightarrow> verifier_error + 'r \<times> string list" where
  "addCAs lib pool i [] roots names = Inr (roots, names)"
| "addCAs lib pool i (ca # cas) roots names =
    (case poolPEM pool (caPEM ca) of
       None \<Rightarrow> Inl (NotPEMCertificate i)
     | Some (kind, bytes) \<Rightarrow>
         if kind \<noteq> ''CERTIFICATE'' then Inl (NotPEMCertificate i)
         else (case libParseCert lib bytes of
            None \<Rightarrow> Inl (CAUnparsed i)
          | Some cert \<Rightarrow>
              if \<not> certBasicConstraintsValid cert \<or> \<not> certIsCA cert then Inl (NotCA i (certCommonName cert))
              else addCAs lib pool (Suc i) cas (poolAdd pool cert roots)
                (names @ [if caName ca = '''' then certCommonName cert else caName ca])))"

definition newVerifier ::
  "'r CryptoLib \<Rightarrow> 'r PoolLib \<Rightarrow> bool \<Rightarrow> CAConfig list \<Rightarrow> int \<Rightarrow> string \<Rightarrow> string \<Rightarrow> string \<Rightarrow>
     (string \<times> string) list \<Rightarrow> NonceStore option \<Rightarrow> verifier_error + 'r Verifier \<times> NonceStore" where
  "newVerifier lib pool enforce cas maxAge runnerID portalOrigin grp labels nonces =
    (if maxAge \<le> 0 then Inl AgeNotPositive
     else case nonces of
       None \<Rightarrow> Inl StoreMissing
     | Some store \<Rightarrow>
         rbind (addCAs lib pool 0 cas (poolEmpty pool) []) (\<lambda>(roots, names).
           if enforce \<and> names = [] then Inl NoTrustedCAs
           else if enforce \<and> runnerID = '''' then Inl NoRunnerID
           else if enforce \<and> portalOrigin = '''' then Inl NoPortalOrigin
           else rbind (if enforce then map_sum RetentionRefused id (bindRetention maxAge store) else Inr store)
             (\<lambda>bound. Inr
               (\<lparr>vEnforce = enforce, vMaxAge = maxAge, vRoots = roots, vCANames = sort names,
                 vRunnerID = runnerID, vOrigin = portalOrigin, vGroup = grp, vLabels = labels\<rparr>, bound))))"

definition Enforces :: "'r Verifier \<Rightarrow> bool" where "Enforces v = vEnforce v"
definition CAIDs :: "'r Verifier \<Rightarrow> string list" where "CAIDs v = vCANames v"
definition MaxAge :: "'r Verifier \<Rightarrow> int" where "MaxAge v = vMaxAge v"

subsection \<open>Checking a dispatch\<close>

definition sha256HexLen :: nat where "sha256HexLen = 64"

definition narrativeDigestWellFormed :: "string \<Rightarrow> bool" where
  "narrativeDigestWellFormed s \<longleftrightarrow> s = '''' \<or> length s = sha256HexLen \<and> list_all lowerHex s"

fun decodeEntries :: "'r CryptoLib \<Rightarrow> nat \<Rightarrow> string list \<Rightarrow> refusal_detail + string list" where
  "decodeEntries lib i [] = Inr []"
| "decodeEntries lib i (e # es) =
    (case libBase64 lib e of
       None \<Rightarrow> Inl (ChainNotBase64 i)
     | Some der \<Rightarrow> rbind (decodeEntries lib (Suc i) es) (\<lambda>ders. Inr (der # ders)))"

definition decodeCertChain :: "'r CryptoLib \<Rightarrow> string list \<Rightarrow> refusal_detail + string list" where
  "decodeCertChain lib encoded =
    (if MaxChainCerts < length encoded then Inl (ChainTooLong (length encoded))
     else decodeEntries lib 0 encoded)"

text \<open>\<open>time.Time.Sub\<close>: the difference, saturated to a 64-bit duration.\<close>

definition timeSub :: "int \<Rightarrow> int \<Rightarrow> int" where
  "timeSub t u = max (- (2 ^ 63)) (min (2 ^ 63 - 1) (t - u))"

text \<open>Steps 1 to 3: the envelope against the delivered dispatch and this runner.\<close>

definition checkIntent ::
  "'r CryptoLib \<Rightarrow> 'r Verifier \<Rightarrow> SignedDispatch \<Rightarrow> Attestation \<Rightarrow> Decision option" where
  "checkIntent lib v dispatch att =
    (if AttVersion att \<noteq> attVersion then
       Some (refuseWith ''attestation_version'' (VersionUnsupported (AttVersion att)))
     else if AttTool att \<noteq> attTool then Some (refuseWith ''attestation_tool'' (ToolUnsupported (AttTool att)))
     else if AttPortalOrigin att \<noteq> vOrigin v then Some (refuseWith ''portal_mismatch'' OtherPortal)
     else if sdActionID dispatch = '''' \<or> sdPackRef dispatch = '''' \<or> sdReason dispatch = ''''
          \<or> sdOperationID dispatch = '''' then Some (refuseWith ''intent_mismatch'' IntentFieldMissing)
     else if AttActionID att \<noteq> sdActionID dispatch \<or> AttPackRef att \<noteq> sdPackRef dispatch
          \<or> AttReason att \<noteq> sdReason dispatch \<or> AttOperationID att \<noteq> sdOperationID dispatch then
       Some (refuseWith ''intent_mismatch'' IntentDiffers)
     else case argsSHA256 (libSHA256 lib) (sdArgsRaw dispatch) of
       Inl e \<Rightarrow> Some (refuseWith ''invalid_args'' DeliveredArgsInvalid)
     | Inr argsDigest \<Rightarrow>
         if AttArgsSHA256 att \<noteq> argsDigest then Some (refuseWith ''intent_mismatch'' ArgsDigestDiffers)
         else if canonicalRunnerRefs (AttRunnerRefs att) \<noteq> Inr (AttRunnerRefs att) then
           Some (refuseWith ''target_mismatch'' RefsInvalid)
         else if \<not> containsLocal (libSHA256 lib) (AttRunnerRefs att) (vRunnerID v) then
           Some (refuseWith ''target_mismatch'' RunnerNotNamed)
         else if \<not> validNonce (AttNonce att) then Some (refuseWith ''bad_nonce'' NonceShape)
         else None)"

text \<open>The claim the signature is verified over: the delivered intent, with the digests and the
  target set of the envelope.\<close>

definition dispatchClaim :: "'r Verifier \<Rightarrow> SignedDispatch \<Rightarrow> Attestation \<Rightarrow> Claim" where
  "dispatchClaim v dispatch att =
    \<lparr>clmActionID = sdActionID dispatch, clmPackRef = sdPackRef dispatch, clmArgsRaw = sdArgsRaw dispatch,
     clmRunnerRefs = AttRunnerRefs att, clmReason = sdReason dispatch, Evidence = '''', Expected = '''',
     EvidenceSHA256 = AttEvidenceSHA256 att, ExpectedSHA256 = AttExpectedSHA256 att,
     clmOperationID = sdOperationID dispatch, PortalOrigin = vOrigin v, Nonce = AttNonce att,
     IssuedAt = AttIssuedAt att\<rparr>"

text \<open>Steps 4 to 7: the chain, its scope, freshness and the signature.  The result on success is
  the parsed issue time.\<close>

definition checkTrust ::
  "'r CryptoLib \<Rightarrow> 'r Verifier \<Rightarrow> SignedDispatch \<Rightarrow> Attestation \<Rightarrow> int \<Rightarrow> Decision + int" where
  "checkTrust lib v dispatch att now =
    (case decodeCertChain lib (AttCertChain att) of
       Inl e \<Rightarrow> Inl (refuseWith CodeCertProfile e)
     | Inr chain \<Rightarrow>
       (case verifyChain lib (vRoots v) chain now of
          Inl e \<Rightarrow> Inl (refuseWith (ceCode e) (CertRefused (ceReason e)))
        | Inr (leaf, scope) \<Rightarrow>
          if \<not> scopeMatches scope (vGroup v) (vLabels v) then Inl (refuseWith CodeCertScope ScopeUnsatisfied)
          else (case libParseTime lib (AttIssuedAt att) of
             None \<Rightarrow> Inl (refuseWith ''bad_issued_at'' (IssuedAtUnparsed (AttIssuedAt att)))
           | Some issued \<Rightarrow>
             let age = timeSub now issued in
             if vMaxAge v < age \<or> age < - vMaxAge v then
               Inl (refuseWith ''stale'' (OutsideWindow (AttIssuedAt att) (vMaxAge v)))
             else if \<not> narrativeDigestWellFormed (AttEvidenceSHA256 att)
                  \<or> \<not> narrativeDigestWellFormed (AttExpectedSHA256 att) then
               Inl (refuseWith ''bad_signature'' DigestShape)
             else (case verifyClaim lib leaf (dispatchClaim v dispatch att) (AttSignature att) of
                None \<Rightarrow> Inl (refuseWith ''bad_signature'' SignatureMalformed)
              | Some valid \<Rightarrow>
                  if \<not> valid then Inl (refuseWith ''bad_signature'' SignatureDiffers) else Inr issued))))"

text \<open>\<open>Check\<close>; \<open>now\<close> is the reading of the clock for the freshness window and \<open>now2\<close> the one for the
  nonce store.\<close>

definition Check ::
  "'r CryptoLib \<Rightarrow> (journalLine \<Rightarrow> nat) \<Rightarrow> 'r Verifier \<Rightarrow> SignedDispatch \<Rightarrow> Attestation option \<Rightarrow>
     int \<Rightarrow> int \<Rightarrow> NonceStore \<Rightarrow> NonceDisk \<Rightarrow> Decision \<times> NonceStore \<times> NonceDisk" where
  "Check lib bl v dispatch env now now2 s d =
    (if \<not> vEnforce v then (allowed, s, d)
     else case env of
       None \<Rightarrow> (refuseWith ''signature_required'' NoSignedCertificate, s, d)
     | Some att \<Rightarrow>
       if AttCertChain att = [] then (refuseWith ''signature_required'' NoSignedCertificate, s, d)
       else (case checkIntent lib v dispatch att of
          Some r \<Rightarrow> (r, s, d)
        | None \<Rightarrow>
          (case checkTrust lib v dispatch att now of
             Inl r \<Rightarrow> (r, s, d)
           | Inr issued \<Rightarrow>
             (case consumeNonce bl (AttNonce att) issued now2 s d of
                (Inl e, s1, d1) \<Rightarrow> (refuseWith ''nonce_store_unavailable'' NonceUnrecorded, s1, d1)
              | (Inr ok, s1, d1) \<Rightarrow>
                  (if ok then allowed else refuseWith ''replayed'' NonceReused, s1, d1)))))"


subsection \<open>What an accepted dispatch carries\<close>

text \<open>The envelope speaks of exactly the delivered intent and of this runner.\<close>

definition intentBound :: "'r CryptoLib \<Rightarrow> 'r Verifier \<Rightarrow> SignedDispatch \<Rightarrow> Attestation \<Rightarrow> bool" where
  "intentBound lib v dispatch att \<longleftrightarrow>
     AttVersion att = attVersion \<and> AttTool att = attTool \<and> AttPortalOrigin att = vOrigin v
   \<and> '''' \<notin> {sdActionID dispatch, sdPackRef dispatch, sdReason dispatch, sdOperationID dispatch}
   \<and> AttActionID att = sdActionID dispatch \<and> AttPackRef att = sdPackRef dispatch
   \<and> AttReason att = sdReason dispatch \<and> AttOperationID att = sdOperationID dispatch
   \<and> argsSHA256 (libSHA256 lib) (sdArgsRaw dispatch) = Inr (AttArgsSHA256 att)
   \<and> canonicalRunnerRefs (AttRunnerRefs att) = Inr (AttRunnerRefs att)
   \<and> containsLocal (libSHA256 lib) (AttRunnerRefs att) (vRunnerID v)
   \<and> validNonce (AttNonce att)"

lemma checkIntent_None: "checkIntent lib v dispatch att = None \<longleftrightarrow> intentBound lib v dispatch att"
  by (cases "argsSHA256 (libSHA256 lib) (sdArgsRaw dispatch)")
    (auto simp: checkIntent_def intentBound_def)

text \<open>A chain to a trusted root, within its own validity, whose scope covers this runner, an issue
  time in the window, and a signature of the certified key over the delivered intent.\<close>

definition trustedAt ::
  "'r CryptoLib \<Rightarrow> 'r Verifier \<Rightarrow> SignedDispatch \<Rightarrow> Attestation \<Rightarrow> int \<Rightarrow> int \<Rightarrow> bool" where
  "trustedAt lib v dispatch att now issued \<longleftrightarrow> (\<exists>chain leaf scope.
     decodeCertChain lib (AttCertChain att) = Inr chain
   \<and> verifyChain lib (vRoots v) chain now = Inr (leaf, scope)
   \<and> scopeMatches scope (vGroup v) (vLabels v)
   \<and> libParseTime lib (AttIssuedAt att) = Some issued \<and> \<bar>now - issued\<bar> \<le> vMaxAge v
   \<and> narrativeDigestWellFormed (AttEvidenceSHA256 att) \<and> narrativeDigestWellFormed (AttExpectedSHA256 att)
   \<and> verifyClaim lib leaf (dispatchClaim v dispatch att) (AttSignature att) = Some True)"

definition boundedAge :: "'r Verifier \<Rightarrow> bool" where
  "boundedAge v \<longleftrightarrow> 0 < vMaxAge v \<and> vMaxAge v < 2 ^ 63 - 1"

lemma timeSub_window:
  "boundedAge v \<Longrightarrow> (vMaxAge v < timeSub now issued \<or> timeSub now issued < - vMaxAge v)
     \<longleftrightarrow> \<not> \<bar>now - issued\<bar> \<le> vMaxAge v"
  by (auto simp: boundedAge_def timeSub_def)

lemma checkTrust_Inr:
  assumes "boundedAge v"
  shows "checkTrust lib v dispatch att now = Inr issued \<longleftrightarrow> trustedAt lib v dispatch att now issued"
proof (cases "decodeCertChain lib (AttCertChain att)")
  case (Inr chain)
  show ?thesis
  proof (cases "verifyChain lib (vRoots v) chain now")
    case (Inl e)
    with Inr show ?thesis by (simp add: checkTrust_def trustedAt_def)
  next
    case chained: (Inr ls)
    obtain leaf scope where ls: "ls = (leaf, scope)" by force
    with Inr chained timeSub_window [OF assms, of now] show ?thesis
      by (cases "libParseTime lib (AttIssuedAt att)";
          cases "verifyClaim lib leaf (dispatchClaim v dispatch att) (AttSignature att)")
        (auto simp: checkTrust_def trustedAt_def Let_def)
  qed
qed (simp add: checkTrust_def trustedAt_def)

lemma check_enforced:
  assumes "vEnforce v"
  shows "Check lib bl v dispatch env now now2 s d =
    (case env of None \<Rightarrow> (refuseWith ''signature_required'' NoSignedCertificate, s, d) | Some att \<Rightarrow>
       if AttCertChain att = [] then (refuseWith ''signature_required'' NoSignedCertificate, s, d)
       else (case checkIntent lib v dispatch att of Some r \<Rightarrow> (r, s, d) | None \<Rightarrow>
         (case checkTrust lib v dispatch att now of Inl r \<Rightarrow> (r, s, d) | Inr issued \<Rightarrow>
           (case consumeNonce bl (AttNonce att) issued now2 s d of
              (Inl e, s1, d1) \<Rightarrow> (refuseWith ''nonce_store_unavailable'' NonceUnrecorded, s1, d1)
            | (Inr ok, s1, d1) \<Rightarrow> (if ok then allowed else refuseWith ''replayed'' NonceReused, s1, d1)))))"
  using assms by (simp add: Check_def)

lemma checkIntent_refuses: "checkIntent lib v dispatch att = Some r \<Longrightarrow> \<not> Allowed r
    \<and> Code r \<noteq> ''replayed'' \<and> Code r \<noteq> ''nonce_store_unavailable''"
  by (cases "argsSHA256 (libSHA256 lib) (sdArgsRaw dispatch)")
    (auto simp: checkIntent_def refuseWith_def split: if_splits)

lemma checkTrust_refuses: "checkTrust lib v dispatch att now = Inl r \<Longrightarrow> \<not> Allowed r"
  by (auto simp: checkTrust_def refuseWith_def Let_def split: sum.splits option.splits if_splits prod.splits)

lemma check_allowed_iff:
  assumes "vEnforce v" and "boundedAge v" and "AttCertChain att \<noteq> []" and "intentBound lib v dispatch att"
  shows "(\<exists>dec. Check lib bl v dispatch (Some att) now now2 s d = (dec, s', d') \<and> Allowed dec) \<longleftrightarrow>
    (\<exists>issued. trustedAt lib v dispatch att now issued
      \<and> consumeNonce bl (AttNonce att) issued now2 s d = (Inr True, s', d'))"
proof (cases "checkTrust lib v dispatch att now")
  case (Inl r)
  with checkTrust_Inr [OF assms(2), of lib dispatch att now] checkTrust_refuses [OF Inl] assms
    checkIntent_None [of lib v dispatch att] show ?thesis by (auto simp: check_enforced)
next
  case (Inr issued)
  have i: "trustedAt lib v dispatch att now j \<longleftrightarrow> j = issued" for j
    using checkTrust_Inr [OF assms(2), of lib dispatch att now j] Inr by auto
  obtain r s1 d1 where c: "consumeNonce bl (AttNonce att) issued now2 s d = (r, s1, d1)" by (metis prod_cases3)
  with Inr assms i checkIntent_None [of lib v dispatch att] show ?thesis
    by (cases r) (auto simp: check_enforced allowed_def refuseWith_def split: if_splits)
qed

lemma check_allowedD:
  assumes "Check lib bl v dispatch env now now2 s d = (dec, s', d')" and "Allowed dec"
    and "vEnforce v" and "boundedAge v"
  obtains att issued where "env = Some att" "AttCertChain att \<noteq> []" "intentBound lib v dispatch att"
    "trustedAt lib v dispatch att now issued" "consumeNonce bl (AttNonce att) issued now2 s d = (Inr True, s', d')"
proof (cases env)
  case None
  with assms show ?thesis by (auto simp: check_enforced refuseWith_def)
next
  case (Some att)
  have a: "AttCertChain att \<noteq> []" "intentBound lib v dispatch att"
    using assms Some checkIntent_refuses [of lib v dispatch att] checkIntent_None [of lib v dispatch att]
    by (auto simp: check_enforced refuseWith_def split: if_splits option.splits)
  with check_allowed_iff [OF assms(3,4) this, where s' = s' and d' = d'] assms(1,2) Some that show ?thesis by metis
qed

text \<open>C25: The signature gate is exact.  An enforcing runner allows a dispatch if and only if the
  dispatch carries an envelope with a certificate chain, every signed field equals what was
  delivered, this runner is named once in the signed target set, the chain leads to a trusted root
  and its scope covers this runner, the issue time is within the freshness window, the certified key
  signed the delivered intent, and the nonce store has just recorded a nonce it did not hold.\<close>

theorem gate_exact:
  assumes "vEnforce v" and "boundedAge v"
    and "Check lib bl v dispatch env now now2 s d = (dec, s', d')"
  shows "Allowed dec \<longleftrightarrow> (\<exists>att issued. env = Some att \<and> AttCertChain att \<noteq> []
     \<and> intentBound lib v dispatch att \<and> trustedAt lib v dispatch att now issued
     \<and> consumeNonce bl (AttNonce att) issued now2 s d = (Inr True, s', d'))"
proof
  assume "Allowed dec"
  then show "\<exists>att issued. env = Some att \<and> AttCertChain att \<noteq> []
     \<and> intentBound lib v dispatch att \<and> trustedAt lib v dispatch att now issued
     \<and> consumeNonce bl (AttNonce att) issued now2 s d = (Inr True, s', d')"
    using check_allowedD [OF assms(3) _ assms(1,2)] by blast
next
  assume "\<exists>att issued. env = Some att \<and> AttCertChain att \<noteq> []
     \<and> intentBound lib v dispatch att \<and> trustedAt lib v dispatch att now issued
     \<and> consumeNonce bl (AttNonce att) issued now2 s d = (Inr True, s', d')"
  then obtain att where a: "env = Some att" "AttCertChain att \<noteq> []" "intentBound lib v dispatch att"
    "\<exists>issued. trustedAt lib v dispatch att now issued
      \<and> consumeNonce bl (AttNonce att) issued now2 s d = (Inr True, s', d')" by blast
  with check_allowed_iff [OF assms(1,2) a(2,3), of bl now now2 s d s' d'] assms(3) show "Allowed dec" by auto
qed

subsection \<open>A refusal burns no nonce\<close>

lemma rewriteLocked_seen: "rewriteLocked bl s d = (e, s', d') \<Longrightarrow> nsSeen s' = nsSeen s"
  by (auto simp: rewriteLocked_def Let_def split: if_splits prod.splits fault.splits)

lemma pruneFrom_seen: "pruneFrom cutoff q seen ob = (q', seen', ob') \<Longrightarrow> set seen' \<subseteq> set seen"
  by (induction cutoff q seen ob rule: pruneFrom.induct) (auto simp: dropKey_def split: if_splits)

lemma admitNonce_refused_seen:
  "admitNonce bl n i s d = (r, s', d') \<Longrightarrow> r \<noteq> Inr True \<Longrightarrow> nsSeen s' = nsSeen s"
  by (auto simp: admitNonce_def latch_def appendLocked_def Let_def split: if_splits option.splits prod.splits fault.splits)

lemma makeRoom_refused_seen:
  "makeRoom bl n i s d = (r, s', d') \<Longrightarrow> r \<noteq> Inr True \<Longrightarrow> nsSeen s' = nsSeen s"
  by (auto simp: makeRoom_def latch_def Let_def split: if_splits option.splits prod.splits
      dest!: rewriteLocked_seen admitNonce_refused_seen)

lemma consumeNonce_refused_seen:
  assumes "consumeNonce bl n i now s d = (r, s', d')" and "r \<noteq> Inr True"
  shows "set (nsSeen s') \<subseteq> set (nsSeen s)"
proof (cases "nsFailed s \<noteq> None \<or> nsRetention s \<le> 0")
  case False
  let ?p = "pruneLocked (now - nsRetention s) s"
  have p: "set (nsSeen ?p) \<subseteq> set (nsSeen s)"
    by (auto simp: pruneLocked_def split: prod.splits dest!: pruneFrom_seen)
  show ?thesis
  proof (cases "map_of (nsSeen ?p) n")
    case None
    obtain e s1 d1 where w: "(if nsPath ?p \<noteq> '''' \<and> shouldCompact ?p then rewriteLocked bl ?p d else (None, ?p, d)) = (e, s1, d1)"
      by (metis prod_cases3)
    then have "nsSeen s1 = nsSeen ?p" by (auto split: if_splits dest: rewriteLocked_seen)
    moreover have "nsSeen s' = nsSeen s1"
      using assms False None w makeRoom_refused_seen
      by (cases e) (auto simp: consumeNonce_def Let_def latch_def split: if_splits)
    ultimately show ?thesis using p by simp
  next
    case Some
    with assms False p show ?thesis by (simp add: consumeNonce_def Let_def)
  qed
next
  case True
  with assms(1) have "s' = s" by (auto simp: consumeNonce_def split: if_splits)
  then show ?thesis by simp
qed


subsection \<open>A control plane cannot forge or redirect\<close>

text \<open>The keys vouched for by the roots at a time only ever signed the claims in \<open>S\<close>.\<close>

definition signedOnly :: "'r CryptoLib \<Rightarrow> 'r \<Rightarrow> int \<Rightarrow> Claim set \<Rightarrow> bool" where
  "signedOnly lib roots now S \<longleftrightarrow> (\<forall>chain leaf scope c sig. verifyChain lib roots chain now = Inr (leaf, scope)
     \<and> verifyClaim lib leaf c sig = Some True \<longrightarrow>
     (\<exists>c' \<in> S. signingBytes (libSHA256 lib) (libJSON lib) c' = signingBytes (libSHA256 lib) (libJSON lib) c))"

text \<open>The texts of both claims come from JSON strings, and the hash does not collide on their two
  argument texts and their two runner lists.\<close>

definition comparable :: "'r CryptoLib \<Rightarrow> Claim \<Rightarrow> Claim \<Rightarrow> bool" where
  "comparable lib c c' \<longleftrightarrow> (\<forall>t \<in> set (claimTexts c @ claimTexts c'). validString t)
     \<and> noCollision (libSHA256 lib) (normalArgs (clmArgsRaw c)) (normalArgs (clmArgsRaw c'))
     \<and> noCollision (libSHA256 lib) (jsonList (libJSON lib) (sort (clmRunnerRefs c)))
         (jsonList (libJSON lib) (sort (clmRunnerRefs c')))"

lemma containsLocal_matches:
  assumes "containsLocal sha refs runner"
  shows "\<exists>ref \<in> set refs. refMatches sha ref runner"
proof -
  have "filter (\<lambda>r. refMatches sha r runner) refs \<noteq> []" using assms by (auto simp: containsLocal_def)
  then show ?thesis by (auto simp: filter_empty_conv)
qed

text \<open>C26: What runs was authorized.  Suppose the keys that certificates of the trusted roots vouch
  for only ever signed the claims in \<open>S\<close>.  Whatever the control plane delivers, a dispatch that an
  enforcing runner allows carries the action, pack, argument bytes, reason and operation of one of
  those claims, signed for this portal and for a set of runners that names this one.\<close>

theorem allowed_was_authorized:
  assumes "vEnforce v" and "boundedAge v"
    and "Check lib bl v dispatch env now now2 s d = (dec, s', d')" and "Allowed dec"
    and "signedOnly lib (vRoots v) now S"
    and "selfDelimiting (libJSON lib)" and "\<forall>x. validString (libSHA256 lib x)"
    and "\<And>att c. env = Some att \<Longrightarrow> c \<in> S \<Longrightarrow> comparable lib c (dispatchClaim v dispatch att)"
  shows "\<exists>c \<in> S. clmActionID c = sdActionID dispatch \<and> clmPackRef c = sdPackRef dispatch
    \<and> normalArgs (clmArgsRaw c) = normalArgs (sdArgsRaw dispatch) \<and> clmReason c = sdReason dispatch
    \<and> clmOperationID c = sdOperationID dispatch \<and> PortalOrigin c = vOrigin v
    \<and> (\<exists>ref \<in> set (clmRunnerRefs c). refMatches (libSHA256 lib) ref (vRunnerID v))"
proof -
  obtain att issued where att: "env = Some att" "intentBound lib v dispatch att" "trustedAt lib v dispatch att now issued"
    using check_allowedD [OF assms(3,4,1,2)] by metis
  let ?c = "dispatchClaim v dispatch att"
  from att(3) obtain chain leaf scope where t: "verifyChain lib (vRoots v) chain now = Inr (leaf, scope)"
      "verifyClaim lib leaf ?c (AttSignature att) = Some True" by (auto simp: trustedAt_def)
  obtain msg where msg: "signingBytes (libSHA256 lib) (libJSON lib) ?c = Inr msg"
    using t(2) by (auto simp: verifyClaim_def split: sum.splits)
  obtain c where c: "c \<in> S" "signingBytes (libSHA256 lib) (libJSON lib) c = Inr msg"
    using assms(5) t msg unfolding signedOnly_def by metis
  have cmp: "comparable lib c ?c" by (rule assms(8) [OF att(1) c(1)])
  have b: "PortalOrigin c = vOrigin v" "clmActionID c = sdActionID dispatch" "clmPackRef c = sdPackRef dispatch"
      "normalArgs (clmArgsRaw c) = normalArgs (sdArgsRaw dispatch)" "set (clmRunnerRefs c) = set (AttRunnerRefs att)"
      "clmReason c = sdReason dispatch" "clmOperationID c = sdOperationID dispatch"
    using signing_bytes_bind [OF c(2) msg assms(6,7)] cmp by (auto simp: comparable_def dispatchClaim_def)
  have "\<exists>ref \<in> set (AttRunnerRefs att). refMatches (libSHA256 lib) ref (vRunnerID v)"
    using att(2) by (intro containsLocal_matches) (simp add: intentBound_def)
  with b c(1) show ?thesis by metis
qed


subsection \<open>A control plane cannot replay, except across the expiry\<close>

text \<open>The life of the gate: dispatches are checked, by verifiers that policy reloads replace, and the
  runner crashes and opens its journal again.  The first reading of the clock in a check may lie
  before the end of an earlier check, as checks run concurrently up to the nonce store; the readings
  for the store are in order.  A label records an allowed envelope with the two readings.\<close>

inductive gateStep ::
  "'r CryptoLib \<Rightarrow> (journalLine \<Rightarrow> nat) \<Rightarrow> int \<Rightarrow> ('r Verifier \<times> Attestation \<times> int \<times> int) option \<Rightarrow>
     NonceStore option \<times> NonceDisk \<times> int \<Rightarrow> NonceStore option \<times> NonceDisk \<times> int \<Rightarrow> bool"
  for lib bl R where
  checked:
    "Check lib bl v dispatch (Some att) now now2 s (d\<lparr>ndScript := sc\<rparr>) = (dec, s', d') \<Longrightarrow>
     now \<le> now2 \<Longrightarrow> T \<le> now2 \<Longrightarrow> vEnforce v \<Longrightarrow> boundedAge v \<Longrightarrow> vMaxAge v \<le> R \<Longrightarrow>
     gateStep lib bl R (if Allowed dec then Some (v, att, now, now2) else None)
       (Some s, d, T) (Some s', d', now2)"
| restarted:
    "nonceCrash d d1 \<Longrightarrow> T \<le> now \<Longrightarrow> openNonceStore bl path maxAge now (d1\<lparr>ndScript := sc\<rparr>) = (r, d2) \<Longrightarrow>
     gateStep lib bl R None (so, d, T) ((case r of Inl e \<Rightarrow> None | Inr s \<Rightarrow> Some s), d2, now)"

definition consumedBy ::
  "'r CryptoLib \<Rightarrow> ('r Verifier \<times> Attestation \<times> int \<times> int) option \<Rightarrow> (string \<times> int \<times> int) option" where
  "consumedBy lib l = (case l of None \<Rightarrow> None
     | Some (v, att, now, now2) \<Rightarrow> Some (AttNonce att, the (libParseTime lib (AttIssuedAt att)), now2))"

lemma Check_refused:
  assumes "Check lib bl v dispatch (Some att) now now2 s d = (dec, s', d')" and "\<not> Allowed dec"
  shows "(s' = s \<and> d' = d) \<or> (\<exists>issued r. consumeNonce bl (AttNonce att) issued now2 s d = (r, s', d') \<and> r \<noteq> Inr True)"
proof (cases "\<exists>issued. vEnforce v \<and> AttCertChain att \<noteq> [] \<and> checkIntent lib v dispatch att = None
    \<and> checkTrust lib v dispatch att now = Inr issued")
  case True
  then obtain issued where a: "vEnforce v" "AttCertChain att \<noteq> []"
      "checkIntent lib v dispatch att = None" "checkTrust lib v dispatch att now = Inr issued" by blast
  obtain r s1 d1 where c: "consumeNonce bl (AttNonce att) issued now2 s d = (r, s1, d1)" by (metis prod_cases3)
  with a assms have "r \<noteq> Inr True \<and> s' = s1 \<and> d' = d1"
    by (auto simp: check_enforced allowed_def split: sum.splits if_splits)
  with c show ?thesis by blast
next
  case False
  with assms show ?thesis by (auto simp: Check_def split: if_splits option.splits sum.splits prod.splits)
qed

lemma gateStep_nonceStep:
  assumes "gateStep lib bl R l x y" shows "nonceStep bl (consumedBy lib l) x y"
  using assms
proof cases
  case (checked v dispatch att now now2 s sc d dec s' d' T)
  show ?thesis
  proof (cases "Allowed dec")
    case True
    obtain issued where i: "trustedAt lib v dispatch att now issued"
        "consumeNonce bl (AttNonce att) issued now2 s (d\<lparr>ndScript := sc\<rparr>) = (Inr True, s', d')"
      using check_allowedD [OF checked(4) True checked(7,8)] by (metis option.inject)
    then have "libParseTime lib (AttIssuedAt att) = Some issued" by (auto simp: trustedAt_def)
    with nonceStep.consumed [OF i(2) checked(6)] True checked(1-3) show ?thesis by (simp add: consumedBy_def)
  next
    case False
    from Check_refused [OF checked(4) False] show ?thesis
    proof
      assume "s' = s \<and> d' = d\<lparr>ndScript := sc\<rparr>"
      with nonceStep.waited [OF checked(6), of bl "Some s" d sc] False checked(1-3) show ?thesis
        by (simp add: consumedBy_def)
    next
      assume "\<exists>issued r. consumeNonce bl (AttNonce att) issued now2 s (d\<lparr>ndScript := sc\<rparr>) = (r, s', d') \<and> r \<noteq> Inr True"
      then obtain issued r where "consumeNonce bl (AttNonce att) issued now2 s (d\<lparr>ndScript := sc\<rparr>) = (r, s', d')"
          "r \<noteq> Inr True" by blast
      with nonceStep.consumed [OF this(1) checked(6)] False checked(1-3) show ?thesis by (simp add: consumedBy_def)
    qed
  qed
next
  case (restarted d d1 T now path maxAge sc r d2 so)
  with nonceStep.reopened [OF restarted(4-6)] show ?thesis by (simp add: consumedBy_def)
qed

lemma gateStep_fresh:
  assumes "gateStep lib bl R (Some (v, att, now, now2)) x y"
  shows "\<exists>issued. libParseTime lib (AttIssuedAt att) = Some issued \<and> \<bar>now - issued\<bar> \<le> vMaxAge v \<and> now \<le> now2"
  using assms
proof cases
  case (checked v0 dispatch att0 now0 now20 s sc d dec s' d' T)
  then have same: "Allowed dec" "v0 = v" "att0 = att" "now0 = now" "now20 = now2" by (auto split: if_splits)
  with checked have "Check lib bl v dispatch (Some att) now now2 s (d\<lparr>ndScript := sc\<rparr>) = (dec, s', d')"
    "vEnforce v" "boundedAge v" "now \<le> now2" by simp_all
  with check_allowedD [OF this(1) same(1) this(2,3)] show ?thesis
    by (metis option.inject trustedAt_def)
qed

text \<open>C27: An attestation is replayed only across its own expiry.  Whatever dispatches arrive, with
  any crashes, input/output failures and policy reloads, when the envelope of an allowed dispatch (or
  another with its nonce and issue time) is allowed a second time, then in that second check its
  issue time was still within the freshness window at the first reading of the clock and already
  past the retention at the second.\<close>

theorem replay_only_across_expiry:
  assumes "openNonceStore bl path maxAge now0 d0 = (Inr s0, d)" and "settledJournal d0"
    and "trace (gateStep lib bl (nsRetention s0)) (Some s0, d, now0)
      (a @ Some (v, att, t1, u1) # b @ Some (v', att', t2, u2) # c) x"
    and "AttNonce att' = AttNonce att" and "AttIssuedAt att' = AttIssuedAt att"
  shows "\<exists>issued. libParseTime lib (AttIssuedAt att) = Some issued
    \<and> t2 \<le> issued + vMaxAge v' \<and> issued + nsRetention s0 < u2"
proof -
  have "trace (gateStep lib bl (nsRetention s0)) (Some s0, d, now0)
      ((a @ Some (v, att, t1, u1) # b) @ Some (v', att', t2, u2) # c) x" using assms(3) by simp
  then obtain y where "trace (gateStep lib bl (nsRetention s0)) y (Some (v', att', t2, u2) # c) x"
    by (rule trace_appendE)
  then obtain z where z: "gateStep lib bl (nsRetention s0) (Some (v', att', t2, u2)) y z"
    by (auto elim: trace.cases)
  obtain issued where i: "libParseTime lib (AttIssuedAt att) = Some issued" "\<bar>t2 - issued\<bar> \<le> vMaxAge v'"
    using gateStep_fresh [OF z] assms(5) by auto
  have "trace (nonceStep bl) (Some s0, d, now0) (map (consumedBy lib) a
      @ Some (AttNonce att, issued, u1) # map (consumedBy lib) b @ Some (AttNonce att, issued, u2) # map (consumedBy lib) c) x"
    using trace_map [where step' = "nonceStep bl" and f = "consumedBy lib", OF gateStep_nonceStep assms(3)]
      i(1) assms(4,5) by (simp add: consumedBy_def)
  from nonce_accepted_once [OF assms(1,2) this] i show ?thesis by auto
qed

subsection \<open>A sample\<close>

definition sampleSHA :: "string \<Rightarrow> string" where "sampleSHA x = replicate 64 (CHR ''0'')"

definition sampleRef :: string where "sampleRef = ''r~'' @ replicate 32 (CHR ''0'')"

definition sampleDispatch :: SignedDispatch where
  "sampleDispatch = \<lparr>sdActionID = ''fs.head'', sdPackRef = ''fs@1.0.0/h'', sdArgsRaw = ''{}'',
     sdReason = ''check'', sdOperationID = ''op1''\<rparr>"

definition sampleAttestation :: Attestation where
  "sampleAttestation =
    \<lparr>AttVersion = attVersion, AttTool = attTool, AttPortalOrigin = ''https://p'', AttActionID = ''fs.head'',
     AttPackRef = ''fs@1.0.0/h'', AttArgsSHA256 = replicate 64 (CHR ''0''), AttRunnerRefs = [sampleRef],
     AttReason = ''check'', AttEvidenceSHA256 = '''', AttExpectedSHA256 = '''', AttOperationID = ''op1'',
     AttSignature = '''', AttNonce = sampleNonce, AttIssuedAt = ''t'', AttCertChain = [''c'']\<rparr>"

definition sampleVerifier :: "unit Verifier" where
  "sampleVerifier = \<lparr>vEnforce = True, vMaxAge = 10, vRoots = (), vCANames = [''ca''], vRunnerID = ''host'',
     vOrigin = ''https://p'', vGroup = ''prod'', vLabels = []\<rparr>"

definition sampleLeaf :: Certificate where
  "sampleLeaf = \<lparr>certURIs = [(''emisar'', ''emisar://dispatch/v1'')], certBasicConstraintsValid = False,
     certIsCA = False, certKeyUsage = 1, certPublicKey = Ed25519Key ''k'', certCommonName = ''leaf''\<rparr>"

definition sampleSigned :: Claim where
  "sampleSigned = dispatchClaim sampleVerifier sampleDispatch sampleAttestation"

text \<open>The one key signed the one claim, with the empty signature.\<close>

definition sampleLib :: "unit CryptoLib" where
  "sampleLib = \<lparr>libSHA256 = sampleSHA, libJSON = sampleJSON, libParseCert = (\<lambda>x. Some sampleLeaf),
     libVerifyChain = (\<lambda>roots others now leaf. ChainOK),
     libEd25519 = (\<lambda>k msg sig. signingBytes sampleSHA sampleJSON sampleSigned = Inr msg),
     libECDSA = (\<lambda>k msg sig. False), libBase64 = (\<lambda>x. Some x), libParseTime = (\<lambda>x. Some 100)\<rparr>"

lemma sample_scope: "parseScopeURI ''emisar://dispatch/v1'' = Inr emptyScope"
  by code_simp

lemma sample_refs: "canonicalRunnerRefs [sampleRef] = Inr [sampleRef]" "containsLocal sampleSHA [sampleRef] ''host''"
  by code_simp+

lemma sample_args: "argsSHA256 sampleSHA ''{}'' = Inr (replicate 64 (CHR ''0''))"
  by (simp add: argsSHA256_def decoded_sample sampleSHA_def)

lemma sample_bytes: "\<exists>msg. signingBytes sampleSHA sampleJSON sampleSigned = Inr msg"
  using sample_refs(1) by (simp add: signingBytes_def sampleSigned_def dispatchClaim_def sampleDispatch_def
      sampleAttestation_def sample_args)

lemma sample_bound: "intentBound sampleLib sampleVerifier sampleDispatch sampleAttestation"
  using sample_refs sample_args
  by (simp add: intentBound_def sampleLib_def sampleVerifier_def sampleDispatch_def sampleAttestation_def
      validNonce_def sampleNonce_def lowerHex_def within_def byte_def)

lemma sample_chain:
  "verifyChain sampleLib r [''c''] now = Inr (sampleLeaf, emptyScope)"
  by (simp add: verifyChain_def MaxChainCerts_def sampleLib_def sampleLeaf_def leafScope_def sample_scope
      checkLeafProfile_def claimVerifier_def)

lemma sample_trusted:
  assumes "90 \<le> now" and "now \<le> 110"
  shows "trustedAt sampleLib sampleVerifier sampleDispatch sampleAttestation now 100"
proof -
  have "verifyClaim sampleLib sampleLeaf (dispatchClaim sampleVerifier sampleDispatch sampleAttestation) '''' = Some True"
    using sample_bytes by (auto simp: verifyClaim_def claimVerifier_def sampleLib_def sampleLeaf_def sampleSigned_def)
  moreover have "decodeCertChain sampleLib [''c''] = Inr [''c'']"
    by (simp add: decodeCertChain_def MaxChainCerts_def sampleLib_def)
  ultimately show ?thesis using assms sample_chain
    by (simp add: trustedAt_def sampleAttestation_def sampleVerifier_def sampleLib_def emptyScope_def
        scopeMatches_def narrativeDigestWellFormed_def)
qed

lemma sample_check:
  assumes "90 \<le> now" and "now \<le> 110"
    and "consumeNonce bl sampleNonce 100 now2 s d = (Inr True, s', d')"
  shows "Check sampleLib bl sampleVerifier sampleDispatch (Some sampleAttestation) now now2 s d = (allowed, s', d')"
proof -
  have v: "vEnforce sampleVerifier" "boundedAge sampleVerifier" by (simp_all add: sampleVerifier_def boundedAge_def)
  have a: "AttCertChain sampleAttestation = [''c'']" "AttNonce sampleAttestation = sampleNonce"
    by (simp_all add: sampleAttestation_def)
  have "checkIntent sampleLib sampleVerifier sampleDispatch sampleAttestation = None"
    using sample_bound by (simp add: checkIntent_None)
  moreover have "checkTrust sampleLib sampleVerifier sampleDispatch sampleAttestation now = Inr 100"
    using sample_trusted [OF assms(1,2)] checkTrust_Inr [OF v(2)] by blast
  ultimately show ?thesis using v a assms(3) by (simp add: check_enforced)
qed

text \<open>A store with no file, opened at time 100: the nonce is accepted at once, and again at 111.\<close>

definition sampleStore :: NonceStore where
  "sampleStore = (newNonceStore ''journal'' 10)\<lparr>nsFileSize := 11\<rparr>"

definition sampleDisk :: "journalLine list \<Rightarrow> NonceDisk" where
  "sampleDisk ls = \<lparr>ndFile = Some \<lparr>jfLines = map (\<lambda>l. (l, 11)) (HeaderLine 1 10 # ls), jfExtra = 0,
     jfSynced = Suc (length ls)\<rparr>, ndOld = [], ndScript = []\<rparr>"

lemmas sample_store_defs = openNonceStore_def newNonceStore_def rewriteLocked_def diskFault_def compactedLines_def
  consumeNonce_def pruneLocked_def makeRoom_def admitNonce_def appendLocked_def appendLine_def shouldCompact_def
  dropKey_def Let_def defaultMaxNonces_def defaultMaxJournal_def defaultCompactAfter_def sampleStore_def sampleDisk_def
  nonceJournalVersion_def

lemma sample_open:
  "openNonceStore (\<lambda>l. 10) ''journal'' 10 100 \<lparr>ndFile = None, ndOld = [], ndScript = []\<rparr>
     = (Inr sampleStore, sampleDisk [])"
  by (simp add: sample_store_defs)

definition usedStore :: "int \<Rightarrow> nat \<Rightarrow> nat \<Rightarrow> NonceStore" where
  "usedStore i used ob = sampleStore\<lparr>nsSeen := [(sampleNonce, i)], nsExpiry := [(i, sampleNonce)],
     nsFileSize := used, nsObsolete := ob\<rparr>"

lemma sample_consumed:
  "consumeNonce (\<lambda>l. 10) sampleNonce 100 100 sampleStore (sampleDisk [])
     = (Inr True, usedStore 100 22 0, sampleDisk [RecordLine sampleNonce (Some 100)])"
  "consumeNonce (\<lambda>l. 10) sampleNonce 100 111 (usedStore 100 22 0) (sampleDisk [RecordLine sampleNonce (Some 100)])
     = (Inr True, usedStore 100 33 1, sampleDisk [RecordLine sampleNonce (Some 100), RecordLine sampleNonce (Some 100)])"
  by (simp_all add: sample_store_defs usedStore_def)


lemma sample_first:
  "Check sampleLib (\<lambda>l. 10) sampleVerifier sampleDispatch (Some sampleAttestation) 100 100 sampleStore (sampleDisk [])
     = (allowed, usedStore 100 22 0, sampleDisk [RecordLine sampleNonce (Some 100)])"
  by (rule sample_check [OF _ _ sample_consumed(1)]) simp_all

lemma sample_second:
  "Check sampleLib (\<lambda>l. 10) sampleVerifier sampleDispatch (Some sampleAttestation) 110 111 (usedStore 100 22 0)
       (sampleDisk [RecordLine sampleNonce (Some 100)])
     = (allowed, usedStore 100 33 1, sampleDisk [RecordLine sampleNonce (Some 100), RecordLine sampleNonce (Some 100)])"
  by (rule sample_check [OF _ _ sample_consumed(2)]) simp_all

lemma sample_enforcing: "vEnforce sampleVerifier" "boundedAge sampleVerifier" "vMaxAge sampleVerifier = 10"
  by (simp_all add: sampleVerifier_def boundedAge_def)

theorem gate_exact_witness:
  "\<exists>att issued. Some sampleAttestation = Some att \<and> AttCertChain att \<noteq> []
     \<and> intentBound sampleLib sampleVerifier sampleDispatch att
     \<and> trustedAt sampleLib sampleVerifier sampleDispatch att 100 issued
     \<and> consumeNonce (\<lambda>l. 10) (AttNonce att) issued 100 sampleStore (sampleDisk [])
         = (Inr True, usedStore 100 22 0, sampleDisk [RecordLine sampleNonce (Some 100)])"
  using gate_exact [OF sample_enforcing(1,2) sample_first] by (simp add: allowed_def)


theorem allowed_was_authorized_witness:
  "\<exists>c \<in> {sampleSigned}. clmActionID c = sdActionID sampleDispatch \<and> clmPackRef c = sdPackRef sampleDispatch
    \<and> normalArgs (clmArgsRaw c) = normalArgs (sdArgsRaw sampleDispatch) \<and> clmReason c = sdReason sampleDispatch
    \<and> clmOperationID c = sdOperationID sampleDispatch \<and> PortalOrigin c = vOrigin sampleVerifier
    \<and> (\<exists>ref \<in> set (clmRunnerRefs c). refMatches (libSHA256 sampleLib) ref (vRunnerID sampleVerifier))"
proof -
  have lib: "libJSON sampleLib = sampleJSON" "libSHA256 sampleLib = sampleSHA" by (simp_all add: sampleLib_def)
  have only: "signedOnly sampleLib (vRoots sampleVerifier) 100 {sampleSigned}"
    unfolding signedOnly_def
  proof (intro allI impI)
    fix chain leaf scope c sig
    assume a: "verifyChain sampleLib (vRoots sampleVerifier) chain 100 = Inr (leaf, scope)
      \<and> verifyClaim sampleLib leaf c sig = Some True"
    then have "leaf = sampleLeaf"
      by (cases chain) (auto simp: verifyChain_def sampleLib_def rbind_eq_Inr Let_def split: if_splits option.splits)
    with a show "\<exists>c' \<in> {sampleSigned}. signingBytes (libSHA256 sampleLib) (libJSON sampleLib) c'
        = signingBytes (libSHA256 sampleLib) (libJSON sampleLib) c"
      by (auto simp: verifyClaim_def claimVerifier_def sampleLeaf_def lib split: sum.splits)
        (auto simp: sampleLib_def)
  qed
  have valid: "\<forall>x. validString (libSHA256 sampleLib x)"
    by (simp add: lib sampleSHA_def) code_simp
  have texts: "\<forall>t \<in> set (claimTexts sampleSigned). validString t"
    by code_simp
  have cmp: "comparable sampleLib c (dispatchClaim sampleVerifier sampleDispatch att)"
    if "Some sampleAttestation = Some att" "c \<in> {sampleSigned}" for att c
  proof -
    have "c = sampleSigned" "dispatchClaim sampleVerifier sampleDispatch att = sampleSigned"
      using that by (simp_all add: sampleSigned_def)
    with texts show ?thesis by (simp add: comparable_def noCollision_def)
  qed
  show ?thesis
    by (rule allowed_was_authorized [OF sample_enforcing(1,2) sample_first _ only _ valid cmp])
      (simp_all add: allowed_def lib sampleJSON_delimits)
qed

text \<open>The window is real: an attestation issued at 100 with a freshness window of 10 is allowed at
  time 100 and, in a check that reads the clock at 110 and again at 111, once more.\<close>

theorem replay_only_across_expiry_witness:
  "\<exists>x. trace (gateStep sampleLib (\<lambda>l. 10) 10) (Some sampleStore, sampleDisk [], 100)
       ([] @ Some (sampleVerifier, sampleAttestation, 100, 100) # []
        @ Some (sampleVerifier, sampleAttestation, 110, 111) # []) x
     \<and> (\<exists>issued. libParseTime sampleLib (AttIssuedAt sampleAttestation) = Some issued
        \<and> 110 \<le> issued + vMaxAge sampleVerifier \<and> issued + nsRetention sampleStore < 111)"
proof -
  have script: "(sampleDisk ls)\<lparr>ndScript := []\<rparr> = sampleDisk ls" for ls by (simp add: sampleDisk_def)
  have R: "nsRetention sampleStore = 10" by (simp add: sampleStore_def newNonceStore_def)
  have one: "gateStep sampleLib (\<lambda>l. 10) 10 (Some (sampleVerifier, sampleAttestation, 100, 100))
      (Some sampleStore, sampleDisk [], 100)
      (Some (usedStore 100 22 0), sampleDisk [RecordLine sampleNonce (Some 100)], 100)"
    using gateStep.checked [where d = "sampleDisk []" and sc = "[]" and T = 100 and R = 10,
        unfolded script, OF sample_first] sample_enforcing by (simp add: allowed_def)
  have two: "gateStep sampleLib (\<lambda>l. 10) 10 (Some (sampleVerifier, sampleAttestation, 110, 111))
      (Some (usedStore 100 22 0), sampleDisk [RecordLine sampleNonce (Some 100)], 100)
      (Some (usedStore 100 33 1), sampleDisk [RecordLine sampleNonce (Some 100), RecordLine sampleNonce (Some 100)], 111)"
    using gateStep.checked [where d = "sampleDisk [RecordLine sampleNonce (Some 100)]" and sc = "[]" and T = 100 and R = 10,
        unfolded script, OF sample_second] sample_enforcing by (simp add: allowed_def)
  have t: "trace (gateStep sampleLib (\<lambda>l. 10) 10) (Some sampleStore, sampleDisk [], 100)
       ([] @ Some (sampleVerifier, sampleAttestation, 100, 100) # []
        @ Some (sampleVerifier, sampleAttestation, 110, 111) # [])
       (Some (usedStore 100 33 1), sampleDisk [RecordLine sampleNonce (Some 100), RecordLine sampleNonce (Some 100)], 111)"
    using trace_cons [of "gateStep sampleLib (\<lambda>l. 10) 10", OF one
        trace_cons [of "gateStep sampleLib (\<lambda>l. 10) 10", OF two trace_nil]] by simp
  have "settledJournal \<lparr>ndFile = None, ndOld = [], ndScript = []\<rparr>" by (simp add: settledJournal_def)
  from replay_only_across_expiry [OF sample_open this t [folded R] refl refl] t show ?thesis by blast
qed

end
