(* ===== verification/Dispatch_Proofs.thy ===== *)
theory Dispatch_Proofs
  imports Dispatch_Store
begin

text \<open>
  What the durable dispatch log guarantees.  The invariant \<open>ringInv\<close> relates the ring in
  memory, the file, and the set of dispatches that are \<open>owed\<close>: started and not yet
  acknowledged.  It holds under every pattern of input/output failures and across crashes,
  and from it follow that the log replays to the memory and that no owed dispatch can be
  started a second time.
\<close>

subsection \<open>Transitions keep the records well formed\<close>

definition owed :: "entries \<Rightarrow> string \<Rightarrow> bool" where
  "owed records k \<longleftrightarrow> stateOf records k = dispatchReserved \<or> stateOf records k = dispatchCompleted"

definition wfEntries :: "string list \<Rightarrow> entries \<Rightarrow> bool" where
  "wfEntries keys records \<longleftrightarrow>
     distinct keys \<and> set keys = dom records \<and>
     (\<forall>k e. records k = Some e \<longrightarrow> EntRequestID e = k \<and> k \<noteq> '''')"

definition allValid :: "entries \<Rightarrow> bool" where
  "allValid records \<longleftrightarrow> (\<forall>e \<in> ran records. validDedupEntry e)"

lemma validate_None_valid:
  "validateDispatchTransition records t = None \<Longrightarrow>
     validDedupEntry (Entry t) \<and> EntRequestID (Entry t) \<noteq> ''''"
  by (auto simp: validateDispatchTransition_def validDedupEntry_def Let_def split: if_splits)

lemma validate_None_evict:
  "validateDispatchTransition records t = None \<Longrightarrow> Evict t \<noteq> '''' \<Longrightarrow>
     State (Entry t) = dispatchReserved \<and> Evict t \<noteq> EntRequestID (Entry t)
     \<and> stateOf records (Evict t) = dispatchAcknowledged"
  by (auto simp: validateDispatchTransition_def Let_def split: if_splits)

lemma validate_None_previous:
  "validateDispatchTransition records t = None \<Longrightarrow>
     (State (Entry t) = dispatchReserved \<and> records (EntRequestID (Entry t)) = None)
     \<or> (\<exists>p. records (EntRequestID (Entry t)) = Some p \<and> DispatchSHA256 p = DispatchSHA256 (Entry t)
          \<and> (State p = dispatchReserved \<and> State (Entry t) = dispatchCompleted
             \<or> State p = dispatchCompleted \<and> State (Entry t) = dispatchAcknowledged
               \<and> EntResult p = EntResult (Entry t)))"
  by (auto simp: validateDispatchTransition_def Let_def
      split: if_splits dispatchState.splits option.splits)

lemma apply_eq:
  "applyDispatchTransition keys records t = (keys', records') \<longleftrightarrow>
     keys' = (if Evict t \<noteq> '''' then deleteFirst (\<lambda>k. k = Evict t) keys else keys)
       @ (if State (Entry t) = dispatchReserved then [EntRequestID (Entry t)] else [])
     \<and> records' = (if Evict t \<noteq> '''' then records(Evict t := None) else records)
         (EntRequestID (Entry t) \<mapsto> Entry t)"
  by (auto simp: applyDispatchTransition_def Let_def)

lemma apply_wf:
  assumes wf: "wfEntries keys records" and v: "validateDispatchTransition records t = None"
    and a: "applyDispatchTransition keys records t = (keys', records')"
  shows "wfEntries keys' records'"
proof -
  let ?k = "EntRequestID (Entry t)"
  have ne: "?k \<noteq> ''''" using validate_None_valid [OF v] by simp
  define ks1 r1 where "ks1 = (if Evict t \<noteq> '''' then deleteFirst (\<lambda>k. k = Evict t) keys else keys)"
    and "r1 = (if Evict t \<noteq> '''' then records(Evict t := None) else records)"
  have d1: "distinct ks1" "set ks1 = dom r1"
    using wf by (auto simp: ks1_def r1_def wfEntries_def deleteFirst_eq_remove1)
  have w1: "\<forall>k e. r1 k = Some e \<longrightarrow> EntRequestID e = k \<and> k \<noteq> ''''"
    using wf by (auto simp: r1_def wfEntries_def)
  have r': "records' = r1(?k \<mapsto> Entry t)"
    and k': "keys' = ks1 @ (if State (Entry t) = dispatchReserved then [?k] else [])"
    using a by (auto simp: apply_eq ks1_def r1_def)
  show ?thesis
  proof (cases "State (Entry t) = dispatchReserved")
    case True
    with validate_None_previous [OF v] have "records ?k = None" by auto
    then have "?k \<notin> dom r1" by (auto simp: r1_def)
    with True d1 w1 ne show ?thesis by (auto simp: wfEntries_def r' k')
  next
    case False
    with validate_None_previous [OF v] have e: "?k \<in> dom records" by auto
    have "Evict t = ''''" using False validate_None_evict [OF v] by auto
    then have "?k \<in> dom r1" using e by (simp add: r1_def)
    with False d1 w1 ne show ?thesis by (auto simp: wfEntries_def r' k')
  qed
qed

lemma apply_allValid:
  assumes "allValid records" and "validateDispatchTransition records t = None"
    and "applyDispatchTransition keys records t = (keys', records')"
  shows "allValid records'"
  using assms validate_None_valid [OF assms(2)]
  by (auto simp: allValid_def apply_eq ran_def split: if_splits)

lemma apply_stateOf:
  "applyDispatchTransition keys records t = (keys', records') \<Longrightarrow>
     stateOf records' k = (if k = EntRequestID (Entry t) then State (Entry t)
       else if Evict t \<noteq> '''' \<and> k = Evict t then OtherState '''' else stateOf records k)"
  by (auto simp: apply_eq stateOf_def)

lemma apply_owed:
  assumes o': "owed records k" and v: "validateDispatchTransition records t = None"
    and a: "applyDispatchTransition keys records t = (keys', records')"
    and na: "\<not> (State (Entry t) = dispatchAcknowledged \<and> EntRequestID (Entry t) = k)"
  shows "owed records' k"
proof (cases "k = EntRequestID (Entry t)")
  case True
  with validate_None_previous [OF v] na show ?thesis by (auto simp: owed_def apply_stateOf [OF a])
next
  case False
  have "\<not> (Evict t \<noteq> '''' \<and> k = Evict t)"
    using validate_None_evict [OF v] o' by (auto simp: owed_def)
  with False o' show ?thesis by (auto simp: owed_def apply_stateOf [OF a])
qed

lemma apply_reserved_owed:
  assumes "applyDispatchTransition keys records t = (keys', records')"
    and "State (Entry t) = dispatchReserved"
  shows "owed records' (EntRequestID (Entry t))"
  using assms(2) by (simp add: owed_def apply_stateOf [OF assms(1)])

subsection \<open>Scanning\<close>

lemma scanLines_append:
  "scanLines sha n (ls @ ls') s = rbind (scanLines sha n ls s) (scanLines sha (n + length ls) ls')"
proof (induction sha n ls s rule: scanLines.induct)
  case (2 sha n l ls s)
  then show ?case by (cases "scanLine sha n l s") auto
qed simp

lemma scan_bad: "scanLines sha n (ls @ (BadLine, k) # ls') s \<noteq> Inr s'"
  by (auto simp: scanLines_append scanLine_def result_simps)

lemma scanLine_wf:
  "scanLine sha n l s = Inr s' \<Longrightarrow> wfEntries (scKeys s) (scRecords s) \<Longrightarrow>
     wfEntries (scKeys s') (scRecords s')"
proof -
  assume a: "scanLine sha n l s = Inr s'" and wf: "wfEntries (scKeys s) (scRecords s)"
  show ?thesis
  proof (cases "\<exists>t. fst l = TransitionLine t")
    case True
    then obtain t where t: "fst l = TransitionLine t" by blast
    obtain k r where kr: "applyDispatchTransition (scKeys s) (scRecords s) t = (k, r)" by force
    with a t have "validateDispatchTransition (scRecords s) t = None" "scKeys s' = k" "scRecords s' = r"
      by (auto simp: scanLine_def Let_def split: if_splits)
    with apply_wf [OF wf _ kr] show ?thesis by simp
  next
    case False
    with a obtain e lg where e: "decodeDedupEntry sha (fst l) = Some (e, lg)"
      and n: "scRecords s (EntRequestID e) = None"
      and s': "scKeys s' = scKeys s @ [EntRequestID e]" "scRecords s' = (scRecords s)(EntRequestID e \<mapsto> e)"
      by (auto simp: scanLine_def Let_def split: logLine.splits if_splits option.splits)
    have "EntRequestID e \<noteq> ''''"
      using e by (auto simp: decodeDedupEntry_def validDedupEntry_def decodeLegacyDedupEntry_def
          split: logLine.splits if_splits)
    then show ?thesis using wf n by (auto simp: wfEntries_def s')
  qed
qed

lemma scanLines_wf:
  "scanLines sha n ls s = Inr s' \<Longrightarrow> wfEntries (scKeys s) (scRecords s) \<Longrightarrow>
     wfEntries (scKeys s') (scRecords s')"
proof (induction sha n ls s rule: scanLines.induct)
  case (2 sha n l ls s)
  then show ?case by (auto simp: result_simps dest: scanLine_wf)
qed simp

lemma scanStart_wf: "wfEntries (scKeys scanStart) (scRecords scanStart)"
  by (simp add: scanStart_def wfEntries_def)

text \<open>A scan that succeeds on a log yields the given keys and records.\<close>

definition scansTo :: "(string \<Rightarrow> string) \<Rightarrow> (logLine \<times> nat) list \<Rightarrow> string list \<Rightarrow> entries \<Rightarrow> bool" where
  "scansTo sha ls keys records \<longleftrightarrow>
     (\<forall>s. scanLines sha 1 ls scanStart = Inr s \<longrightarrow> scKeys s = keys \<and> scRecords s = records)"

definition scans :: "(string \<Rightarrow> string) \<Rightarrow> (logLine \<times> nat) list \<Rightarrow> bool" where
  "scans sha ls \<longleftrightarrow> (\<exists>s. scanLines sha 1 ls scanStart = Inr s)"

lemma scanLine_transition:
  "scanLine sha n (TransitionLine t, k) s =
     (if validateDispatchTransition (scRecords s) t \<noteq> None then Inl (InvalidTransitionLine n)
      else Inr (s\<lparr>scConsumed := scConsumed s + k,
                  scKeys := fst (applyDispatchTransition (scKeys s) (scRecords s) t),
                  scRecords := snd (applyDispatchTransition (scKeys s) (scRecords s) t),
                  scTransitions := Suc (scTransitions s)\<rparr>))"
  by (cases "applyDispatchTransition (scKeys s) (scRecords s) t") (simp add: scanLine_def Let_def)

lemma scan_transition:
  "scanLines sha 1 (ls @ [(TransitionLine t, k)]) scanStart =
     rbind (scanLines sha 1 ls scanStart) (scanLine sha (1 + length ls) (TransitionLine t, k))"
  by (cases "scanLines sha 1 ls scanStart")
    (auto simp: scanLines_append scanLine_transition)

lemma scansTo_append:
  assumes "scansTo sha ls keys records"
    and "applyDispatchTransition keys records t = (keys', records')"
  shows "scansTo sha (ls @ [(TransitionLine t, n)]) keys' records'"
  unfolding scansTo_def
proof (intro allI impI)
  fix s assume "scanLines sha 1 (ls @ [(TransitionLine t, n)]) scanStart = Inr s"
  then obtain s0 where s0: "scanLines sha 1 ls scanStart = Inr s0"
    and s: "scanLine sha (1 + length ls) (TransitionLine t, n) s0 = Inr s"
    unfolding scan_transition by (auto simp: rbind_eq_Inr)
  have "scKeys s0 = keys" "scRecords s0 = records" using assms(1) s0 by (auto simp: scansTo_def)
  with s assms(2) show "scKeys s = keys' \<and> scRecords s = records'"
    by (auto simp: scanLine_transition split: if_splits)
qed

lemma scans_append:
  assumes "scans sha ls" and "scansTo sha ls keys records"
    and "validateDispatchTransition records t = None"
  shows "scans sha (ls @ [(TransitionLine t, n)])"
proof -
  obtain s where s: "scanLines sha 1 ls scanStart = Inr s" using assms(1) by (auto simp: scans_def)
  then have "scRecords s = records" using assms(2) by (auto simp: scansTo_def)
  with s assms(3) show ?thesis unfolding scans_def scan_transition by (simp add: scanLine_transition)
qed


subsection \<open>Snapshots\<close>

definition putEntries :: "dedupEntry list \<Rightarrow> entries \<Rightarrow> entries" where
  "putEntries es m = foldl (\<lambda>m e. m(EntRequestID e \<mapsto> e)) m es"

lemma putEntries_simps [simp]:
  "putEntries [] m = m" "putEntries (e # es) m = putEntries es (m(EntRequestID e \<mapsto> e))"
  by (simp_all add: putEntries_def)

definition entryLine :: "(logLine \<Rightarrow> nat) \<Rightarrow> dedupEntry \<Rightarrow> logLine \<times> nat" where
  "entryLine bl e = (EntryLine e, Suc (bl (EntryLine e)))"

lemma snapshotLines_Inr:
  "snapshotLines bl keys records = Inr ls \<Longrightarrow> ls = map (entryLine bl) (entriesOf keys records)"
proof -
  have "mapRes (\<lambda>e. dispatchLogLine bl (EntryLine e)) es = Inr ls \<Longrightarrow> ls = map (entryLine bl) es" for es ls
    by (induction es arbitrary: ls)
      (auto simp: result_simps dispatchLogLine_def entryLine_def split: if_splits)
  then show "snapshotLines bl keys records = Inr ls \<Longrightarrow> ?thesis" by (simp add: snapshotLines_def)
qed

lemma scanLine_entry:
  "scanLine sha n (entryLine bl e) s = Inr s' \<Longrightarrow>
     scKeys s' = scKeys s @ [EntRequestID e] \<and> scRecords s' = (scRecords s)(EntRequestID e \<mapsto> e)
     \<and> scTransitions s' = scTransitions s"
  by (auto simp: scanLine_def entryLine_def Let_def decodeDedupEntry_def split: if_splits)

lemma scanLines_entries:
  "scanLines sha n (map (entryLine bl) es) s = Inr s' \<Longrightarrow>
     scKeys s' = scKeys s @ map EntRequestID es \<and> scRecords s' = putEntries es (scRecords s)"
proof (induction es arbitrary: n s)
  case (Cons e es)
  then obtain s1 where "scanLine sha n (entryLine bl e) s = Inr s1"
    and "scanLines sha (Suc n) (map (entryLine bl) es) s1 = Inr s'"
    by (auto simp: result_simps)
  with Cons.IH [of "Suc n" s1] scanLine_entry show ?case by fastforce
qed simp

lemma scanLines_entries_ok:
  "\<forall>e \<in> set es. validDedupEntry e \<Longrightarrow> scTransitions s = 0 \<Longrightarrow> distinct (map EntRequestID es) \<Longrightarrow>
     (\<forall>e \<in> set es. scRecords s (EntRequestID e) = None) \<Longrightarrow>
     \<exists>s'. scanLines sha n (map (entryLine bl) es) s = Inr s'"
proof (induction es arbitrary: n s)
  case (Cons e es)
  obtain s1 where s1: "scanLine sha n (entryLine bl e) s = Inr s1"
    using Cons.prems by (simp add: scanLine_def entryLine_def Let_def decodeDedupEntry_def)
  have r: "scRecords s1 = (scRecords s)(EntRequestID e \<mapsto> e)" "scTransitions s1 = 0"
    using scanLine_entry [OF s1] Cons.prems by simp_all
  have "\<exists>s'. scanLines sha (Suc n) (map (entryLine bl) es) s1 = Inr s'"
    by (rule Cons.IH) (use Cons.prems r in \<open>auto simp: image_iff\<close>)
  then show ?case using s1 by simp
qed simp

lemma entriesOf_wf:
  assumes "wfEntries keys records"
  shows "entriesOf keys records = map (the \<circ> records) keys"
    and "map EntRequestID (entriesOf keys records) = keys"
    and "set (entriesOf keys records) = ran records"
proof -
  have k: "\<exists>e. records k = Some e \<and> EntRequestID e = k" if "k \<in> set keys" for k
    using assms that by (auto simp: wfEntries_def)
  have *: "(\<forall>k \<in> set ks. \<exists>e. records k = Some e \<and> EntRequestID e = k) \<Longrightarrow>
      entriesOf ks records = map (the \<circ> records) ks \<and> map EntRequestID (entriesOf ks records) = ks" for ks
    by (induction ks) (auto simp: entriesOf_def List.map_filter_simps)
  show "entriesOf keys records = map (the \<circ> records) keys"
    and "map EntRequestID (entriesOf keys records) = keys" using * [of keys] k by auto
  then have "set (entriesOf keys records) = (the \<circ> records) ` set keys" by simp
  also have "\<dots> = ran records"
  proof
    show "(the \<circ> records) ` set keys \<subseteq> ran records" using k by (force intro: ranI)
    show "ran records \<subseteq> (the \<circ> records) ` set keys"
    proof
      fix e assume "e \<in> ran records"
      then obtain x where "records x = Some e" by (auto simp: ran_def)
      moreover have "x \<in> set keys" using assms \<open>records x = Some e\<close> by (auto simp: wfEntries_def)
      ultimately show "e \<in> (the \<circ> records) ` set keys" by force
    qed
  qed
  finally show "set (entriesOf keys records) = ran records" .
qed

lemma putEntries_lookup:
  "distinct (map EntRequestID es) \<Longrightarrow>
     putEntries es m k = (case List.find (\<lambda>e. EntRequestID e = k) es of Some e \<Rightarrow> Some e | None \<Rightarrow> m k)"
proof (induction es arbitrary: m)
  case (Cons e es)
  have "EntRequestID e = k \<Longrightarrow> List.find (\<lambda>e. EntRequestID e = k) es = None"
    using Cons.prems by (auto simp: find_None_all image_iff)
  with Cons show ?case by (auto split: option.splits)
qed simp

lemma putEntries_entriesOf:
  assumes wf: "wfEntries keys records"
  shows "putEntries (entriesOf keys records) Map.empty = records"
proof
  fix k
  note e = entriesOf_wf [OF wf]
  have d: "distinct (map EntRequestID (entriesOf keys records))" using wf e(2) by (simp add: wfEntries_def)
  show "putEntries (entriesOf keys records) Map.empty k = records k"
  proof (cases "records k")
    case None
    have "List.find (\<lambda>e. EntRequestID e = k) (entriesOf keys records) = None"
      using None wf e(3) by (auto simp: find_None_all ran_def wfEntries_def)
    with None show ?thesis by (simp add: putEntries_lookup [OF d])
  next
    case (Some x)
    then have "x \<in> set (entriesOf keys records)" "EntRequestID x = k"
      using wf e(3) by (auto simp: ran_def wfEntries_def)
    then obtain y where y: "List.find (\<lambda>e. EntRequestID e = k) (entriesOf keys records) = Some y"
      using find_None_all [of "\<lambda>e. EntRequestID e = k"] by (metis option.exhaust)
    then have "y \<in> ran records" "EntRequestID y = k" using find_Some_in [OF y] e(3) by auto
    then have "records k = Some y" using wf by (auto simp: ran_def wfEntries_def)
    with y show ?thesis by (simp add: putEntries_lookup [OF d])
  qed
qed

lemma snapshot_scansTo:
  assumes wf: "wfEntries keys records" and ls: "snapshotLines bl keys records = Inr ls"
  shows "scansTo sha ls keys records"
  unfolding scansTo_def snapshotLines_Inr [OF ls]
  using scanLines_entries [of sha 1 bl "entriesOf keys records" scanStart]
  by (auto simp: scanStart_def entriesOf_wf(2) [OF wf] putEntries_entriesOf [OF wf])

lemma snapshot_scans:
  assumes wf: "wfEntries keys records" and v: "allValid records"
    and ls: "snapshotLines bl keys records = Inr ls"
  shows "scans sha ls"
  unfolding scans_def snapshotLines_Inr [OF ls]
  by (rule scanLines_entries_ok)
    (use v wf entriesOf_wf [OF wf] in \<open>auto simp: allValid_def scanStart_def wfEntries_def\<close>)


subsection \<open>What a crash can leave of a file\<close>

lemma truncateLines_all: "sizeOf ls \<le> n \<Longrightarrow> truncateLines n ls = ls"
  by (induction n ls rule: truncateLines.induct) (auto simp: sizeOf_def)

lemma truncateLines_append:
  "sizeOf ls \<le> n \<Longrightarrow> truncateLines n (ls @ ls') = ls @ truncateLines (n - sizeOf ls) ls'"
  by (induction n ls rule: truncateLines.induct) (auto simp: sizeOf_def)

lemma truncateLines_exact: "0 < k \<Longrightarrow> truncateLines (sizeOf ls) (ls @ [(l, k)]) = ls"
  by (simp add: truncateLines_append)

lemma truncateLines_single:
  "truncateLines n [(l, k)] = [] \<or> (\<exists>m. truncateLines n [(l, k)] = [(BadLine, m)])
   \<or> truncateLines n [(l, k)] = [(l, k)]"
  by auto

lemma sizeOf_append [simp]: "sizeOf (ls @ ls') = sizeOf ls + sizeOf ls'"
  by (simp add: sizeOf_def)

lemma sizeOf_simps [simp]: "sizeOf [] = 0" "sizeOf (x # xs) = snd x + sizeOf xs"
  by (simp_all add: sizeOf_def)

definition safeLines :: "(string \<Rightarrow> string) \<Rightarrow> string set \<Rightarrow> (logLine \<times> nat) list \<Rightarrow> bool" where
  "safeLines sha P ls \<longleftrightarrow>
     (\<forall>s. scanLines sha 1 ls scanStart = Inr s \<longrightarrow> (\<forall>k \<in> P. owed (scRecords s) k))"

text \<open>Whatever bytes beyond the synced ones survive, the log still owes every dispatch of
  \<open>P\<close>, or does not load at all.\<close>

definition safeFile :: "(string \<Rightarrow> string) \<Rightarrow> string set \<Rightarrow> DispatchFile \<Rightarrow> bool" where
  "safeFile sha P f \<longleftrightarrow> (\<forall>n \<ge> fileSynced f. safeLines sha P (truncateLines n (fileLines f)))"

definition safeStore :: "(string \<Rightarrow> string) \<Rightarrow> string set \<Rightarrow> string \<Rightarrow> World \<Rightarrow> bool" where
  "safeStore sha P p w \<longleftrightarrow>
     (\<forall>x \<in> set (files w p # replaced w p). case x of None \<Rightarrow> P = {} | Some f \<Rightarrow> safeFile sha P f)"

lemma scansTo_safe:
  "scansTo sha ls keys records \<Longrightarrow> \<forall>k \<in> P. owed records k \<Longrightarrow> safeLines sha P ls"
  by (auto simp: scansTo_def safeLines_def)

lemma safeFile_synced:
  assumes "scansTo sha (fileLines f) keys records" and "\<forall>k \<in> P. owed records k"
    and "fileSynced f = fileSize f"
  shows "safeFile sha P f"
  using assms scansTo_safe [OF assms(1,2)]
  by (auto simp: safeFile_def fileSize_def truncateLines_all)

text \<open>An append that is not synced yet: any part of the new line may survive.\<close>

lemma safeFile_appended:
  assumes st: "scansTo sha ls keys records" and o': "\<forall>k \<in> P. owed records k"
    and new: "l = BadLine \<or> (\<exists>t keys' records'. l = TransitionLine t
        \<and> applyDispatchTransition keys records t = (keys', records') \<and> (\<forall>k \<in> P. owed records' k))"
    and f: "fileLines f = ls @ [(l, k)]" "sizeOf ls \<le> fileSynced f"
  shows "safeFile sha P f"
  unfolding safeFile_def
proof (intro allI impI)
  fix n assume n: "fileSynced f \<le> n"
  then have le: "sizeOf ls \<le> n" using f(2) by simp
  have t: "truncateLines n (fileLines f) = ls @ truncateLines (n - sizeOf ls) [(l, k)]"
    unfolding f(1) by (rule truncateLines_append [OF le])
  consider "truncateLines (n - sizeOf ls) [(l, k)] = []"
    | m where "truncateLines (n - sizeOf ls) [(l, k)] = [(BadLine, m)]"
    | "truncateLines (n - sizeOf ls) [(l, k)] = [(l, k)]"
    using truncateLines_single [of "n - sizeOf ls" l k] by blast
  then show "safeLines sha P (truncateLines n (fileLines f))"
  proof cases
    case 1
    with scansTo_safe [OF st o'] t show ?thesis by simp
  next
    case 2
    with t scan_bad [of sha 1 ls _ "[]"] show ?thesis by (simp add: safeLines_def)
  next
    case 3
    from new show ?thesis
    proof
      assume "l = BadLine"
      with 3 t scan_bad [of sha 1 ls _ "[]"] show ?thesis by (simp add: safeLines_def)
    next
      assume "\<exists>t keys' records'. l = TransitionLine t
        \<and> applyDispatchTransition keys records t = (keys', records') \<and> (\<forall>k \<in> P. owed records' k)"
      then obtain tr keys' records' where tr: "l = TransitionLine tr"
        "applyDispatchTransition keys records tr = (keys', records')" "\<forall>k \<in> P. owed records' k" by blast
      with 3 t scansTo_safe [OF scansTo_append [OF st tr(2)] tr(3)] show ?thesis by simp
    qed
  qed
qed

subsection \<open>The invariant\<close>

definition memOK :: "bool \<Rightarrow> string set \<Rightarrow> dedupRing \<Rightarrow> bool" where
  "memOK strict P d \<longleftrightarrow>
     wfEntries (ringKeys d) (ringRecords d) \<and> (\<forall>k \<in> P. owed (ringRecords d) k)
     \<and> (strict \<longrightarrow> allValid (ringRecords d))"

text \<open>The synced bytes of the file replay to the memory.\<close>

definition durable :: "(string \<Rightarrow> string) \<Rightarrow> bool \<Rightarrow> dedupRing \<Rightarrow> World \<Rightarrow> bool" where
  "durable sha strict d w \<longleftrightarrow>
     (\<exists>f. files w (storePath d) = Some f \<and> replaced w (storePath d) = []
        \<and> fileSynced f = fileSize f
        \<and> scansTo sha (fileLines f) (ringKeys d) (ringRecords d)
        \<and> (strict \<longrightarrow> scans sha (fileLines f)))"

definition inSync :: "(string \<Rightarrow> string) \<Rightarrow> bool \<Rightarrow> dedupRing \<Rightarrow> World \<Rightarrow> bool" where
  "inSync sha strict d w \<longleftrightarrow>
     (\<exists>f. files w (storePath d) = Some f \<and> backing d = Some (infoOf f)
        \<and> replaced w (storePath d) = [] \<and> fileSynced f = fileSize f
        \<and> scansTo sha (fileLines f) (ringKeys d) (ringRecords d)
        \<and> (strict \<longrightarrow> scans sha (fileLines f)))"

definition ringInv ::
  "(string \<Rightarrow> string) \<Rightarrow> bool \<Rightarrow> string set \<Rightarrow> dedupRing \<Rightarrow> World \<Rightarrow> bool" where
  "ringInv sha strict P d w \<longleftrightarrow>
     storePath d \<noteq> '''' \<and> safeStore sha P (storePath d) w
     \<and> (unusableLocked d = None \<longrightarrow>
          memOK strict P d \<and> (\<not> needsSnapshot d \<longrightarrow> inSync sha strict d w))"

lemma safeStore_mono: "safeStore sha P p w \<Longrightarrow> P' \<subseteq> P \<Longrightarrow> safeStore sha P' p w"
  by (fastforce simp: safeStore_def safeFile_def safeLines_def split: option.splits)

lemma ringInv_mono: "ringInv sha strict P d w \<Longrightarrow> P' \<subseteq> P \<Longrightarrow> ringInv sha strict P' d w"
  by (auto simp: ringInv_def memOK_def intro: safeStore_mono)

definition sameDisk :: "string \<Rightarrow> World \<Rightarrow> World \<Rightarrow> bool" where
  "sameDisk p w w' \<longleftrightarrow> files w' p = files w p \<and> replaced w' p = replaced w p"

lemma sameDisk_refl [simp]: "sameDisk p w w"
  by (simp add: sameDisk_def)

lemma sameDisk_trans: "sameDisk p w w' \<Longrightarrow> sameDisk p w' w'' \<Longrightarrow> sameDisk p w w''"
  by (simp add: sameDisk_def)

lemma nextFault_disk: "nextFault w = (f, w') \<Longrightarrow> sameDisk p w w'"
  by (auto simp: nextFault_def sameDisk_def split: list.splits)

lemma openFile_disk: "openFile p w = (r, w') \<Longrightarrow> sameDisk q w w'"
  by (auto simp: openFile_def dest: nextFault_disk split: prod.splits option.splits if_splits)

lemma statFile_disk: "statFile p w = (r, w') \<Longrightarrow> sameDisk q w w'"
  by (auto simp: statFile_def dest: nextFault_disk split: prod.splits option.splits if_splits)

lemma openFile_Inr: "openFile p w = (Inr d, w') \<Longrightarrow> files w p = Some d"
  using nextFault_disk [of w _ _ p]
  by (auto simp: openFile_def sameDisk_def split: prod.splits option.splits if_splits)

lemma statFile_Inr: "statFile p w = (Inr i, w') \<Longrightarrow> \<exists>d. files w p = Some d \<and> i = infoOf d"
  using nextFault_disk [of w _ _ p]
  by (auto simp: statFile_def sameDisk_def split: prod.splits option.splits if_splits)

lemma ringInv_disk:
  "ringInv sha strict P d w \<Longrightarrow> sameDisk (storePath d) w w' \<Longrightarrow> ringInv sha strict P d w'"
  by (simp add: ringInv_def safeStore_def inSync_def sameDisk_def)


subsection \<open>Snapshots keep the invariant\<close>

definition sameMem :: "dedupRing \<Rightarrow> dedupRing \<Rightarrow> bool" where
  "sameMem d d' \<longleftrightarrow>
     ringKeys d' = ringKeys d \<and> ringRecords d' = ringRecords d \<and> storePath d' = storePath d
     \<and> legacyPath d' = legacyPath d \<and> ringMax d' = ringMax d \<and> loadErr d' = loadErr d
     \<and> persistErr d' = persistErr d"

lemma sameMem_refl [simp]: "sameMem d d"
  by (simp add: sameMem_def)

lemma sameMem_trans: "sameMem d d' \<Longrightarrow> sameMem d' d'' \<Longrightarrow> sameMem d d''"
  by (simp add: sameMem_def)

lemma sameMem_memOK: "sameMem d d' \<Longrightarrow> memOK strict P d' = memOK strict P d"
  by (simp add: sameMem_def memOK_def)

lemma sameMem_usable: "sameMem d d' \<Longrightarrow> unusableLocked d' = unusableLocked d"
  by (simp add: sameMem_def unusableLocked_def split: option.split)

lemma replaceFile_cases:
  assumes "replaceFile p content w = (r, w')"
  obtains (same) "sameDisk p w w'" "r \<noteq> None"
  | (finished) ls f where "content = Inr ls" "r = None" "files w' p = Some f" "replaced w' p = []"
      "fileLines f = ls" "fileSynced f = fileSize f" "fileRegular f"
  | (after) ls f where "content = Inr ls" "r \<noteq> None" "files w' p = Some f"
      "replaced w' p = files w p # replaced w p" "fileLines f = ls" "fileSynced f = fileSize f"
proof (cases content)
  case (Inl e)
  with assms same show ?thesis by (auto simp: replaceFile_def)
next
  case (Inr ls)
  obtain f w1 where f: "nextFault w = (f, w1)" by force
  have sd: "sameDisk p w w1" using nextFault_disk [OF f] .
  show ?thesis
  proof (cases f)
    case Works
    with assms Inr f show ?thesis
      by (intro finished [of ls]) (auto simp: replaceFile_def setFile_def fileSize_def)
  next
    case Fails
    with assms Inr f sd show ?thesis by (intro same) (auto simp: replaceFile_def)
  next
    case (After n)
    with assms Inr f sd show ?thesis
      by (intro after [of ls]) (auto simp: replaceFile_def setFile_def fileSize_def sameDisk_def)
  qed
qed

lemma snapshot_file_safe:
  assumes "memOK strict P d" and "snapshotLines bl (ringKeys d) (ringRecords d) = Inr (fileLines f)"
    and "fileSynced f = fileSize f"
  shows "safeFile sha P f" and "scansTo sha (fileLines f) (ringKeys d) (ringRecords d)"
    and "strict \<Longrightarrow> scans sha (fileLines f)"
proof -
  from assms(1) have m: "wfEntries (ringKeys d) (ringRecords d)" "\<forall>k \<in> P. owed (ringRecords d) k"
    "strict \<longrightarrow> allValid (ringRecords d)" by (auto simp: memOK_def)
  show st: "scansTo sha (fileLines f) (ringKeys d) (ringRecords d)"
    by (rule snapshot_scansTo [OF m(1) assms(2)])
  show "safeFile sha P f" by (rule safeFile_synced [OF st m(2) assms(3)])
  show "strict \<Longrightarrow> scans sha (fileLines f)" using snapshot_scans [OF m(1) _ assms(2)] m(3) by blast
qed

lemma writeStore_inv:
  assumes ws: "writeStore bl d w = (r, d', w')" and inv: "ringInv sha strict P d w"
    and u: "unusableLocked d = None"
  shows "ringInv sha strict P d' w'" and "sameMem d d'" and "r = None \<Longrightarrow> \<not> needsSnapshot d'"
proof -
  let ?p = "storePath d"
  let ?d = "d\<lparr>needsSnapshot := True\<rparr>"
  let ?c = "snapshotLines bl (ringKeys d) (ringRecords d)"
  have p: "?p \<noteq> ''''" and safe: "safeStore sha P ?p w" and mem: "memOK strict P d"
    using inv u by (auto simp: ringInv_def)
  have memd: "memOK strict P ?d" using mem by (simp add: memOK_def)
  have keep: "ringInv sha strict P ?d w0" if "safeStore sha P ?p w0" for w0
    using that p memd by (simp add: ringInv_def)
  have sm: "sameMem d ?d" by (simp add: sameMem_def)
  have disk: "safeStore sha P ?p w0" if "sameDisk ?p w w0" for w0
    using safe that by (simp add: safeStore_def sameDisk_def)
  obtain si ws0 where st: "statFile ?p w = (si, ws0)" by force
  note d0 = statFile_disk [OF st, of ?p]
  obtain rr w1 where rep: "replaceFile ?p ?c ws0 = (rr, w1)" by force
  have notdone: "r \<noteq> None \<and> d' = ?d \<and> sameDisk ?p w w' \<or>
     (d' = ?d \<and> r \<noteq> None \<and> sameDisk ?p w1 w') \<or>
     (rr = None \<and> (\<exists>f. files w1 ?p = Some f \<and> sameDisk ?p w1 w' \<and> r = None \<and>
        d' = ?d\<lparr>backing := Some (infoOf f), needsSnapshot := False, snapshotBytes := infoSize (infoOf f),
               appendBytes := 0, transitionCount := 0\<rparr>))"
  proof (cases "case si of Inr i \<Rightarrow> if \<not> infoRegular i then Some NotRegularFile else None
      | Inl e \<Rightarrow> if e = FileNotExist then None else Some e")
    case (Some e)
    with ws st p d0 show ?thesis by (auto simp: writeStore_def)
  next
    case None
    show ?thesis
    proof (cases rr)
      case (Some e)
      with ws st p None rep have "r = Some e" "d' = ?d" "w' = w1" by (auto simp: writeStore_def)
      then show ?thesis by simp
    next
      case rrNone: None
      obtain fo w2 where op: "openFile ?p w1 = (fo, w2)" by force
      note d2 = openFile_disk [OF op, of ?p]
      obtain i w3 where s2: "statFile ?p w2 = (i, w3)" by force
      note d3 = statFile_disk [OF s2, of ?p]
      show ?thesis
      proof (cases fo)
        case (Inl e)
        with ws st p None rep rrNone op d2 show ?thesis by (auto simp: writeStore_def)
      next
        case (Inr fd)
        show ?thesis
        proof (cases i)
          case (Inl e)
          with ws st p None rep rrNone op Inr s2 sameDisk_trans [OF d2 d3] show ?thesis
            by (auto simp: writeStore_def)
        next
          case iInr: (Inr info)
          obtain f where f: "files w2 ?p = Some f" "info = infoOf f"
            using statFile_Inr [of ?p w2 info w3] s2 iInr by auto
          have f1: "files w1 ?p = Some f" using f d2 by (simp add: sameDisk_def)
          have "(r, d', w') =
            (if \<not> infoRegular info \<or> infoSize info \<noteq> (case ?c of Inr ls \<Rightarrow> sizeOf ls | Inl e \<Rightarrow> 0)
             then (Some SnapshotChanged, ?d, w3)
             else (None, ?d\<lparr>backing := Some info, needsSnapshot := False,
                     snapshotBytes := infoSize info, appendBytes := 0, transitionCount := 0\<rparr>, w3))"
            using ws st p None rep rrNone op Inr s2 iInr by (simp add: writeStore_def Let_def)
          with sameDisk_trans [OF d2 d3] f1 f(2) rrNone show ?thesis by (auto split: if_splits)
        qed
      qed
    qed
  qed
  have safe1: "safeStore sha P ?p w1"
  proof (rule replaceFile_cases [OF rep])
    assume "sameDisk ?p ws0 w1"
    then show ?thesis using disk sameDisk_trans [OF d0] by blast
  next
    fix ls f assume "?c = Inr ls" "files w1 ?p = Some f" "replaced w1 ?p = []" "fileLines f = ls"
      "fileSynced f = fileSize f"
    then show ?thesis using snapshot_file_safe(1) [OF mem] by (simp add: safeStore_def)
  next
    fix ls f assume "?c = Inr ls" "files w1 ?p = Some f" "replaced w1 ?p = files ws0 ?p # replaced ws0 ?p"
      "fileLines f = ls" "fileSynced f = fileSize f"
    then show ?thesis using snapshot_file_safe(1) [OF mem] disk [OF d0] by (simp add: safeStore_def)
  qed
  have safew': "safeStore sha P ?p w'"
    using notdone disk safe1 by (auto simp: safeStore_def sameDisk_def)
  from notdone show "sameMem d d'" by (auto simp: sameMem_def)
  from notdone show "r = None \<Longrightarrow> \<not> needsSnapshot d'" by auto
  show "ringInv sha strict P d' w'"
  proof (cases "d' = ?d")
    case True
    then show ?thesis using keep [OF safew'] by simp
  next
    case False
    with notdone obtain f where rr: "rr = None" and f: "files w1 ?p = Some f"
      and sd: "sameDisk ?p w1 w'" and d': "d' = ?d\<lparr>backing := Some (infoOf f), needsSnapshot := False,
        snapshotBytes := infoSize (infoOf f), appendBytes := 0, transitionCount := 0\<rparr>" by auto
    have fs: "replaced w1 ?p = []" "fileSynced f = fileSize f" "?c = Inr (fileLines f)"
      using replaceFile_cases [OF rep] rr f by (force+)
    have "inSync sha strict d' w'"
      using f fs sd snapshot_file_safe [OF mem fs(3) fs(2)]
      by (auto simp: inSync_def d' sameDisk_def)
    then show ?thesis using p safew' mem by (auto simp: ringInv_def d' memOK_def)
  qed
qed


subsection \<open>Appends keep the invariant\<close>

lemma ringInv_needsSnapshot:
  "ringInv sha strict P d w \<Longrightarrow> ringInv sha strict P (d\<lparr>needsSnapshot := True\<rparr>) w"
  by (auto simp: ringInv_def memOK_def unusableLocked_def split: option.splits)

lemma sameMem_needsSnapshot: "sameMem d (d\<lparr>needsSnapshot := True\<rparr>)"
  by (simp add: sameMem_def)

lemma prepareAppend_inv:
  "prepareAppend n bl k d w = (r, d', w') \<Longrightarrow> ringInv sha strict P d w \<Longrightarrow>
     unusableLocked d = None \<Longrightarrow>
     ringInv sha strict P d' w' \<and> sameMem d d' \<and> (r = None \<longrightarrow> \<not> needsSnapshot d')"
proof (induction n arbitrary: d w)
  case 0
  then show ?case by auto
next
  case (Suc n)
  obtain e1 d1 w1 where s1: "(if mustSnapshot d k then writeStore bl d w else (None, d, w)) = (e1, d1, w1)"
    by (metis prod_cases3)
  have i1: "ringInv sha strict P d1 w1" "sameMem d d1" "e1 = None \<Longrightarrow> \<not> needsSnapshot d1"
    using s1 writeStore_inv [of bl d w e1 d1 w1] Suc.prems
    by (auto simp: mustSnapshot_def split: if_splits)
  have p1: "storePath d1 = storePath d" using i1(2) by (simp add: sameMem_def)
  show ?case
  proof (cases e1)
    case (Some e)
    with Suc.prems(1) s1 i1 show ?thesis by simp
  next
    case None
    obtain op w2 where op: "openFile (storePath d1) w1 = (op, w2)" by force
    note i2 = ringInv_disk [OF i1(1) openFile_disk [OF op]]
    have again: "ringInv sha strict P d' w' \<and> sameMem d d' \<and> (r = None \<longrightarrow> \<not> needsSnapshot d')"
      if p: "prepareAppend n bl k (d1\<lparr>needsSnapshot := True\<rparr>) wx = (r, d', w')"
        and i: "ringInv sha strict P d1 wx" for wx
    proof -
      have sm: "sameMem d (d1\<lparr>needsSnapshot := True\<rparr>)"
        using sameMem_trans [OF i1(2) sameMem_needsSnapshot] .
      have "unusableLocked (d1\<lparr>needsSnapshot := True\<rparr>) = None"
        using sameMem_usable [OF sm] Suc.prems(3) by simp
      from Suc.IH [OF p ringInv_needsSnapshot [OF i] this] show ?thesis
        using sameMem_trans [OF sm] by blast
    qed
    show ?thesis
    proof (cases op)
      case (Inl e)
      show ?thesis
      proof (cases "e = FileNotExist")
        case True
        with Suc.prems(1) s1 None op Inl have "prepareAppend n bl k (d1\<lparr>needsSnapshot := True\<rparr>) w2 = (r, d', w')"
          by simp
        from again [OF this i2] show ?thesis .
      next
        case False
        with Suc.prems(1) s1 None op Inl i2 i1(2) show ?thesis by auto
      qed
    next
      case (Inr f)
      obtain st w3 where st: "statFile (storePath d1) w2 = (st, w3)" by force
      note i3 = ringInv_disk [OF i2 statFile_disk [OF st]]
      show ?thesis
      proof (cases st)
        case Inl: (Inl e)
        with Suc.prems(1) s1 None op Inr st i3 i1(2) show ?thesis by auto
      next
        case info: (Inr info)
        consider "\<not> infoRegular info" | "infoRegular info" "sameDispatchFile (backing d1) info"
          | "infoRegular info" "\<not> sameDispatchFile (backing d1) info" by blast
        then show ?thesis
        proof cases
          case 3
          with Suc.prems(1) s1 None op Inr st info
          have "prepareAppend n bl k (d1\<lparr>needsSnapshot := True\<rparr>) w3 = (r, d', w')" by simp
          from again [OF this i3] show ?thesis .
        qed (use Suc.prems(1) s1 None op Inr st info i3 i1 in auto)
      qed
    qed
  qed
qed

lemma writeDispatchLine_cases:
  assumes "writeDispatchLine p line w = (r, w1)" and f: "files w p = Some f" and pos: "0 < snd line"
  obtains (nothing) "sameDisk p w w1" "r \<noteq> None"
  | (wrote) f1 l k where "files w1 p = Some f1" "replaced w1 p = replaced w p"
      "fileLines f1 = fileLines f @ [(l, k)]" "0 < k" "fileSynced f1 = fileSynced f"
      "(l, k) = line \<or> (l = BadLine \<and> r \<noteq> None)"
proof -
  obtain ft w2 where nf: "nextFault w = (ft, w2)" by force
  have sd: "sameDisk p w w2" using nextFault_disk [OF nf] .
  have f2: "files w2 p = Some f" using sd f by (simp add: sameDisk_def)
  show ?thesis
  proof (cases ft)
    case Works
    with assms nf f2 sd show ?thesis
      by (intro wrote [of "f\<lparr>fileLines := fileLines f @ [line], fileNewline := True, fileTime := clock w2\<rparr>"
            "fst line" "snd line"])
        (auto simp: writeDispatchLine_def setFile_def sameDisk_def)
  next
    case Fails
    with assms nf f2 sd have "sameDisk p w w1" "r \<noteq> None" by (auto simp: writeDispatchLine_def)
    then show ?thesis by (rule nothing)
  next
    case (After n)
    show ?thesis
    proof (cases "n = 0")
      case True
      with After assms nf f2 sd have "sameDisk p w w1" "r \<noteq> None"
        by (auto simp: writeDispatchLine_def)
      then show ?thesis by (rule nothing)
    next
      case False
      show ?thesis
      proof (cases "snd line \<le> n")
        case True
        with False After assms nf f2 sd show ?thesis
          by (intro wrote [of "f\<lparr>fileLines := fileLines f @ [line], fileNewline := True, fileTime := clock w2\<rparr>"
            "fst line" "snd line"])
            (auto simp: writeDispatchLine_def setFile_def sameDisk_def)
      next
        case le: False
        with False After assms nf f2 sd show ?thesis
          by (intro wrote [of "f\<lparr>fileLines := fileLines f @ [(BadLine, n)], fileNewline := False,
            fileTime := clock w2\<rparr>" BadLine n])
            (auto simp: writeDispatchLine_def setFile_def sameDisk_def)
      qed
    qed
  qed
qed

lemma syncFile_cases:
  assumes "syncFile p w = (r, w1)" and "files w p = Some f"
  shows "sameDisk p w w1 \<and> r \<noteq> None
    \<or> r = None \<and> files w1 p = Some (f\<lparr>fileSynced := fileSize f\<rparr>) \<and> replaced w1 p = replaced w p"
  using assms nextFault_disk [of w _ _ p]
  by (auto simp: syncFile_def sameDisk_def split: prod.splits option.splits if_splits)

lemma truncateOp_cases:
  assumes "truncateOp p n w = (r, w1)" and "files w p = Some f"
  shows "sameDisk p w w1 \<and> r \<noteq> None
    \<or> r = None \<and> replaced w1 p = replaced w p
      \<and> (\<exists>g. files w1 p = Some g \<and> fileLines g = truncateLines n (fileLines f)
          \<and> fileSynced g = min n (fileSynced f))"
  using assms nextFault_disk [of w _ _ p]
  by (auto simp: truncateOp_def sameDisk_def setFile_def truncateFile_def
      split: prod.splits option.splits if_splits)


lemma rollbackAppend_inv:
  assumes rb: "rollbackAppend n cause d w = (r, d', w')" and p: "storePath d \<noteq> ''''"
    and u: "unusableLocked d = None" and mem: "memOK strict P d"
    and g: "files w (storePath d) = Some g" "replaced w (storePath d) = []" "safeFile sha P g"
    and gl: "fileLines g = ls \<or> (\<exists>l k. fileLines g = ls @ [(l, k)] \<and> 0 < k)"
    and n: "n = sizeOf ls" "n \<le> fileSynced g"
    and st: "scansTo sha ls (ringKeys d) (ringRecords d)" "strict \<longrightarrow> scans sha ls"
  shows "ringInv sha strict P d' w' \<and> r \<noteq> None
    \<and> (unusableLocked d' = None \<longrightarrow> sameMem d d') \<and> storePath d' = storePath d"
proof -
  let ?p = "storePath d"
  have tl: "truncateLines n (fileLines g) = ls"
    using gl n(1) by (auto simp: truncateLines_exact truncateLines_all)
  have owe: "\<forall>k \<in> P. owed (ringRecords d) k" using mem by (simp add: memOK_def)
  obtain r1 w1 where t: "truncateOp ?p n w = (r1, w1)" by force
  from truncateOp_cases [OF t g(1)] show ?thesis
  proof (elim disjE conjE exE)
    assume sd: "sameDisk ?p w w1" and "r1 \<noteq> None"
    then obtain e where "r1 = Some e" by blast
    with rb t have "r = Some (RollbackFailed cause)" "w' = w1"
      "d' = d\<lparr>persistErr := Some (RollbackFailed cause)\<rparr>" by (auto simp: rollbackAppend_def)
    with p g sd u show ?thesis
      by (auto simp: ringInv_def safeStore_def sameDisk_def unusableLocked_def split: option.splits)
  next
    fix h assume r1: "r1 = None" and rep: "replaced w1 ?p = replaced w ?p"
      and h: "files w1 ?p = Some h" "fileLines h = truncateLines n (fileLines g)"
        "fileSynced h = min n (fileSynced g)"
    have hl: "fileLines h = ls" "fileSynced h = fileSize h" using h tl n by (auto simp: fileSize_def)
    have safe: "safeFile sha P h" by (rule safeFile_synced [of _ _ "ringKeys d" "ringRecords d"]) (use st owe hl in auto)
    obtain r2 w2 where s: "syncFile ?p w1 = (r2, w2)" by force
    from syncFile_cases [OF s h(1)] show ?thesis
    proof (elim disjE conjE)
      assume sd: "sameDisk ?p w1 w2" and "r2 \<noteq> None"
      then obtain e where "r2 = Some e" by blast
      with rb t r1 s have "r = Some (RollbackFailed cause)" "w' = w2"
        "d' = d\<lparr>persistErr := Some (RollbackFailed cause)\<rparr>" by (auto simp: rollbackAppend_def)
      with p g rep h sd safe u show ?thesis
        by (auto simp: ringInv_def safeStore_def sameDisk_def unusableLocked_def split: option.splits)
    next
      assume r2: "r2 = None" and rep2: "replaced w2 ?p = replaced w1 ?p"
        and h2: "files w2 ?p = Some (h\<lparr>fileSynced := fileSize h\<rparr>)"
      let ?h = "h\<lparr>fileSynced := fileSize h\<rparr>"
      have h_eq: "?h = h" using hl(2) by simp
      obtain si w3 where stt: "statFile ?p w2 = (si, w3)" by force
      note d3 = statFile_disk [OF stt, of ?p]
      have f3: "files w3 ?p = Some h" "replaced w3 ?p = []"
        using d3 h2 h_eq rep rep2 g(2) by (simp_all add: sameDisk_def)
      show ?thesis
      proof (cases si)
        case (Inl e)
        with rb t r1 s r2 stt have "r = Some cause" "w' = w3" "d' = d\<lparr>needsSnapshot := True\<rparr>"
          by (auto simp: rollbackAppend_def)
        with p f3 safe mem u show ?thesis
          by (auto simp: ringInv_def safeStore_def memOK_def sameMem_def)
      next
        case (Inr info)
        then have "info = infoOf h" using statFile_Inr [of ?p w2 info w3] stt h2 h_eq by auto
        with Inr rb t r1 s r2 stt have "r = Some cause" "w' = w3" "d' = d\<lparr>backing := Some (infoOf h)\<rparr>"
          by (auto simp: rollbackAppend_def)
        with p f3 safe mem u hl st show ?thesis
          by (auto simp: ringInv_def safeStore_def memOK_def sameMem_def inSync_def)
      qed
    qed
  qed
qed

definition owedAfter :: "dispatchTransition \<Rightarrow> string set \<Rightarrow> string set" where
  "owedAfter t P = (if State (Entry t) = dispatchReserved then insert (EntRequestID (Entry t)) P else P)"

lemma applyInMemory_fields:
  "applyDispatchTransition (ringKeys d) (ringRecords d) t = (keys', records') \<Longrightarrow>
     applyInMemory t d = d\<lparr>ringKeys := keys', ringRecords := records'\<rparr>"
  by (simp add: applyInMemory_def)

lemma appendTransition_inv:
  assumes ap: "appendTransition (TransitionLine t, Suc m) t d w = (r, d', w')"
    and inv: "ringInv sha strict P d w" and u: "unusableLocked d = None"
    and ns: "\<not> needsSnapshot d"
    and v: "validateDispatchTransition (ringRecords d) t = None"
    and na: "\<not> (State (Entry t) = dispatchAcknowledged \<and> EntRequestID (Entry t) \<in> P)"
    and app: "applyDispatchTransition (ringKeys d) (ringRecords d) t = (keys', records')"
  shows "ringInv sha strict (if r = None then owedAfter t P else P) d' w'
    \<and> (r = None \<longrightarrow> ringKeys d' = keys' \<and> ringRecords d' = records' \<and> unusableLocked d' = None
         \<and> durable sha strict d' w')
    \<and> (r \<noteq> None \<and> unusableLocked d' = None \<longrightarrow> sameMem d d') \<and> storePath d' = storePath d"
proof -
  let ?p = "storePath d" and ?line = "(TransitionLine t, Suc m)"
  from inv u ns have p: "?p \<noteq> ''''" and mem: "memOK strict P d" and sync: "inSync sha strict d w"
    and safe: "safeStore sha P ?p w" by (auto simp: ringInv_def)
  from sync obtain f where f: "files w ?p = Some f" "backing d = Some (infoOf f)" "replaced w ?p = []"
    "fileSynced f = fileSize f" and st: "scansTo sha (fileLines f) (ringKeys d) (ringRecords d)"
    and sc: "strict \<longrightarrow> scans sha (fileLines f)" by (auto simp: inSync_def)
  from mem have wf: "wfEntries (ringKeys d) (ringRecords d)" and owe: "\<forall>k \<in> P. owed (ringRecords d) k"
    and av: "strict \<longrightarrow> allValid (ringRecords d)" by (auto simp: memOK_def)
  have owe': "\<forall>k \<in> P. owed records' k" using owe apply_owed [OF _ v app] na by blast
  have owe2: "\<forall>k \<in> owedAfter t P. owed records' k"
    using owe' apply_reserved_owed [OF app] by (auto simp: owedAfter_def)
  have size: "infoSize (infoOf f) = sizeOf (fileLines f)" by (simp add: infoOf_def fileSize_def)
  have rollback: "ringInv sha strict P d' w' \<and> r \<noteq> None
      \<and> (unusableLocked d' = None \<longrightarrow> sameMem d d') \<and> storePath d' = storePath d"
    if "rollbackAppend (sizeOf (fileLines f)) c d wx = (r, d', w')"
      and "files wx ?p = Some g" "replaced wx ?p = []" "safeFile sha P g"
      and "fileLines g = fileLines f \<or> (\<exists>l k. fileLines g = fileLines f @ [(l, k)] \<and> 0 < k)"
      and "sizeOf (fileLines f) \<le> fileSynced g" for c wx g
    using rollbackAppend_inv [OF that(1) p u mem that(2-5) refl that(6) st sc] .
  obtain r1 w1 where wr: "writeDispatchLine ?p ?line w = (r1, w1)" by force
  show ?thesis
  proof (rule writeDispatchLine_cases [OF wr f(1)])
    show "0 < snd ?line" by simp
  next
    assume sd: "sameDisk ?p w w1" and "r1 \<noteq> None"
    then obtain e where "r1 = Some e" by blast
    with ap wr f(2) size have rb: "rollbackAppend (sizeOf (fileLines f)) e d w1 = (r, d', w')"
      by (simp add: appendTransition_def)
    have "files w1 ?p = Some f" "replaced w1 ?p = []" using sd f by (simp_all add: sameDisk_def)
    moreover have "safeFile sha P f" using safe f by (simp add: safeStore_def)
    ultimately show ?thesis using rollback [OF rb, of f] f(4) by (auto simp: fileSize_def)
  next
    fix f1 l k
    assume f1: "files w1 ?p = Some f1" "replaced w1 ?p = replaced w ?p"
      "fileLines f1 = fileLines f @ [(l, k)]" "0 < k" "fileSynced f1 = fileSynced f"
      and lk: "(l, k) = ?line \<or> l = BadLine \<and> r1 \<noteq> None"
    have safe1: "safeFile sha P f1"
      by (rule safeFile_appended [OF st owe _ f1(3)])
        (use lk app owe' f1(5) f(4) in \<open>auto simp: fileSize_def\<close>)
    have sz1: "sizeOf (fileLines f) \<le> fileSynced f1" using f1(5) f(4) by (simp add: fileSize_def)
    show ?thesis
    proof (cases r1)
      case (Some e)
      with ap wr f(2) size have rb: "rollbackAppend (sizeOf (fileLines f)) e d w1 = (r, d', w')"
        by (simp add: appendTransition_def)
      from rollback [OF rb f1(1)] f1(2,3,4) f(3) safe1 sz1 show ?thesis by auto
    next
      case None
      with lk have line: "(l, k) = ?line" by simp
      obtain r2 w2 where sy: "syncFile ?p w1 = (r2, w2)" by force
      from syncFile_cases [OF sy f1(1)] show ?thesis
      proof (elim disjE conjE)
        assume sd: "sameDisk ?p w1 w2" and "r2 \<noteq> None"
        then obtain e where "r2 = Some e" by blast
        with ap wr None sy f(2) size have rb: "rollbackAppend (sizeOf (fileLines f)) e d w2 = (r, d', w')"
          by (simp add: appendTransition_def)
        have "files w2 ?p = Some f1" "replaced w2 ?p = []"
          using sd f1 f(3) by (simp_all add: sameDisk_def)
        from rollback [OF rb this safe1] f1(3,4) sz1 show ?thesis by auto
      next
        assume r2: "r2 = None" and rep2: "replaced w2 ?p = replaced w1 ?p"
          and f2: "files w2 ?p = Some (f1\<lparr>fileSynced := fileSize f1\<rparr>)"
        let ?f2 = "f1\<lparr>fileSynced := fileSize f1\<rparr>"
        have fl2: "fileLines ?f2 = fileLines f @ [?line]" "fileSynced ?f2 = fileSize ?f2"
          using f1(3) line by (simp_all add: fileSize_def)
        have st2: "scansTo sha (fileLines ?f2) keys' records'"
          unfolding fl2(1) by (rule scansTo_append [OF st app])
        have sc2: "strict \<longrightarrow> scans sha (fileLines ?f2)"
          unfolding fl2(1) using scans_append [OF _ st v] sc by blast
        have safe2: "safeFile sha (owedAfter t P) ?f2"
          by (rule safeFile_synced [OF st2 owe2 fl2(2)])
        obtain d1 w3 where ac: "afterCommit (infoSize (infoOf f)) (infoOf f) (Suc m) d w2 = (d1, w3)" by force
        have ac2: "sameDisk ?p w2 w3 \<and> (d1 = d\<lparr>needsSnapshot := True\<rparr> \<or> d1 = d\<lparr>backing := Some (infoOf ?f2)\<rparr>)"
        proof (cases "statFile ?p w2")
          case (Pair si wz)
          with statFile_disk [OF Pair, of ?p] statFile_Inr [of ?p w2 _ wz] f2 ac show ?thesis
            by (auto simp: afterCommit_def split: sum.splits if_splits)
        qed
        have res: "r = None" "w' = w3" and d': "d' = applyInMemory t (d1\<lparr>transitionCount := Suc (transitionCount d1),
              appendBytes := appendBytes d1 + Suc m\<rparr>)"
          using ap wr None sy r2 f(2) ac by (simp_all add: appendTransition_def)
        have app1: "applyDispatchTransition (ringKeys d1) (ringRecords d1) t = (keys', records')"
          using ac2 app by auto
        have d'2: "d' = d1\<lparr>transitionCount := Suc (transitionCount d1), appendBytes := appendBytes d1 + Suc m,
            ringKeys := keys', ringRecords := records'\<rparr>"
          unfolding d' using applyInMemory_fields app1 by auto
        have mem2: "memOK strict (owedAfter t P) d'"
          using apply_wf [OF wf v app] owe2 av apply_allValid [OF _ v app] by (auto simp: memOK_def d'2)
        have us: "unusableLocked d' = None"
          using ac2 u by (auto simp: unusableLocked_def d'2 split: option.splits)
        have sp: "storePath d' = ?p" using ac2 by (auto simp: d'2)
        have disk: "files w' ?p = Some ?f2" "replaced w' ?p = []"
          using ac2 res f2 rep2 f1(2) f(3) by (simp_all add: sameDisk_def)
        have sync2: "inSync sha strict d' w'" if "\<not> needsSnapshot d'"
        proof -
          have "backing d' = Some (infoOf ?f2)" using that ac2 by (auto simp: d'2)
          then show ?thesis using disk fl2(2) st2 sc2 sp by (auto simp: inSync_def d'2)
        qed
        have "ringInv sha strict (owedAfter t P) d' w'"
          using p sp disk safe2 mem2 sync2 by (simp add: ringInv_def safeStore_def)
        moreover have "durable sha strict d' w'"
          using disk fl2(2) st2 sc2 sp by (auto simp: durable_def d'2)
        ultimately show ?thesis using res us sp by (simp add: d'2)
      qed
    qed
  qed
qed


lemma commitTransition_inv:
  assumes c: "commitTransition bl t d w = (r, d', w')"
    and inv: "ringInv sha strict P d w" and u: "unusableLocked d = None"
    and na: "\<not> (State (Entry t) = dispatchAcknowledged \<and> EntRequestID (Entry t) \<in> P)"
  shows "ringInv sha strict (if r = None then owedAfter t P else P) d' w'
    \<and> (r = None \<longrightarrow> validateDispatchTransition (ringRecords d) t = None
         \<and> applyDispatchTransition (ringKeys d) (ringRecords d) t = (ringKeys d', ringRecords d')
         \<and> unusableLocked d' = None \<and> durable sha strict d' w')
    \<and> (r \<noteq> None \<and> unusableLocked d' = None \<longrightarrow> sameMem d d') \<and> storePath d' = storePath d"
proof (cases "validateDispatchTransition (ringRecords d) t")
  case (Some e)
  with c inv show ?thesis by (auto simp: commitTransition_def)
next
  case v: None
  have p: "storePath d \<noteq> ''''" using inv by (simp add: ringInv_def)
  show ?thesis
  proof (cases "dispatchLogLine bl (TransitionLine t)")
    case (Inl e)
    with c inv v p show ?thesis by (auto simp: commitTransition_def)
  next
    case (Inr line)
    then have line: "line = (TransitionLine t, Suc (bl (TransitionLine t)))"
      by (auto simp: dispatchLogLine_def split: if_splits)
    obtain e1 d1 w1 where pr: "prepareAppend 2 bl (snd line) d w = (e1, d1, w1)" by (metis prod_cases3)
    from prepareAppend_inv [OF pr inv u] have i1: "ringInv sha strict P d1 w1"
      and sm: "sameMem d d1" and ns: "e1 = None \<longrightarrow> \<not> needsSnapshot d1" by auto
    have u1: "unusableLocked d1 = None" using sameMem_usable [OF sm] u by simp
    show ?thesis
    proof (cases e1)
      case (Some e)
      with c v p Inr pr have "r = Some e" "d' = d1" "w' = w1" by (simp_all add: commitTransition_def)
      with i1 sm show ?thesis by (simp add: sameMem_def)
    next
      case None
      with c v p Inr pr have ap: "appendTransition line t d1 w1 = (r, d', w')"
        by (simp add: commitTransition_def)
      obtain keys' records' where app: "applyDispatchTransition (ringKeys d1) (ringRecords d1) t = (keys', records')"
        by force
      have same: "ringKeys d1 = ringKeys d" "ringRecords d1 = ringRecords d" "storePath d1 = storePath d"
        using sm by (simp_all add: sameMem_def)
      from appendTransition_inv [OF ap [unfolded line] i1 u1 _ _ na app] ns None v same app sm
      show ?thesis using sameMem_trans [OF sm] by auto
    qed
  qed
qed

subsection \<open>The operations keep the invariant\<close>

lemma reserve_inv:
  assumes r: "reserve bl rid digest d w = (res, d', w')" and inv: "ringInv sha strict P d w"
  shows "(case res of Inr (reservationNew, x) \<Rightarrow> rid \<notin> P \<and> ringInv sha strict (insert rid P) d' w'
            \<and> ringRecords d rid = None \<and> ringRecords d' rid = Some (newReservation rid digest)
          | _ \<Rightarrow> ringInv sha strict P d' w') \<and> storePath d' = storePath d"
proof (cases "unusableLocked d = None \<and> validDispatchDigest digest \<and> ringRecords d rid = None")
  case False
  then have "d' = d \<and> w' = w \<and> (\<forall>x. res \<noteq> Inr (reservationNew, x))"
    using r by (auto simp: reserve_def classifyLocked_def split: option.splits if_splits)
  with inv show ?thesis by (auto split: sum.splits reservationDecision.splits)
next
  case True
  then have u: "unusableLocked d = None" by simp
  define evict where "evict = (if ringMax d \<le> length (ringKeys d)
    then oldestAcknowledged (ringRecords d) (ringKeys d) else '''')"
  let ?t = "\<lparr>Version = 1, Entry = newReservation rid digest, Evict = evict\<rparr>"
  show ?thesis
  proof (cases "ringMax d \<le> length (ringKeys d) \<and> evict = ''''")
    case True
    with r u \<open>unusableLocked d = None \<and> validDispatchDigest digest \<and> ringRecords d rid = None\<close>
    have "res = Inl CapacityReached" "d' = d" "w' = w"
      by (auto simp: reserve_def classifyLocked_def evict_def Let_def)
    with inv show ?thesis by simp
  next
    case False
    obtain e1 d1 w1 where c: "commitTransition bl ?t d w = (e1, d1, w1)" by (metis prod_cases3)
    have ci: "ringInv sha strict (if e1 = None then owedAfter ?t P else P) d1 w1"
      "storePath d1 = storePath d"
      and cr: "e1 = None \<Longrightarrow> applyDispatchTransition (ringKeys d) (ringRecords d) ?t = (ringKeys d1, ringRecords d1)"
      using commitTransition_inv [OF c inv u] by (auto simp: newReservation_def)
    have "(res, d', w') = (case e1 of Some e \<Rightarrow> (Inl e, d1, w1) | None \<Rightarrow> (Inr (reservationNew, zeroResult), d1, w1))"
      using r \<open>unusableLocked d = None \<and> validDispatchDigest digest \<and> ringRecords d rid = None\<close> False c
      by (auto simp: reserve_def classifyLocked_def evict_def Let_def split: option.splits if_splits)
    moreover have "rid \<notin> P"
      using inv u True by (auto simp: ringInv_def memOK_def owed_def stateOf_def)
    moreover have "owedAfter ?t P = insert rid P" by (simp add: owedAfter_def newReservation_def)
    moreover have "e1 = None \<Longrightarrow> ringRecords d1 rid = Some (newReservation rid digest)"
      using cr by (auto simp: apply_eq newReservation_def)
    ultimately show ?thesis using ci True by (cases e1) auto
  qed
qed

lemma complete_inv:
  assumes c: "complete bl rid digest result d w = (r, d', w')" and inv: "ringInv sha strict P d w"
  shows "ringInv sha strict P d' w' \<and> storePath d' = storePath d"
proof -
  consider "d' = d" "w' = w" | e where "unusableLocked d = None" "ringRecords d rid = Some e"
    "commitTransition bl \<lparr>Version = 1, Entry = e\<lparr>State := dispatchCompleted, EntResult := result\<rparr>,
       Evict = ''''\<rparr> d w = (r, d', w')"
    using c unfolding complete_def by (auto split: option.splits if_splits)
  then show ?thesis
  proof cases
    case 2
    from commitTransition_inv [OF 2(3) inv 2(1)] show ?thesis by (cases r) (auto simp: owedAfter_def)
  qed (use inv in simp)
qed

lemma acknowledge_inv:
  assumes a: "acknowledge bl rid d w = (r, d', w')" and inv: "ringInv sha strict P d w"
  shows "ringInv sha strict (P - {rid}) d' w' \<and> storePath d' = storePath d"
proof -
  have inv': "ringInv sha strict (P - {rid}) d w" using ringInv_mono [OF inv] by blast
  consider "d' = d" "w' = w" | e where "unusableLocked d = None" "ringRecords d rid = Some e"
    "commitTransition bl \<lparr>Version = 1, Entry = e\<lparr>State := dispatchAcknowledged\<rparr>, Evict = ''''\<rparr> d w
       = (r, d', w')"
    using a unfolding acknowledge_def by (auto split: option.splits dispatchState.splits)
  then show ?thesis
  proof cases
    case 2
    have "EntRequestID e = rid"
      using inv 2(1,2) by (auto simp: ringInv_def memOK_def wfEntries_def)
    then show ?thesis using commitTransition_inv [OF 2(3) inv' 2(1)]
      by (cases r) (auto simp: owedAfter_def)
  qed (use inv' in simp)
qed


subsection \<open>Loading keeps what is owed\<close>

lemma evictOldest_spec:
  "evictOldestAcknowledged records keys = Some (keys', records') \<Longrightarrow>
     \<exists>k \<in> set keys. stateOf records k = dispatchAcknowledged \<and> keys' = remove1 k keys
       \<and> records' = records(k := None)"
proof (induction keys arbitrary: keys' records')
  case (Cons a keys)
  show ?case
  proof (cases "stateOf records a = dispatchAcknowledged")
    case True
    with Cons.prems show ?thesis by auto
  next
    case False
    with Cons.prems obtain ks where e: "evictOldestAcknowledged records keys = Some (ks, records')"
      and ks: "keys' = a # ks" by auto
    from Cons.IH [OF e] obtain k where "k \<in> set keys" "stateOf records k = dispatchAcknowledged"
      "ks = remove1 k keys" "records' = records(k := None)" by blast
    with False ks show ?thesis by (intro bexI [of _ k]) auto
  qed
qed simp

lemma evictToMax_spec:
  "evictToMax mx keys records = (keys', records') \<Longrightarrow> wfEntries keys records \<Longrightarrow>
     wfEntries keys' records' \<and> (\<forall>k. owed records k \<longrightarrow> owed records' k)
     \<and> (allValid records \<longrightarrow> allValid records') \<and> length keys' \<le> length keys
     \<and> (length keys' = length keys \<longrightarrow> keys' = keys \<and> records' = records)"
proof (induction mx keys records arbitrary: keys' records' rule: evictToMax.induct)
  case (1 mx keys records)
  show ?case
  proof (cases "mx < length keys")
    case False
    with "1.prems" show ?thesis by (simp add: evictToMax.simps [of mx keys])
  next
    case True
    show ?thesis
    proof (cases "evictOldestAcknowledged records keys")
      case None
      with True "1.prems" show ?thesis by (simp add: evictToMax.simps [of mx keys])
    next
      case (Some kr)
      obtain k1 r1 where kr: "kr = (k1, r1)" by force
      from evictOldest_spec [of records keys k1 r1] Some kr obtain k where k: "k \<in> set keys"
        "stateOf records k = dispatchAcknowledged" "k1 = remove1 k keys" "r1 = records(k := None)" by auto
      have wf1: "wfEntries k1 r1" using "1.prems"(2) k by (auto simp: wfEntries_def)
      have len: "length k1 < length keys" using Some kr evictOldest_length by blast
      have e: "evictToMax mx k1 r1 = (keys', records')"
        using True Some kr "1.prems"(1) by (simp add: evictToMax.simps [of mx keys])
      have "\<forall>j. owed records j \<longrightarrow> owed r1 j" using k by (auto simp: owed_def stateOf_def)
      moreover have "allValid records \<longrightarrow> allValid r1"
        using k(4) by (auto simp: allValid_def ran_def)
      ultimately show ?thesis using "1.IH" [OF True Some kr [symmetric] e wf1] len kr by auto
    qed
  qed
qed

lemma scanLine_not_missing: "scanLine sha n l s \<noteq> Inl FileNotExist"
  by (auto simp: scanLine_def Let_def split: logLine.splits option.splits prod.splits)

lemma scanLines_not_missing: "scanLines sha n ls s \<noteq> Inl FileNotExist"
proof (induction sha n ls s rule: scanLines.induct)
  case (2 sha n l ls s)
  then show ?case using scanLine_not_missing by (auto simp: result_simps)
qed simp

lemma readDispatchStore_Inr:
  assumes "readDispatchStore sha p w = (Inr log, w')"
  obtains f s where "files w p = Some f" "scanLines sha 1 (fileLines f) scanStart = Inr s"
    "stEntries log = entriesOf (scKeys s) (scRecords s)" "stInfo log = infoOf f" "sameDisk p w w'"
proof -
  obtain o1 w1 where o1: "openFile p w = (o1, w1)" by force
  with assms obtain f where f: "o1 = Inr f" by (cases o1) (auto simp: readDispatchStore_def)
  obtain o2 w2 where o2: "statFile p w1 = (o2, w2)" by force
  with assms o1 f obtain info where info: "o2 = Inr info" by (cases o2) (auto simp: readDispatchStore_def)
  obtain s where s: "scanLines sha 1 (fileLines f) scanStart = Inr s"
    using assms o1 f o2 info
    by (cases "scanLines sha 1 (fileLines f) scanStart") (auto simp: readDispatchStore_def split: if_splits)
  obtain rd w3 where o3: "nextFault w2 = (rd, w3)" by force
  obtain o4 w4 where o4: "statFile p w3 = (o4, w4)" by force
  obtain f5 w5 where o5: "nextFault w4 = (f5, w5)" by force
  have res: "log = \<lparr>stEntries = entriesOf (scKeys s) (scRecords s), stInfo = info,
      stLegacy = scLegacy s, stNeedsSnapshot = (0 < infoSize info \<and> \<not> fileNewline f),
      stSnapshotBytes = scSnapshotBytes s, stTransitions = scTransitions s\<rparr>" "w' = w5"
    using assms o1 f o2 info s o3 o4 o5
    by (auto simp: readDispatchStore_def split: if_splits sum.splits)
  have d1: "sameDisk p w w1" using openFile_disk [OF o1] .
  have fw: "files w p = Some f" using openFile_Inr o1 f by simp
  then have "info = infoOf f" using statFile_Inr [of p w1 info w2] o2 info d1 by (auto simp: sameDisk_def)
  moreover have "sameDisk p w w5"
    using sameDisk_trans [OF d1 sameDisk_trans [OF statFile_disk [OF o2] sameDisk_trans [OF nextFault_disk [OF o3]
      sameDisk_trans [OF statFile_disk [OF o4] nextFault_disk [OF o5]]]]] .
  ultimately show ?thesis using that [OF fw s] res by simp
qed

lemma readDispatchStore_disk: "readDispatchStore sha p w = (r, w') \<Longrightarrow> sameDisk q w w'"
proof -
  assume a: "readDispatchStore sha p w = (r, w')"
  obtain o1 w1 where o1: "openFile p w = (o1, w1)" by force
  obtain o2 w2 where o2: "statFile p w1 = (o2, w2)" by force
  obtain rd w3 where o3: "nextFault w2 = (rd, w3)" by force
  obtain o4 w4 where o4: "statFile p w3 = (o4, w4)" by force
  obtain f5 w5 where o5: "nextFault w4 = (f5, w5)" by force
  have "w' \<in> {w1, w2, w3, w4, w5}"
    using a o1 o2 o3 o4 o5 by (auto simp: readDispatchStore_def split: sum.splits if_splits)
  then show ?thesis
    using openFile_disk [OF o1, of q] statFile_disk [OF o2, of q] nextFault_disk [OF o3, of q]
      statFile_disk [OF o4, of q] nextFault_disk [OF o5, of q] by (auto simp: sameDisk_def)
qed

lemma readDispatchStore_missing:
  assumes "readDispatchStore sha p w = (Inl FileNotExist, w')"
  shows "files w p = None"
proof -
  obtain o1 w1 where o1: "openFile p w = (o1, w1)" by force
  show ?thesis
  proof (cases "files w p")
    case (Some f)
    have d1: "files w1 p = Some f" using openFile_disk [OF o1, of p] Some by (simp add: sameDisk_def)
    obtain o2 w2 where o2: "statFile p w1 = (o2, w2)" by force
    obtain rd w3 where o3: "nextFault w2 = (rd, w3)" by force
    obtain o4 w4 where o4: "statFile p w3 = (o4, w4)" by force
    obtain f5 w5 where o5: "nextFault w4 = (f5, w5)" by force
    have d3: "files w3 p = Some f"
      using d1 statFile_disk [OF o2, of p] nextFault_disk [OF o3, of p] by (simp add: sameDisk_def)
    have n1: "o1 \<noteq> Inl FileNotExist" and n2: "o2 \<noteq> Inl FileNotExist" and n4: "o4 \<noteq> Inl FileNotExist"
      using o1 o2 o4 Some d1 d3 nextFault_disk [of _ _ _ p]
      by (auto simp: openFile_def statFile_def sameDisk_def split: prod.splits option.splits if_splits)
    show ?thesis
      using assms o1 o2 o3 o4 o5 n1 n2 n4 scanLines_not_missing
      by (auto simp: readDispatchStore_def split: sum.splits if_splits)
  qed
qed


lemma withEntries_fields:
  "withEntries es d = d\<lparr>ringKeys := ringKeys d @ map EntRequestID es,
     ringRecords := putEntries es (ringRecords d)\<rparr>"
  by (simp add: withEntries_def putEntries_def)

lemma evictRing_fields:
  "evictToMax (ringMax d) (ringKeys d) (ringRecords d) = (keys, records) \<Longrightarrow>
     evictRing d = d\<lparr>ringKeys := keys, ringRecords := records\<rparr>"
  by (simp add: evictRing_def)

lemma unusable_failedWrite [simp]: "unusableLocked (failedWrite e d) \<noteq> None"
  by (simp add: failedWrite_def unusableLocked_def)

lemma storePath_failedWrite [simp]: "storePath (failedWrite e d) = storePath d"
  by (simp add: failedWrite_def)

lemma ringInv_failedWrite: "ringInv sha strict P d w \<Longrightarrow> ringInv sha strict P (failedWrite e d) w"
  by (simp add: ringInv_def failedWrite_def unusableLocked_def)

lemma safeStore_empty [simp]: "safeStore sha {} p w"
  by (auto simp: safeStore_def safeFile_def safeLines_def split: option.split)

lemma renameLegacy_disk: "q \<noteq> p \<Longrightarrow> q \<noteq> p @ ''.migrated'' \<Longrightarrow> sameDisk q w (renameLegacy p w)"
  using nextFault_disk [of w _ _ q] by (auto simp: renameLegacy_def sameDisk_def split: prod.splits)

lemma adoptLegacyStore_inv:
  assumes a: "adoptLegacyStore sha bl (emptyRing mx p legacy) w = (d', w')"
    and p: "p \<noteq> ''''" "p \<noteq> legacy" "p \<noteq> legacy @ ''.migrated''"
  shows "ringInv sha False {} d' w' \<and> storePath d' = p"
proof -
  let ?d = "emptyRing mx p legacy"
  have e: "storePath ?d = p" "legacyPath ?d = legacy" "unusableLocked ?d = None"
    "ringKeys ?d = []" "ringRecords ?d = Map.empty" "needsSnapshot ?d"
    by (simp_all add: emptyRing_def unusableLocked_def)
  have base: "ringInv sha False {} ?d wx" for wx
    using p(1) e by (simp add: ringInv_def memOK_def wfEntries_def)
  show ?thesis
  proof (cases "legacy = ''''")
    case True
    with a e base show ?thesis by (auto simp: adoptLegacyStore_def)
  next
    case False
    obtain r w1 where rd: "readDispatchStore sha legacy w = (r, w1)" by force
    show ?thesis
    proof (cases r)
      case (Inl er)
      with a False rd e base p(1) show ?thesis
        by (auto simp: adoptLegacyStore_def ringInv_def unusableLocked_def split: if_splits)
    next
      case (Inr log)
      obtain f :: DispatchFile and s where s: "scanLines sha 1 (fileLines f) scanStart = Inr s"
        "stEntries log = entriesOf (scKeys s) (scRecords s)"
        by (rule readDispatchStore_Inr [OF rd [unfolded Inr]]) blast
      have wf: "wfEntries (scKeys s) (scRecords s)" using scanLines_wf [OF s(1) scanStart_wf] .
      have we: "ringKeys (withEntries (stEntries log) ?d) = scKeys s"
        "ringRecords (withEntries (stEntries log) ?d) = scRecords s"
        using entriesOf_wf(2) [OF wf] putEntries_entriesOf [OF wf] s(2) e
        by (simp_all add: withEntries_fields)
      let ?d1 = "withEntries (stEntries log) ?d"
      obtain ks rs where ev: "evictToMax (ringMax ?d1) (ringKeys ?d1) (ringRecords ?d1) = (ks, rs)" by force
      have wf2: "wfEntries ks rs" using evictToMax_spec [OF ev] we wf by simp
      have d2: "evictRing ?d1 = ?d1\<lparr>ringKeys := ks, ringRecords := rs\<rparr>" by (rule evictRing_fields [OF ev])
      have d1f: "storePath ?d1 = p" "legacyPath ?d1 = legacy" "loadErr ?d1 = None" "persistErr ?d1 = None"
        "needsSnapshot ?d1"
        by (simp_all add: withEntries_fields emptyRing_def)
      have i2: "ringInv sha False {} (evictRing ?d1) w1" and u2: "unusableLocked (evictRing ?d1) = None"
        and p2: "storePath (evictRing ?d1) = p" "legacyPath (evictRing ?d1) = legacy"
        using wf2 p(1) d1f unfolding d2 by (simp_all add: ringInv_def memOK_def unusableLocked_def)
      obtain e3 d3 w3 where ws: "writeStore bl (evictRing ?d1) w1 = (e3, d3, w3)" by (metis prod_cases3)
      note wi = writeStore_inv [OF ws i2 u2]
      have p3: "storePath d3 = p" "legacyPath d3 = legacy" using wi(2) p2 by (simp_all add: sameMem_def)
      show ?thesis
      proof (cases e3)
        case (Some er)
        with a False rd Inr e ws have "d' = failedWrite (MigrateFailed er) d3" "w' = w3"
          by (simp_all add: adoptLegacyStore_def)
        with ringInv_failedWrite [OF wi(1)] p3 show ?thesis by simp
      next
        case None
        with a False rd Inr e ws p3 have "d' = d3" "w' = renameLegacy legacy w3"
          by (simp_all add: adoptLegacyStore_def)
        with ringInv_disk [OF wi(1)] renameLegacy_disk [OF p(2,3)] p3 show ?thesis by simp
      qed
    qed
  qed
qed

text \<open>A store whose bytes have settled on disk: what the next start finds.\<close>

definition settled :: "string \<Rightarrow> World \<Rightarrow> bool" where
  "settled p w \<longleftrightarrow> replaced w p = [] \<and>
     (case files w p of None \<Rightarrow> True | Some f \<Rightarrow> fileSynced f = fileSize f)"

lemma newDedupRing_inv:
  assumes n: "newDedupRing sha bl mx p legacy w = (d', w')"
    and p: "p \<noteq> ''''" "p \<noteq> legacy" "p \<noteq> legacy @ ''.migrated''"
    and safe: "safeStore sha P p w" and settled: "settled p w"
  shows "ringInv sha False P d' w' \<and> storePath d' = p"
proof -
  let ?d = "emptyRing mx p legacy"
  have e: "storePath ?d = p" "unusableLocked ?d = None" "ringKeys ?d = []" "ringRecords ?d = Map.empty"
    by (simp_all add: emptyRing_def unusableLocked_def)
  obtain r w1 where rd: "readDispatchStore sha p w = (r, w1)" by force
  have disk: "sameDisk p w w1" using readDispatchStore_disk [OF rd] .
  have safe1: "safeStore sha P p w1" using safe disk by (simp add: safeStore_def sameDisk_def)
  show ?thesis
  proof (cases r)
    case (Inl er)
    show ?thesis
    proof (cases "er = FileNotExist")
      case True
      then have "files w p = None" using readDispatchStore_missing rd Inl by blast
      then have P: "P = {}" using safe by (simp add: safeStore_def)
      have "adoptLegacyStore sha bl ?d w1 = (d', w')"
        using n rd Inl True e p(1) by (simp add: newDedupRing_def load_def)
      from adoptLegacyStore_inv [OF this p] P show ?thesis by simp
    next
      case False
      then have "d' = ?d\<lparr>loadErr := Some er, loadErrPath := p\<rparr>" "w' = w1"
        using n rd Inl e p(1) by (auto simp: newDedupRing_def load_def)
      with safe1 p(1) e show ?thesis by (auto simp: ringInv_def unusableLocked_def)
    qed
  next
    case (Inr log)
    obtain f s where f: "files w p = Some f" and s: "scanLines sha 1 (fileLines f) scanStart = Inr s"
      "stEntries log = entriesOf (scKeys s) (scRecords s)" "stInfo log = infoOf f"
      by (rule readDispatchStore_Inr [OF rd [unfolded Inr]]) blast
    have f1: "files w1 p = Some f" "replaced w1 p = []" "fileSynced f = fileSize f"
      using f disk settled by (auto simp: sameDisk_def settled_def)
    have wf: "wfEntries (scKeys s) (scRecords s)" using scanLines_wf [OF s(1) scanStart_wf] .
    have st: "scansTo sha (fileLines f) (scKeys s) (scRecords s)" using s(1) by (auto simp: scansTo_def)
    have "safeLines sha P (fileLines f)"
      using safe f f1(3) truncateLines_all [of "fileLines f" "fileSize f"]
      by (auto simp: safeStore_def safeFile_def fileSize_def dest!: spec [of _ "fileSynced f"])
    then have owe: "\<forall>k \<in> P. owed (scRecords s) k" using s(1) by (auto simp: safeLines_def)
    let ?d1 = "withEntries (stEntries log) ?d"
    have k1: "ringKeys ?d1 = scKeys s" "ringRecords ?d1 = scRecords s"
      using entriesOf_wf(2) [OF wf] putEntries_entriesOf [OF wf] s(2) e by (simp_all add: withEntries_fields)
    define d1 where "d1 = ?d1\<lparr>backing := Some (stInfo log), needsSnapshot := stNeedsSnapshot log,
        snapshotBytes := stSnapshotBytes log, appendBytes := infoSize (stInfo log) - stSnapshotBytes log,
        transitionCount := stTransitions log\<rparr>"
    obtain ks rs where ev: "evictToMax (ringMax d1) (ringKeys d1) (ringRecords d1) = (ks, rs)" by force
    have k1': "ringKeys d1 = scKeys s" "ringRecords d1 = scRecords s" using k1 by (simp_all add: d1_def)
    note evs = evictToMax_spec [OF ev [unfolded k1'] wf]
    define d3 where "d3 = evictRing d1\<lparr>needsSnapshot := needsSnapshot (evictRing d1)
        \<or> length (ringKeys (evictRing d1)) \<noteq> length (ringKeys ?d1)\<rparr>"
    have d2: "evictRing d1 = d1\<lparr>ringKeys := ks, ringRecords := rs\<rparr>" by (rule evictRing_fields [OF ev])
    have d1f: "storePath d1 = p" "backing d1 = Some (infoOf f)" "loadErr d1 = None" "persistErr d1 = None"
      using s(3) by (simp_all add: d1_def withEntries_fields emptyRing_def)
    have d3: "ringKeys d3 = ks" "ringRecords d3 = rs" "storePath d3 = p" "backing d3 = Some (infoOf f)"
      "unusableLocked d3 = None" "\<not> needsSnapshot d3 \<Longrightarrow> length ks = length (scKeys s)"
      using d1f k1 by (simp_all add: d3_def d2 unusableLocked_def)
    have mem: "memOK False P d3" using evs owe d3 by (simp add: memOK_def)
    have sync: "inSync sha False d3 w1" if "\<not> needsSnapshot d3"
      using d3(6) [OF that] evs d3 f1 st by (auto simp: inSync_def)
    have i3: "ringInv sha False P d3 w1" using p(1) d3 safe1 mem sync by (simp add: ringInv_def)
    have res: "(d', w') = (if stLegacy log then (case writeStore bl d3 w1 of
        (Some er, d4, w2) \<Rightarrow> (failedWrite (MigrateFailed er) d4, w2) | (None, d4, w2) \<Rightarrow> (d4, w2)) else (d3, w1))"
      unfolding n [symmetric] newDedupRing_def load_def Let_def e(1) rd Inr d3_def d1_def
      by (simp only: p(1) if_False prod.case sum.case)
    show ?thesis
    proof (cases "stLegacy log")
      case False
      with res i3 d3 show ?thesis by simp
    next
      case True
      obtain e4 d4 w4 where ws: "writeStore bl d3 w1 = (e4, d4, w4)" by (metis prod_cases3)
      note wi = writeStore_inv [OF ws i3 d3(5)]
      have "storePath d4 = p" using wi(2) d3(3) by (simp add: sameMem_def)
      with res True ws wi(1) ringInv_failedWrite [OF wi(1)] show ?thesis by (cases e4) auto
    qed
  qed
qed


subsection \<open>Crashes\<close>

definition crashImage :: "nat \<Rightarrow> DispatchFile \<Rightarrow> DispatchFile" where
  "crashImage n f =
    (truncateFile n f)\<lparr>fileSynced := sizeOf (truncateLines n (fileLines f))\<rparr>"

text \<open>A host crash: of the file, at least the synced bytes survive; a replacement whose
  directory was not synced may be undone.\<close>

definition hostCrash :: "string \<Rightarrow> World \<Rightarrow> World \<Rightarrow> bool" where
  "hostCrash p w w' \<longleftrightarrow> replaced w' p = [] \<and>
     (\<exists>x \<in> set (files w p # replaced w p).
        case x of None \<Rightarrow> files w' p = None
        | Some f \<Rightarrow> \<exists>n \<ge> fileSynced f. files w' p = Some (crashImage n f))"

lemma crashImage_lines: "fileLines (crashImage n f) = truncateLines n (fileLines f)"
  by (simp add: crashImage_def truncateFile_def)

lemma crashImage_synced: "fileSynced (crashImage n f) = fileSize (crashImage n f)"
  by (simp add: crashImage_def truncateFile_def fileSize_def)

lemma crashImage_safe: "safeFile sha P f \<Longrightarrow> fileSynced f \<le> n \<Longrightarrow> safeFile sha P (crashImage n f)"
  using truncateLines_all [of "truncateLines n (fileLines f)"]
  by (auto simp: safeFile_def crashImage_synced crashImage_lines fileSize_def)

lemma hostCrash_safe:
  assumes "hostCrash p w w'" and "safeStore sha P p w"
  shows "safeStore sha P p w'" and "settled p w'"
  using assms crashImage_safe crashImage_synced
  by (auto simp: hostCrash_def safeStore_def settled_def split: option.splits)

lemma hostCrash_durable:
  assumes c: "hostCrash (storePath d) w w'" and d: "durable sha True d w"
  shows "\<exists>f s. files w' (storePath d) = Some f \<and> scanLines sha 1 (fileLines f) scanStart = Inr s
    \<and> scKeys s = ringKeys d \<and> scRecords s = ringRecords d"
proof -
  from d obtain f where f: "files w (storePath d) = Some f" "replaced w (storePath d) = []"
    "fileSynced f = fileSize f" "scansTo sha (fileLines f) (ringKeys d) (ringRecords d)"
    "scans sha (fileLines f)" by (auto simp: durable_def)
  from c f obtain n where n: "fileSynced f \<le> n" "files w' (storePath d) = Some (crashImage n f)"
    by (auto simp: hostCrash_def)
  have "fileLines (crashImage n f) = fileLines f"
    using n(1) f(3) by (simp add: crashImage_lines truncateLines_all fileSize_def)
  with n(2) f(4,5) show ?thesis by (auto simp: scans_def scansTo_def)
qed

subsection \<open>At most once\<close>

datatype logEvent = Started string | Acked string | Quiet

text \<open>One step of a runner's life with its log.  Each call may meet any pattern of failures
  (\<open>sc\<close>); a restart follows a crash at any moment, with any capacity.\<close>

inductive logStep ::
  "(string \<Rightarrow> string) \<Rightarrow> (logLine \<Rightarrow> nat) \<Rightarrow> logEvent \<Rightarrow> dedupRing \<times> World \<Rightarrow> dedupRing \<times> World \<Rightarrow> bool"
  for sha bl
where
  reserve_started:
    "reserve bl rid digest d (w\<lparr>script := sc\<rparr>) = (Inr (reservationNew, x), d', w') \<Longrightarrow>
     logStep sha bl (Started rid) (d, w) (d', w')"
| reserve_answered:
    "reserve bl rid digest d (w\<lparr>script := sc\<rparr>) = (res, d', w') \<Longrightarrow>
     (\<forall>x. res \<noteq> Inr (reservationNew, x)) \<Longrightarrow> logStep sha bl Quiet (d, w) (d', w')"
| completed:
    "complete bl rid digest result d (w\<lparr>script := sc\<rparr>) = (r, d', w') \<Longrightarrow>
     logStep sha bl Quiet (d, w) (d', w')"
| acknowledged:
    "acknowledge bl rid d (w\<lparr>script := sc\<rparr>) = (r, d', w') \<Longrightarrow>
     logStep sha bl (Acked rid) (d, w) (d', w')"
| restarted:
    "hostCrash (storePath d) w w1 \<Longrightarrow> storePath d \<noteq> legacy \<Longrightarrow> storePath d \<noteq> legacy @ ''.migrated'' \<Longrightarrow>
     newDedupRing sha bl mx (storePath d) legacy w1 = (d', w') \<Longrightarrow>
     logStep sha bl Quiet (d, w) (d', w')"

inductive_cases logStep_StartedE: "logStep sha bl (Started k) s s'"
inductive_cases logStep_AckedE: "logStep sha bl (Acked k) s s'"
inductive_cases logStep_QuietE: "logStep sha bl Quiet s s'"

fun owing :: "string set \<Rightarrow> logEvent list \<Rightarrow> string set" where
  "owing P [] = P"
| "owing P (Started k # es) = owing (insert k P) es"
| "owing P (Acked k # es) = owing (P - {k}) es"
| "owing P (Quiet # es) = owing P es"

fun startedOnce :: "string set \<Rightarrow> logEvent list \<Rightarrow> bool" where
  "startedOnce P [] = True"
| "startedOnce P (Started k # es) = (k \<notin> P \<and> startedOnce (insert k P) es)"
| "startedOnce P (Acked k # es) = startedOnce (P - {k}) es"
| "startedOnce P (Quiet # es) = startedOnce P es"

lemma startedOnce_append:
  "startedOnce P (es @ fs) \<longleftrightarrow> startedOnce P es \<and> startedOnce (owing P es) fs"
  by (induction P es rule: startedOnce.induct) auto

lemma owing_kept: "k \<in> P \<Longrightarrow> Acked k \<notin> set es \<Longrightarrow> k \<in> owing P es"
  by (induction P es rule: owing.induct) auto

lemma startedOnce_between:
  assumes "startedOnce P (a @ Started k # b @ Started k # c)"
  shows "Acked k \<in> set b"
proof (rule ccontr)
  assume n: "Acked k \<notin> set b"
  have "k \<notin> owing (insert k (owing P a)) b"
    using assms by (simp add: startedOnce_append)
  moreover have "k \<in> owing (insert k (owing P a)) b" using owing_kept [OF _ n] by simp
  ultimately show False by simp
qed

text \<open>The contract a client of the log relies on.\<close>

locale owing_log =
  fixes step :: "logEvent \<Rightarrow> 's \<Rightarrow> 's \<Rightarrow> bool"
    and owes :: "'s \<Rightarrow> string set \<Rightarrow> bool"
  assumes started: "step (Started k) s s' \<Longrightarrow> owes s P \<Longrightarrow> k \<notin> P \<and> owes s' (insert k P)"
    and acked: "step (Acked k) s s' \<Longrightarrow> owes s P \<Longrightarrow> owes s' (P - {k})"
    and quiet: "step Quiet s s' \<Longrightarrow> owes s P \<Longrightarrow> owes s' P"
begin

lemma trace_owes: "trace step s es s' \<Longrightarrow> owes s P \<Longrightarrow> startedOnce P es \<and> owes s' (owing P es)"
proof (induction arbitrary: P rule: trace.induct)
  case (trace_cons e s s1 es s2)
  then show ?case by (cases e) (use started acked quiet in fastforce)+
qed simp

lemma trace_started_once: "trace step s es s' \<Longrightarrow> owes s P \<Longrightarrow> startedOnce P es"
  using trace_owes by blast

end

lemma ringInv_script: "ringInv sha strict P d w \<Longrightarrow> ringInv sha strict P d (w\<lparr>script := sc\<rparr>)"
  by (rule ringInv_disk) (simp_all add: sameDisk_def)

definition ringOwes :: "(string \<Rightarrow> string) \<Rightarrow> dedupRing \<times> World \<Rightarrow> string set \<Rightarrow> bool" where
  "ringOwes sha s P \<longleftrightarrow> ringInv sha False P (fst s) (snd s)"

lemma logStep_started_owes:
  "logStep sha bl (Started k) s s' \<Longrightarrow> ringOwes sha s P \<Longrightarrow> k \<notin> P \<and> ringOwes sha s' (insert k P)"
  by (auto simp: ringOwes_def elim!: logStep_StartedE dest!: reserve_inv [OF _ ringInv_script])

lemma logStep_acked_owes:
  "logStep sha bl (Acked k) s s' \<Longrightarrow> ringOwes sha s P \<Longrightarrow> ringOwes sha s' (P - {k})"
  by (auto simp: ringOwes_def elim!: logStep_AckedE dest!: acknowledge_inv [OF _ ringInv_script])

lemma logStep_quiet_owes:
  assumes "logStep sha bl Quiet s s'" and "ringOwes sha s P"
  shows "ringOwes sha s' P"
  using assms(1)
proof (cases rule: logStep.cases)
  case (reserve_answered rid digest d sc w res d' w')
  from assms(2) reserve_answered have "ringInv sha False P d w" by (simp add: ringOwes_def)
  from reserve_inv [OF reserve_answered(3) ringInv_script [OF this]] reserve_answered show ?thesis
    by (auto simp: ringOwes_def split: sum.splits prod.splits reservationDecision.splits)
next
  case (completed rid digest result d sc w r d' w')
  from assms(2) completed have "ringInv sha False P d w" by (simp add: ringOwes_def)
  from complete_inv [OF completed(3) ringInv_script [OF this]] completed show ?thesis
    by (simp add: ringOwes_def)
next
  case (restarted d w w1 legacy mx d' w')
  from assms(2) restarted have "storePath d \<noteq> []" "safeStore sha P (storePath d) w"
    by (simp_all add: ringOwes_def ringInv_def)
  with newDedupRing_inv [OF restarted(6) _ restarted(4,5)] hostCrash_safe [OF restarted(3)] restarted
  show ?thesis by (simp add: ringOwes_def)
qed

interpretation ring_log: owing_log "logStep sha bl" "ringOwes sha" for sha bl
  by unfold_locales (blast intro: logStep_started_owes logStep_acked_owes logStep_quiet_owes
      dest: logStep_started_owes)+


subsection \<open>Properties\<close>

text \<open>C1: At most once.  Start a runner on any settled data directory and let it reserve,
  complete, acknowledge, crash and restart in any order, with any pattern of input/output
  failures and any part of the unsynced bytes lost at each crash: a dispatch id for which a
  reservation was granted (so the action may have run) is never granted again, unless the
  control plane's acknowledgement of that id came in between.\<close>

theorem at_most_once:
  assumes "newDedupRing sha bl mx p legacy w0 = (d, w)" and "settled p w0"
    and "p \<noteq> ''''" and "p \<noteq> legacy" and "p \<noteq> legacy @ ''.migrated''"
    and "trace (logStep sha bl) (d, w) evs s'"
  shows "\<not> (\<exists>a k b c. evs = a @ Started k # b @ Started k # c \<and> Acked k \<notin> set b)"
proof -
  have "ringOwes sha (d, w) {}"
    using newDedupRing_inv [OF assms(1,3,4,5) safeStore_empty assms(2)] by (simp add: ringOwes_def)
  from ring_log.trace_started_once [OF assms(6) this] show ?thesis
    using startedOnce_between by blast
qed

definition freshWorld :: World where
  "freshWorld = \<lparr>files = Map.empty, replaced = (\<lambda>_. []), clock = 0, script = []\<rparr>"

definition sampleDigest :: string where
  "sampleDigest = replicate 64 (CHR ''a'')"

definition sampleStart :: "dedupRing \<times> World" where
  "sampleStart = newDedupRing (\<lambda>_. sampleDigest) (\<lambda>_. 9) 1 ''d'' ''l'' freshWorld"

definition sampleReserve :: "(log_error + reservationDecision \<times> ActionResultMsg) \<times> dedupRing \<times> World" where
  "sampleReserve = reserve (\<lambda>_. 9) ''r1'' sampleDigest (fst sampleStart) (snd sampleStart\<lparr>script := []\<rparr>)"

lemma sampleReserve_new: "fst sampleReserve = Inr (reservationNew, zeroResult)"
  by code_simp

lemma sample_settled: "settled ''d'' freshWorld"
  by (simp add: settled_def freshWorld_def)

lemma sample_trace:
  "trace (logStep (\<lambda>_. sampleDigest) (\<lambda>_. 9)) sampleStart [Started ''r1''] (snd sampleReserve)"
proof (rule trace_cons [OF _ trace_nil])
  have "reserve (\<lambda>_. 9) ''r1'' sampleDigest (fst sampleStart) (snd sampleStart\<lparr>script := []\<rparr>)
      = (Inr (reservationNew, zeroResult), fst (snd sampleReserve), snd (snd sampleReserve))"
    using sampleReserve_new unfolding sampleReserve_def by (metis prod.collapse)
  from reserve_started [OF this]
  show "logStep (\<lambda>_. sampleDigest) (\<lambda>_. 9) (Started ''r1'') sampleStart (snd sampleReserve)" by simp
qed

theorem at_most_once_witness:
  "\<not> (\<exists>a k b c. [Started ''r1''] = a @ Started k # b @ Started k # c \<and> Acked k \<notin> set b)
   \<and> trace (logStep (\<lambda>_. sampleDigest) (\<lambda>_. 9)) sampleStart [Started ''r1''] (snd sampleReserve)"
proof -
  have "newDedupRing (\<lambda>_. sampleDigest) (\<lambda>_. 9) 1 ''d'' ''l'' freshWorld
      = (fst sampleStart, snd sampleStart)" by (simp add: sampleStart_def)
  from at_most_once [OF this sample_settled] sample_trace show ?thesis by simp
qed


definition sampleTransition :: dispatchTransition where
  "sampleTransition = \<lparr>Version = 1, Entry = newReservation ''r1'' sampleDigest, Evict = ''''\<rparr>"

definition sampleCommit :: "log_error option \<times> dedupRing \<times> World" where
  "sampleCommit = commitTransition (\<lambda>_. 9) sampleTransition (emptyRing 1 ''d'' ''l'') freshWorld"

lemma sampleCommit_ok: "fst sampleCommit = None"
  by code_simp

lemma emptyRing_inv: "p \<noteq> '''' \<Longrightarrow> ringInv sha True {} (emptyRing mx p legacy) w"
  by (simp add: ringInv_def memOK_def emptyRing_def wfEntries_def allValid_def)

lemma sampleCommit_file: "replaced (snd (snd sampleCommit)) ''d'' = [] \<and>
   files (snd (snd sampleCommit)) ''d'' \<noteq> None"
  by code_simp



text \<open>A dispatch id that is already known is answered from its record alone, the same way
  by \<open>reserve\<close> and by \<open>inspect\<close>, and without touching memory or disk: other facts under the
  same id are a conflict, a terminal record is replayed with its stored result, and an
  unfinished one is reported as pending.\<close>

lemma known_dispatch_answered:
  assumes "unusableLocked d = None" and "validDispatchDigest digest" and "ringRecords d rid = Some e"
  shows "\<exists>answer. reserve bl rid digest d w = (Inr answer, d, w) \<and> inspect rid digest d = Inr answer
    \<and> answer = (if DispatchSHA256 e \<noteq> digest then (reservationConflict, zeroResult)
                else if State e \<in> {dispatchCompleted, dispatchAcknowledged}
                  then (reservationReplay, EntResult e)
                else (reservationPending, zeroResult))"
  using assms by (auto simp: reserve_def inspect_def classifyLocked_def)

definition sampleRing :: "dispatchState \<Rightarrow> dedupRing" where
  "sampleRing st = (emptyRing 1 ''d'' ''l'')\<lparr>ringKeys := [''r1''],
     ringRecords := [''r1'' \<mapsto> \<lparr>EntRequestID = ''r1'', DispatchSHA256 = sampleDigest, State = st,
       EntResult = zeroResult\<rparr>]\<rparr>"

text \<open>A terminal result never changes.  Completing a dispatch whose record is already
  terminal leaves memory and disk as they are, and succeeds only for the identical result
  under the identical digest.\<close>

lemma terminal_result_immutable:
  assumes "ringRecords d rid = Some e" and "State e \<in> {dispatchCompleted, dispatchAcknowledged}"
    and "complete bl rid digest result d w = (r, d', w')"
  shows "d' = d \<and> w' = w \<and>
    (r = None \<longleftrightarrow> unusableLocked d = None \<and> validActionResult result rid
       \<and> DispatchSHA256 e = digest \<and> EntResult e = result)"
  using assms by (auto simp: complete_def split: option.splits if_splits)

lemma oldestAcknowledged_spec:
  "oldestAcknowledged records keys \<noteq> '''' \<Longrightarrow>
     oldestAcknowledged records keys \<in> set keys
     \<and> stateOf records (oldestAcknowledged records keys) = dispatchAcknowledged"
  by (induction keys) (auto split: if_splits)

lemma length_apply_reserved:
  assumes "applyDispatchTransition keys records t = (keys', records')"
    and "State (Entry t) = dispatchReserved" and "Evict t = '''' \<or> Evict t \<in> set keys"
  shows "length keys' = (if Evict t = '''' then Suc (length keys) else length keys)"
proof (cases "Evict t = ''''")
  case False
  with assms(3) have "0 < length keys" by auto
  with False assms show ?thesis
    by (auto simp: apply_eq length_deleteFirst)
qed (use assms in \<open>simp add: apply_eq\<close>)

text \<open>The ring stays within its capacity, and making room only ever forgets a dispatch
  whose result the control plane has acknowledged: whatever \<open>reserve\<close> answers and whatever
  fails on the way, the ring holds at most \<open>max\<close> entries afterwards and no reserved or
  completed entry is gone.\<close>

lemma reserve_within_capacity:
  assumes "ringInv sha False {} d w" and "length (ringKeys d) \<le> ringMax d"
    and "reserve bl rid digest d w = (res, d', w')" and "unusableLocked d' = None"
  shows "length (ringKeys d') \<le> ringMax d
    \<and> \<not> (\<exists>k. owed (ringRecords d) k \<and> ringRecords d' k = None)"
proof (cases "unusableLocked d = None \<and> validDispatchDigest digest \<and> ringRecords d rid = None")
  case False
  then have "d' = d"
    using assms(3) by (auto simp: reserve_def classifyLocked_def split: option.splits if_splits)
  with assms(2) show ?thesis by (auto simp: owed_def stateOf_def)
next
  case True
  define evict where "evict = (if ringMax d \<le> length (ringKeys d)
    then oldestAcknowledged (ringRecords d) (ringKeys d) else '''')"
  let ?t = "\<lparr>Version = 1, Entry = newReservation rid digest, Evict = evict\<rparr>"
  obtain e1 d1 w1 where c: "commitTransition bl ?t d w = (e1, d1, w1)" by (metis prod_cases3)
  have res: "d' = d \<or> (d' = d1 \<and> \<not> (ringMax d \<le> length (ringKeys d) \<and> evict = ''''))"
    using assms(3) True c
    by (auto simp: reserve_def classifyLocked_def evict_def Let_def split: option.splits if_splits)
  note ci = commitTransition_inv [OF c assms(1)]
  show ?thesis
  proof (cases "d' = d \<or> e1 \<noteq> None")
    case unchanged: True
    have "sameMem d d'"
      using unchanged res ci True assms(4) by (auto simp: newReservation_def)
    with assms(2) show ?thesis by (auto simp: sameMem_def owed_def stateOf_def)
  next
    case False
    with res have d': "d' = d1" and room: "\<not> (ringMax d \<le> length (ringKeys d) \<and> evict = '''')" by auto
    from ci False True have a: "applyDispatchTransition (ringKeys d) (ringRecords d) ?t
        = (ringKeys d', ringRecords d')" and v: "validateDispatchTransition (ringRecords d) ?t = None"
      by (auto simp: d' newReservation_def)
    have "evict = '''' \<or> evict \<in> set (ringKeys d)"
      using oldestAcknowledged_spec by (auto simp: evict_def)
    then have "length (ringKeys d') \<le> ringMax d"
      using length_apply_reserved [OF a] room assms(2) by (auto simp: newReservation_def evict_def split: if_splits)
    moreover have "owed (ringRecords d') k" if "owed (ringRecords d) k" for k
      using apply_owed [OF that v a] by (simp add: newReservation_def)
    moreover have "ringRecords d' k \<noteq> None" if "owed (ringRecords d') k" for k
      using that by (auto simp: owed_def stateOf_def split: option.splits)
    ultimately show ?thesis by blast
  qed
qed

text \<open>C40: An unusable log fails closed.  When the log exists and cannot be read back (a torn
  line, an impossible transition, a read error), the ring that results refuses every
  operation with that error, changes nothing on disk, offers no result for redelivery, and
  the start-up refusal names the file to move aside.\<close>

theorem unreadable_log_refuses:
  assumes "readDispatchStore sha p w = (Inl e, w1)" and "e \<noteq> FileNotExist" and "p \<noteq> ''''"
    and "newDedupRing sha bl mx p legacy w = (d, w')"
  shows "files w' p = files w p \<and> startupRefusal d = Some (MoveAside p e)
    \<and> reserve bl rid digest d v = (Inl e, d, v) \<and> inspect rid digest d = Inl e
    \<and> complete bl rid digest result d v = (Some e, d, v) \<and> acknowledge bl rid d v = (Some e, d, v)
    \<and> unacknowledgedResults d = [] \<and> \<not> containsId rid d"
proof -
  have d: "d = (emptyRing mx p legacy)\<lparr>loadErr := Some e, loadErrPath := p\<rparr>" and w: "w' = w1"
    using assms by (auto simp: newDedupRing_def load_def emptyRing_def)
  have u: "unusableLocked d = Some e" by (simp add: d unusableLocked_def)
  have "startupRefusal d = Some (MoveAside p e)"
    using assms(3) by (simp add: startupRefusal_def d emptyRing_def)
  with u w readDispatchStore_disk [OF assms(1), of p] show ?thesis
    by (simp add: reserve_def inspect_def complete_def acknowledge_def unacknowledgedResults_def
        containsId_def sameDisk_def)
qed

definition tornWorld :: World where
  "tornWorld = freshWorld\<lparr>files := [''d'' \<mapsto> \<lparr>fileId = 0, fileTime = 0, fileRegular = True,
     fileLines = [(BadLine, 5)], fileNewline = False, fileSynced = 5\<rparr>]\<rparr>"

theorem unreadable_log_refuses_witness:
  "fst (reserve (\<lambda>_. 9) ''r1'' sampleDigest
     (fst (newDedupRing (\<lambda>_. sampleDigest) (\<lambda>_. 9) 1 ''d'' ''l'' tornWorld)) freshWorld)
   = Inl (InvalidEntryLine 1)"
proof -
  obtain w1 where r: "readDispatchStore (\<lambda>_. sampleDigest) ''d'' tornWorld = (Inl (InvalidEntryLine 1), w1)"
    by (simp add: readDispatchStore_def openFile_def statFile_def nextFault_def tornWorld_def
        freshWorld_def infoOf_def scanLine_def)
  obtain d w' where n: "newDedupRing (\<lambda>_. sampleDigest) (\<lambda>_. 9) 1 ''d'' ''l'' tornWorld = (d, w')" by force
  from unreadable_log_refuses [OF r _ _ n, of "''r1''" sampleDigest freshWorld] n show ?thesis by simp
qed

end
