(* ===== verification/Client.thy ===== *)
theory Client
  imports Outbox Engine_Run Signing Dispatch_Proofs
begin

text \<open>
  The client (\<open>runner/internal/cloud/client.go\<close>, \<open>client_dispatch.go\<close>, \<open>client_gates.go\<close>,
  \<open>client_outbox.go\<close>): routing of inbound frames, admission of a dispatch into the bounded table of
  runs, the signature and pack gates, the run itself, and the paths that resolve a run.  The client's
  mutex makes each of its operations one step; a handler goroutine is an entry of a table that the
  step relation moves from waiting to executing to finished.  Logging, the runtime status file and
  the coalescing wake-up of the sender leave no trace in the state.
\<close>

subsection \<open>State\<close>

text \<open>What the client calls outside its own code, at one moment.\<close>

record ('v, 'r) Env =
  envHost :: "'v Host"
  envCrypto :: "'r CryptoLib"
  envLine :: "logLine \<Rightarrow> nat"
  envNonceLine :: "journalLine \<Rightarrow> nat"
  envFold :: "nat \<Rightarrow> nat"
  envArgs :: "(string \<times> json) list \<Rightarrow> string option"
  envFacts :: "dispatchFacts \<Rightarrow> string option"
  envDigestError :: string
  envSayDetail :: "refusal_detail \<Rightarrow> string"
  envSayPack :: "pack_error \<Rightarrow> string"
  envSayMismatch :: "string \<Rightarrow> string \<Rightarrow> string \<Rightarrow> string"
  envSayVersion :: "Envelope \<Rightarrow> string"
  envNow :: int
  envLater :: int
  envRotate :: "string \<Rightarrow> bool"

text \<open>A handler waits at its gates with its message, or \<open>Engine.Run\<close> has been entered for it: then
  it has progress to ship before its result.\<close>

datatype handler =
    Waiting RunActionMsg
  | Executing RunActionMsg "(bool \<times> string) list" EngineResult

record ('v, 'r) Client =
  cliMaxConcurrent :: nat
  cliMaxPending :: nat
  cliRingSize :: nat
  cliEngine :: "'v Engine"
  cliVerifier :: "'r Verifier option"
  cliNonces :: NonceStore
  cliNonceDisk :: NonceDisk
  cliRing :: dedupRing
  cliWorld :: World
  cliRuns :: "(string \<times> runState) list"
  cliHandlers :: "(string \<times> handler) list"
  cliClosing :: bool
  cliPreCanceled :: "string set"
  cliPreCanceledOrder :: "string list"
  cliRetried :: "string set"
  cliJournal :: Journal
  cliReadvertise :: bool
  cliNotes :: "(string \<times> string) list"

text \<open>How the receive loop goes on after a frame.\<close>

datatype session_end =
    VersionUnsupported Envelope | BacklogFull | ContextCanceled | RotationRequested | TerminalShutdown string

definition orDefault :: "int \<Rightarrow> nat \<Rightarrow> nat" where
  "orDefault n d = (if n \<le> 0 then d else nat n)"

definition newClient ::
  "(string \<Rightarrow> string) \<Rightarrow> (logLine \<Rightarrow> nat) \<Rightarrow> int \<Rightarrow> int \<Rightarrow> int \<Rightarrow> string \<Rightarrow> string \<Rightarrow> 'v Engine \<Rightarrow>
     'r Verifier option \<Rightarrow> NonceStore \<Rightarrow> NonceDisk \<Rightarrow> Journal \<Rightarrow> World \<Rightarrow> ('v, 'r) Client" where
  "newClient sha bl maxConcurrent maxPending ringSize store legacy engine verifier nonces ndisk journal w =
    (let ring = orDefault ringSize 1024; (d, w') = newDedupRing sha bl ring store legacy w in
     \<lparr>cliMaxConcurrent = orDefault maxConcurrent 8, cliMaxPending = orDefault maxPending 2048,
      cliRingSize = ring, cliEngine = engine, cliVerifier = verifier, cliNonces = nonces,
      cliNonceDisk = ndisk, cliRing = d, cliWorld = w', cliRuns = [], cliHandlers = [],
      cliClosing = False, cliPreCanceled = {}, cliPreCanceledOrder = [], cliRetried = {},
      cliJournal = journal, cliReadvertise = False, cliNotes = []\<rparr>)"

definition setVerifier :: "'r Verifier option \<Rightarrow> ('v, 'r) Client \<Rightarrow> ('v, 'r) Client" where
  "setVerifier v c = c\<lparr>cliVerifier := v\<rparr>"

subsection \<open>The table of runs\<close>

definition runOf :: "('v, 'r) Client \<Rightarrow> string \<Rightarrow> runState option" where
  "runOf c rid = map_of (cliRuns c) rid"

definition putRun :: "string \<Rightarrow> runState \<Rightarrow> ('v, 'r) Client \<Rightarrow> ('v, 'r) Client" where
  "putRun rid s c = c\<lparr>cliRuns := (rid, s) # removeKey rid (cliRuns c)\<rparr>"

definition removeRun :: "string \<Rightarrow> ('v, 'r) Client \<Rightarrow> ('v, 'r) Client" where
  "removeRun rid c = c\<lparr>cliRuns := removeKey rid (cliRuns c)\<rparr>"

definition countActiveRuns :: "('v, 'r) Client \<Rightarrow> nat" where
  "countActiveRuns c = length (filter (\<lambda>r. \<not> rsFinished (snd r)) (cliRuns c))"

definition maxRunStates :: "('v, 'r) Client \<Rightarrow> nat" where
  "maxRunStates c = cliMaxConcurrent c + 2 * cliRingSize c"

definition rememberPreCancel :: "string \<Rightarrow> ('v, 'r) Client \<Rightarrow> ('v, 'r) Client" where
  "rememberPreCancel rid c =
    (if rid = '''' \<or> rid \<in> cliPreCanceled c then c
     else let c1 = (if cliRingSize c \<le> length (cliPreCanceledOrder c)
         then c\<lparr>cliPreCanceledOrder := tl (cliPreCanceledOrder c),
                cliPreCanceled := cliPreCanceled c - {hd (cliPreCanceledOrder c)}\<rparr>
         else c) in
       c1\<lparr>cliPreCanceled := insert rid (cliPreCanceled c1),
          cliPreCanceledOrder := cliPreCanceledOrder c1 @ [rid]\<rparr>)"

definition consumePreCancel :: "string \<Rightarrow> ('v, 'r) Client \<Rightarrow> bool \<times> ('v, 'r) Client" where
  "consumePreCancel rid c =
    (if rid \<notin> cliPreCanceled c then (False, c)
     else (True, c\<lparr>cliPreCanceled := cliPreCanceled c - {rid},
                   cliPreCanceledOrder := deleteFirst (\<lambda>k. k = rid) (cliPreCanceledOrder c)\<rparr>))"

subsection \<open>The request and the audit record of a dispatch\<close>

definition maxJournaledReasonRunes :: nat where "maxJournaledReasonRunes = 2000"

definition ellipsis :: string where "ellipsis = encodeRune 0x2026"

definition journaledReason :: "string \<Rightarrow> string" where
  "journaledReason reason =
    (let segs = segments reason in
     if length segs \<le> maxJournaledReasonRunes then reason
     else concat (map snd (take maxJournaledReasonRunes segs)) @ ellipsis)"

definition requestForDispatch :: "RunActionMsg \<Rightarrow> 'v Registry option \<Rightarrow> bool \<Rightarrow> 'v Request" where
  "requestForDispatch m registry streaming =
    \<lparr>ControlPlaneRequestID = runRequestID m, reqActionID = ActionID m, reqArgs = argsOfJson (RunArgs m),
     reqReason = journaledReason (RunReason m),
     reqOpts = (case RunOptions m of None \<Rightarrow> zeroOpts
       | Some opts \<Rightarrow> \<lparr>optTimeout = optsTimeout (RunOptions m), optMaxStdoutBytes = MaxStdoutBytes opts,
           optMaxStderrBytes = MaxStderrBytes opts\<rparr>),
     RegistrySnapshot = registry, reqStreaming = streaming\<rparr>"

definition withLocalAudit :: "ActionResultMsg \<Rightarrow> string \<Rightarrow> ActionResultMsg" where
  "withLocalAudit result eid = result\<lparr>EventID := eid, LocalAuditFailed := (eid = '''')\<rparr>"

definition failedDispatchResult :: "string \<Rightarrow> string \<Rightarrow> string \<Rightarrow> ActionResultMsg" where
  "failedDispatchResult rid reason detail =
    zeroResult\<lparr>resEnvelope := envelope MsgActionResult rid, Status := ''failed'', ExitCode := -1,
      ResReason := reason, ResError := detail\<rparr>"

text \<open>A record of the refusal of a request, with its event id.\<close>

definition auditRefusal :: "'v Request \<Rightarrow> string \<Rightarrow> ('v, 'r) Client \<Rightarrow> string \<times> ('v, 'r) Client" where
  "auditRefusal req detail c =
    (case recordDispatchRefusal (cliEngine c) (cliJournal c) req detail of (eid, j) \<Rightarrow>
      (eid, c\<lparr>cliJournal := j\<rparr>))"

definition refusedDispatchResult ::
  "RunActionMsg \<Rightarrow> string \<Rightarrow> string \<Rightarrow> ('v, 'r) Client \<Rightarrow> ActionResultMsg \<times> ('v, 'r) Client" where
  "refusedDispatchResult m reason detail c =
    (case auditRefusal (requestForDispatch m None False) detail c of (eid, c1) \<Rightarrow>
      (withLocalAudit (failedDispatchResult (runRequestID m) reason detail) eid, c1))"


subsection \<open>Answers\<close>

definition enqueueTransient :: "string \<Rightarrow> outMsg \<Rightarrow> ('v, 'r) Client \<Rightarrow> bool \<times> ('v, 'r) Client" where
  "enqueueTransient rid msg c =
    (if cliClosing c then (False, c)
     else case runOf c rid of
       Some s \<Rightarrow>
         if cliMaxPending c \<le> length (pending s) then (False, c)
         else (True, putRun rid (s\<lparr>pending := pending s @ [msg]\<rparr>) c)
     | None \<Rightarrow>
         if cliMaxConcurrent c + cliRingSize c \<le> length (cliRuns c) then (False, c)
         else (True, putRun rid ((newRunState rid '''')\<lparr>rsFinished := True, pending := [msg]\<rparr>) c))"

text \<open>\<open>finishRun\<close> on the client: the outbox and the log change together.\<close>

definition finishOn ::
  "('v, 'r) Env \<Rightarrow> string \<Rightarrow> runState \<Rightarrow> ActionResultMsg \<Rightarrow> ('v, 'r) Client \<Rightarrow> ('v, 'r) Client" where
  "finishOn env rid s result c =
    (case finishRun (envLine env) s result (cliRing c) (cliWorld c) of (s', d, w) \<Rightarrow>
      putRun rid s' (c\<lparr>cliRing := d, cliWorld := w\<rparr>))"

definition enqueueDurableResult ::
  "('v, 'r) Env \<Rightarrow> string \<Rightarrow> string \<Rightarrow> ActionResultMsg \<Rightarrow> ('v, 'r) Client \<Rightarrow> bool \<times> ('v, 'r) Client" where
  "enqueueDurableResult env rid digest result c =
    (if cliClosing c \<or> maxRunStates c \<le> length (cliRuns c) \<or> runOf c rid \<noteq> None then (False, c)
     else (True, finishOn env rid (newRunState rid digest) result c))"

definition handleReservationDecision ::
  "('v, 'r) Env \<Rightarrow> RunActionMsg \<Rightarrow> string \<Rightarrow> reservationDecision \<Rightarrow> ActionResultMsg \<Rightarrow> ('v, 'r) Client \<Rightarrow>
     bool \<times> ('v, 'r) Client" where
  "handleReservationDecision env m digest decision cached c =
    (case decision of
       reservationReplay \<Rightarrow> enqueueTransient (runRequestID m) (ResultMsg cached) c
     | reservationPending \<Rightarrow>
         (case refusedDispatchResult m ''execution_outcome_unknown''
             ''runner restarted after reserving this dispatch; it was not re-executed because prior side effects are unknown'' c of
            (result, c1) \<Rightarrow> enqueueDurableResult env (runRequestID m) digest result c1)
     | reservationConflict \<Rightarrow>
         (case refusedDispatchResult m ''dispatch_id_conflict''
             ''request_id was already bound to different execution facts; action was not executed'' c of
            (result, c1) \<Rightarrow> enqueueTransient (runRequestID m) (ResultMsg result) c1)
     | reservationNew \<Rightarrow> (False, c))"

definition dispatchReservationFailed :: "RunActionMsg \<Rightarrow> ('v, 'r) Client \<Rightarrow> bool \<times> ('v, 'r) Client" where
  "dispatchReservationFailed m c =
    (case refusedDispatchResult m ''dispatch_reservation_failed''
        ''runner could not durably reserve this dispatch; action was not executed'' c of
       (result, c1) \<Rightarrow> enqueueTransient (runRequestID m) (ResultMsg result) c1)"

text \<open>The session ends when an answer could not be queued.\<close>

definition orBacklogFull :: "bool \<times> ('v, 'r) Client \<Rightarrow> session_end option \<times> ('v, 'r) Client" where
  "orBacklogFull r = (if fst r then None else Some BacklogFull, snd r)"

definition undecodableReason :: string where "undecodableReason = ''dispatch_undecodable''"

definition undecodableDetail :: string where
  "undecodableDetail = undecodableReason @ '': message did not decode as a valid run_action; nothing was executed''"

definition blankRequest :: "string \<Rightarrow> 'v Request" where
  "blankRequest rid = \<lparr>ControlPlaneRequestID = rid, reqActionID = '''', reqArgs = [], reqReason = '''',
     reqOpts = zeroOpts, RegistrySnapshot = None, reqStreaming = False\<rparr>"

definition refuseUndecodableDispatch :: "string \<Rightarrow> ('v, 'r) Client \<Rightarrow> ('v, 'r) Client" where
  "refuseUndecodableDispatch rid c =
    (if validateRequestID rid \<noteq> None then snd (auditRefusal (blankRequest '''') undecodableDetail c)
     else case auditRefusal (blankRequest rid) undecodableDetail c of (eid, c1) \<Rightarrow>
       if runOf c1 rid \<noteq> None then c1
       else snd (enqueueTransient rid
         (ResultMsg (withLocalAudit (failedDispatchResult rid undecodableReason undecodableDetail) eid)) c1))"

subsection \<open>Starting a run\<close>

definition spawnRun :: "string \<Rightarrow> string \<Rightarrow> RunActionMsg \<Rightarrow> ('v, 'r) Client \<Rightarrow> ('v, 'r) Client" where
  "spawnRun rid digest m c =
    putRun rid ((newRunState rid digest)\<lparr>rsCancel := True\<rparr>)
      (c\<lparr>cliHandlers := (rid, Waiting m) # cliHandlers c\<rparr>)"

text \<open>A dispatch whose cancellation came first gets its result at once.\<close>

definition answerCancelled ::
  "('v, 'r) Env \<Rightarrow> string \<Rightarrow> RunActionMsg \<Rightarrow> ('v, 'r) Client \<Rightarrow> ('v, 'r) Client" where
  "answerCancelled env digest m c =
    (let rid = runRequestID m in
     case recordDispatchCancellation (cliEngine c) (cliJournal c) (requestForDispatch m None False)
         ''cancelled before process start'' of (eid, j) \<Rightarrow>
       finishOn env rid (newRunState rid digest)
         (withLocalAudit (zeroResult\<lparr>resEnvelope := envelope MsgActionResult rid, Status := ''cancelled'',
            ExitCode := -1, ResReason := ''cancelled_before_start''\<rparr>) eid)
         (c\<lparr>cliJournal := j\<rparr>))"

text \<open>From the point where the id is unknown to the log and to the table.\<close>

definition admitRun ::
  "('v, 'r) Env \<Rightarrow> string \<Rightarrow> RunActionMsg \<Rightarrow> ('v, 'r) Client \<Rightarrow> session_end option \<times> ('v, 'r) Client" where
  "admitRun env digest m c0 =
    (let rid = runRequestID m in
     case consumePreCancel rid c0 of (preCanceled, c) \<Rightarrow>
       if \<not> preCanceled \<and> cliMaxConcurrent c \<le> countActiveRuns c then
         (case enqueueTransient rid (ErrorMsg rid ''concurrency_cap_reached'') c of (enqueued, c1) \<Rightarrow>
           (if enqueued then None else Some BacklogFull,
            snd (auditRefusal (requestForDispatch m None False) ''concurrency cap reached'' c1)))
       else if \<not> preCanceled \<and> maxRunStates c \<le> length (cliRuns c) then
         (Some BacklogFull, snd (auditRefusal (requestForDispatch m None False) ''response backlog full'' c))
       else case reserve (envLine env) rid digest (cliRing c) (cliWorld c) of (res, d, w) \<Rightarrow>
         (let c1 = c\<lparr>cliRing := d, cliWorld := w\<rparr> in
          case res of
            Inl e \<Rightarrow> orBacklogFull (dispatchReservationFailed m c1)
          | Inr (decision, cached) \<Rightarrow>
              if decision \<noteq> reservationNew then orBacklogFull (handleReservationDecision env m digest decision cached c1)
              else if preCanceled then (None, answerCancelled env digest m c1)
              else (None, spawnRun rid digest m c1)))"

definition startRun ::
  "('v, 'r) Env \<Rightarrow> RunActionMsg \<Rightarrow> ('v, 'r) Client \<Rightarrow> session_end option \<times> ('v, 'r) Client" where
  "startRun env m c =
    (let rid = runRequestID m in
     case dispatchDigest (hSha (envHost env)) (envArgs env) (envFacts env) m of
       None \<Rightarrow>
         (case refusedDispatchResult m ''dispatch_invalid'' (envDigestError env) c of
            (result, c1) \<Rightarrow> orBacklogFull (enqueueTransient rid (ResultMsg result) c1))
     | Some digest \<Rightarrow>
         if cliClosing c then (Some ContextCanceled, c)
         else if runOf c rid \<noteq> None then (None, c)
         else case inspect rid digest (cliRing c) of
           Inl e \<Rightarrow> orBacklogFull (dispatchReservationFailed m c)
         | Inr (decision, cached) \<Rightarrow>
             if decision \<noteq> reservationNew then orBacklogFull (handleReservationDecision env m digest decision cached c)
             else admitRun env digest m c)"

subsection \<open>Gates\<close>

definition signedIntent :: "RunActionMsg \<Rightarrow> SignedDispatch" where
  "signedIntent m = \<lparr>sdActionID = ActionID m, sdPackRef = PackRef m, sdArgsRaw = ArgsRaw m,
     sdReason = RunReason m, sdOperationID = OperationID m\<rparr>"

text \<open>The refusal of the signature gate (code and sentence), if any.\<close>

definition signatureGate ::
  "('v, 'r) Env \<Rightarrow> RunActionMsg \<Rightarrow> ('v, 'r) Client \<Rightarrow> (string \<times> string) option \<times> ('v, 'r) Client" where
  "signatureGate env m c =
    (case cliVerifier c of
       None \<Rightarrow> (None, c)
     | Some v \<Rightarrow>
         if RunAttestation m \<noteq> None \<and> hasOverrides (RunOptions m) then
           (Some (''intent_mismatch'', ''signed MCP dispatches cannot override action execution limits''), c)
         else (case Check (envCrypto env) (envNonceLine env) v (signedIntent m) (RunAttestation m)
             (envNow env) (envLater env) (cliNonces c) (cliNonceDisk c) of (dec, s, d) \<Rightarrow>
           (if Allowed dec then None else Some (Code dec, envSayDetail env (Detail dec)),
            c\<lparr>cliNonces := s, cliNonceDisk := d\<rparr>)))"

text \<open>The pack that does not match: its id, what was expected, what was found, and whether the
  runner advertises itself again.\<close>

definition trustGate ::
  "('v, 'r) Env \<Rightarrow> RunActionMsg \<Rightarrow> 'v Registry \<Rightarrow> (string \<times> string \<times> string \<times> bool) option" where
  "trustGate env m reg =
    (case actionOf reg (ActionID m) of
       None \<Rightarrow> None
     | Some act \<Rightarrow>
         if PackID act = '''' then None
         else (case packOf reg (PackID act) of
            None \<Rightarrow> Some (PackID act, ExpectedPackHash m, ''pack_missing'', False)
          | Some pack \<Rightarrow>
              (case recomputePackHash (hSha (envHost env)) (hReadFile (envHost env)) reg (PackID act) of
                 Inl e \<Rightarrow> Some (PackID act, ExpectedPackHash m, ''rehash_failed:'' @ envSayPack env e, False)
               | Inr hash \<Rightarrow>
                   if hash \<noteq> ExpectedPackHash m then
                     Some (PackID act, (if trimSpace (ExpectedPackHash m) = '''' then ''<missing>'' else ExpectedPackHash m),
                       hash, True)
                   else (let gotRef = packID pack @ ''@'' @ packVersion pack @ ''/'' @ hash in
                     if PackRef m \<noteq> '''' \<and> gotRef \<noteq> PackRef m then Some (PackID act, PackRef m, gotRef, True)
                     else None))))"


subsection \<open>A run\<close>

definition endHandler :: "string \<Rightarrow> ('v, 'r) Client \<Rightarrow> ('v, 'r) Client" where
  "endHandler rid c = c\<lparr>cliHandlers := removeKey rid (cliHandlers c)\<rparr>"

text \<open>A refusal by a gate: recorded, and the run's terminal result.\<close>

definition refuseRun ::
  "('v, 'r) Env \<Rightarrow> runState \<Rightarrow> RunActionMsg \<Rightarrow> string \<Rightarrow> string \<Rightarrow> string \<Rightarrow> string \<Rightarrow> ('v, 'r) Client \<Rightarrow>
     ('v, 'r) Client" where
  "refuseRun env s m status reason err detail c =
    (let rid = runRequestID m in
     case auditRefusal (requestForDispatch m None False) detail c of (eid, c1) \<Rightarrow>
       finishOn env rid s
         (withLocalAudit (zeroResult\<lparr>resEnvelope := envelope MsgActionResult rid, Status := status,
            ExitCode := -1, ResError := err, ResReason := reason\<rparr>) eid) c1)"

definition refuseSignature ::
  "('v, 'r) Env \<Rightarrow> runState \<Rightarrow> RunActionMsg \<Rightarrow> string \<Rightarrow> string \<Rightarrow> ('v, 'r) Client \<Rightarrow> ('v, 'r) Client" where
  "refuseSignature env s m code detail c =
    refuseRun env s m ''signature_invalid'' code (''refused: '' @ detail) (''signature refused: '' @ code) c"

definition emitPackMismatch ::
  "('v, 'r) Env \<Rightarrow> runState \<Rightarrow> RunActionMsg \<Rightarrow> string \<Rightarrow> string \<Rightarrow> string \<Rightarrow> ('v, 'r) Client \<Rightarrow> ('v, 'r) Client" where
  "emitPackMismatch env s m pid expected got c =
    (let detail = envSayMismatch env pid expected got in
     refuseRun env s m ''pack_hash_mismatch'' ''pack_hash_mismatch'' detail detail c)"

text \<open>The recovery from a panic of the handler.\<close>

definition recoverPanic ::
  "('v, 'r) Env \<Rightarrow> runState \<Rightarrow> RunActionMsg \<Rightarrow> ('v, 'r) Client \<Rightarrow> ('v, 'r) Client" where
  "recoverPanic env s m c =
    (if rsFinished s then c
     else case recordExecutionFailure (cliEngine c) (cliJournal c) (requestForDispatch m None False)
         ''runner recovered an internal dispatch panic'' of (eid, j) \<Rightarrow>
       finishOn env (runRequestID m) s
         (withLocalAudit (failedDispatchResult (runRequestID m) ''engine_panic''
            ''the runner hit an internal error handling this action'') eid) (c\<lparr>cliJournal := j\<rparr>))"

text \<open>\<open>handleRun\<close> up to the end of \<open>Engine.Run\<close>; the flag says whether it was entered.\<close>

definition enterEngine ::
  "('v, 'r) Env \<Rightarrow> runState \<Rightarrow> RunActionMsg \<Rightarrow> 'v Registry \<Rightarrow> ('v, 'r) Client \<Rightarrow> ('v, 'r) Client" where
  "enterEngine env s m reg c =
    (let rid = runRequestID m; s1 = markRunStarted s in
     case engineRun (envHost env) (cliEngine c) (cliJournal c) (requestForDispatch m (Some reg) True) of
       None \<Rightarrow> endHandler rid (recoverPanic env s1 m c)
     | Some report \<Rightarrow>
         putRun rid s1 (c\<lparr>cliJournal := rpJournal report,
           cliHandlers := (rid, Executing m (rpProgress report) (rpResult report))
             # removeKey rid (cliHandlers c)\<rparr>))"

definition gateRun ::
  "('v, 'r) Env \<Rightarrow> runState \<Rightarrow> RunActionMsg \<Rightarrow> ('v, 'r) Client \<Rightarrow> bool \<times> ('v, 'r) Client" where
  "gateRun env s m c =
    (let rid = runRequestID m in
     case signatureGate env m c of
       (Some (code, detail), c1) \<Rightarrow> (False, endHandler rid (refuseSignature env s m code detail c1))
     | (None, c1) \<Rightarrow>
         (case engRegistry (cliEngine c1) of
            None \<Rightarrow> (False, endHandler rid (recoverPanic env s m c1))
          | Some reg \<Rightarrow>
              (case trustGate env m reg of
                 Some (pid, expected, got, again) \<Rightarrow>
                   (let c2 = emitPackMismatch env s m pid expected got c1 in
                    (False, endHandler rid (if again then c2\<lparr>cliReadvertise := True\<rparr> else c2)))
               | None \<Rightarrow> (True, enterEngine env s m reg c1))))"

text \<open>Shipping one piece of output, and the result.\<close>

definition streamName :: "bool \<Rightarrow> string" where
  "streamName isOut = (if isOut then ''stdout'' else ''stderr'')"

definition shipChunk ::
  "runState \<Rightarrow> RunActionMsg \<Rightarrow> bool \<times> string \<Rightarrow> (bool \<times> string) list \<Rightarrow> EngineResult \<Rightarrow> ('v, 'r) Client \<Rightarrow>
     ('v, 'r) Client option" where
  "shipChunk s m chunk chunks res c =
    (let rid = runRequestID m in
     map_option (\<lambda>s'. putRun rid s' (c\<lparr>cliHandlers :=
        (rid, Executing m chunks res) # removeKey rid (cliHandlers c)\<rparr>))
       (enqueueProgress (cliMaxPending c) s rid (streamName (fst chunk)) (snd chunk)))"

definition resultOf :: "runState \<Rightarrow> RunActionMsg \<Rightarrow> EngineResult \<Rightarrow> ActionResultMsg" where
  "resultOf s m res =
    (case boundExecutedCommand (engExecutedCommand res) of (cmd, short) \<Rightarrow>
     \<lparr>resEnvelope = envelope MsgActionResult (runRequestID m), Status = engStatus res,
      ExitCode = engExitCode res, DurationMS = engDurationMS res, TimedOut = engTimedOut res,
      EmittedStdoutBytes = engStdoutBytes res, EmittedStderrBytes = engStderrBytes res,
      ProgressChunks = int (progressSeq s), DroppedProgressChunks = int (droppedChunks s),
      TruncatedOut = engTruncatedOut res, TruncatedErr = engTruncatedErr res, ResReason = engReason res,
      ResError = engError res, StructuredOutput = engStructuredOutput res, EventID = engEventID res,
      LocalAuditFailed = engLocalAuditFailed res, ExecutedCommand = cmd, ExecutedCommandTruncated = short\<rparr>)"

definition finishHandler ::
  "('v, 'r) Env \<Rightarrow> runState \<Rightarrow> RunActionMsg \<Rightarrow> EngineResult \<Rightarrow> ('v, 'r) Client \<Rightarrow> ('v, 'r) Client" where
  "finishHandler env s m res c =
    endHandler (runRequestID m) (finishOn env (runRequestID m) s (resultOf s m res) c)"

subsection \<open>Cancelling, acknowledging, resending\<close>

definition cancelRun :: "string \<Rightarrow> ('v, 'r) Client \<Rightarrow> ('v, 'r) Client" where
  "cancelRun rid c =
    (case runOf c rid of
       Some s \<Rightarrow> if rsCancel s then putRun rid (s\<lparr>rsCancelled := True\<rparr>) c else c
     | None \<Rightarrow> if containsId rid (cliRing c) then c else rememberPreCancel rid c)"

definition ackRun :: "('v, 'r) Env \<Rightarrow> string \<Rightarrow> ('v, 'r) Client \<Rightarrow> ('v, 'r) Client" where
  "ackRun env rid c =
    (if (case runOf c rid of Some s \<Rightarrow> \<not> drained s | None \<Rightarrow> False) then c
     else case acknowledge (envLine env) rid (cliRing c) (cliWorld c) of (e, d, w) \<Rightarrow>
       let c1 = c\<lparr>cliRing := d, cliWorld := w\<rparr> in
       if e \<noteq> None then c1
       else removeRun rid (c1\<lparr>cliRetried := cliRetried c1 - {rid}\<rparr>))"

definition retryFinalization :: "string \<Rightarrow> ('v, 'r) Client \<Rightarrow> ('v, 'r) Client" where
  "retryFinalization rid c =
    (if rid = '''' then c
     else case unacknowledgedResult rid (cliRing c) of
       None \<Rightarrow> c
     | Some result \<Rightarrow>
         if rid \<in> cliRetried c then c
         else (case enqueueTransient rid (ResultMsg result) c of (enqueued, c1) \<Rightarrow>
           if \<not> enqueued then c1 else c1\<lparr>cliRetried := insert rid (cliRetried c1)\<rparr>))"

definition requeueResult :: "ActionResultMsg \<Rightarrow> ('v, 'r) Client \<Rightarrow> ('v, 'r) Client" where
  "requeueResult result c =
    (let rid = resRequestID result in
     if rid = '''' then c
     else case runOf c rid of
       Some s \<Rightarrow>
         if pending s = [] then putRun rid (s\<lparr>pending := [ResultMsg result], rsFinished := True\<rparr>) c else c
     | None \<Rightarrow> putRun rid ((newRunState rid '''')\<lparr>rsFinished := True, pending := [ResultMsg result]\<rparr>) c)"

definition requeueUnacknowledgedResults :: "('v, 'r) Client \<Rightarrow> ('v, 'r) Client" where
  "requeueUnacknowledgedResults c = foldl (\<lambda>c r. requeueResult r c) c (unacknowledgedResults (cliRing c))"

definition requeueActiveStarts :: "('v, 'r) Client \<Rightarrow> ('v, 'r) Client" where
  "requeueActiveStarts c =
    c\<lparr>cliRuns := map (\<lambda>(rid, s). (rid, case requeueActiveStart s of None \<Rightarrow> s | Some s' \<Rightarrow> s')) (cliRuns c)\<rparr>"

text \<open>One run's share of \<open>drainOnce\<close>: the messages handed to the connection, of which the last
  may have failed.  \<open>sent\<close> is the number of messages sent before a failure, if one occurs.\<close>

definition drainRun ::
  "('v, 'r) Env \<Rightarrow> string \<Rightarrow> runState \<Rightarrow> nat option \<Rightarrow> ('v, 'r) Client \<Rightarrow> outMsg list \<times> ('v, 'r) Client" where
  "drainRun env rid s sent c =
    (case retryTerminalPersistence (envLine env) s (cliRing c) (cliWorld c) of (recovered, s1, d, w) \<Rightarrow>
      (let c1 = c\<lparr>cliRing := d, cliWorld := w\<rparr> in
       case takePending s1 of (msgs, s2) \<Rightarrow>
         (case sent of
            Some i \<Rightarrow>
              if i < length msgs then (take (Suc i) msgs, putRun rid (requeueUnsent (drop i msgs) s2) c1)
              else (msgs, putRun rid s2 c1)
          | None \<Rightarrow> (msgs, if drained s2 then removeRun rid c1 else putRun rid s2 c1))))"

definition shutdownClient :: "('v, 'r) Client \<Rightarrow> ('v, 'r) Client" where
  "shutdownClient c = c\<lparr>cliClosing := True,
     cliRuns := map (\<lambda>(rid, s). (rid, if rsCancel s then s\<lparr>rsCancelled := True\<rparr> else s)) (cliRuns c)\<rparr>"


subsection \<open>Routing\<close>

text \<open>The two texts of an error or shutdown message, and the token prefix; \<open>None\<close> when the body does
  not decode.\<close>

definition bodyTexts :: "(nat \<Rightarrow> nat) \<Rightarrow> string \<Rightarrow> string \<Rightarrow> string \<Rightarrow> (string \<times> string) option" where
  "bodyTexts fld raw a b =
    (case unmarshalFields raw of
       Fields kvs0 \<Rightarrow>
         (let kvs = foldNames fld [''type'', ''protocol_version'', ''request_id'', a, b] kvs0 in
          Option.bind (readString kvs a) (\<lambda>x. map_option (Pair x) (readString kvs b)))
     | NullValue \<Rightarrow> Some ('''', '''')
     | NotObject \<Rightarrow> None)"

definition terminalShutdownReason :: "string \<Rightarrow> bool" where
  "terminalShutdownReason reason \<longleftrightarrow> reason \<in> {''runner_revoked'', ''runner_version_unsupported''}"

definition knownTypes :: "string list" where
  "knownTypes = [MsgRunAction, MsgCancel, MsgAckResult, MsgError, MsgShutdown, MsgRefreshCredentials]"

text \<open>The envelope of a frame that reaches the switch over message types, or how it ended before.\<close>

datatype routing = Unreadable | WrongVersion Envelope | AliasedName | Routed Envelope

definition routeFrame :: "(nat \<Rightarrow> nat) \<Rightarrow> string \<Rightarrow> routing" where
  "routeFrame fld raw =
    (case peekEnvelope fld raw of
       None \<Rightarrow> Unreadable
     | Some e \<Rightarrow>
         if EnvType e \<in> set knownTypes \<and> EnvVersion e \<noteq> ProtocolVersion then WrongVersion e
         else if rejectInboundAliases fld raw (EnvType e) \<noteq> None then AliasedName
         else Routed e)"

definition noteShutdown :: "string \<Rightarrow> string \<Rightarrow> ('v, 'r) Client \<Rightarrow> ('v, 'r) Client" where
  "noteShutdown reason message c = c\<lparr>cliNotes := cliNotes c @ [(reason, message)]\<rparr>"

definition handleError :: "('v, 'r) Env \<Rightarrow> Envelope \<Rightarrow> string \<Rightarrow> ('v, 'r) Client \<Rightarrow> ('v, 'r) Client" where
  "handleError env e raw c =
    (if EnvRequestID e \<noteq> '''' \<and> validateRequestID (EnvRequestID e) \<noteq> None then c
     else case bodyTexts (envFold env) raw ''code'' ''message'' of
       None \<Rightarrow> c
     | Some (code, message) \<Rightarrow> if code = ''finalize_failed'' then retryFinalization (EnvRequestID e) c else c)"

definition handleShutdown ::
  "('v, 'r) Env \<Rightarrow> string \<Rightarrow> ('v, 'r) Client \<Rightarrow> session_end option \<times> ('v, 'r) Client" where
  "handleShutdown env raw c =
    (case bodyTexts (envFold env) raw ''reason'' ''message'' of
       None \<Rightarrow> (None, c)
     | Some (reason, message) \<Rightarrow>
         if terminalShutdownReason reason then (Some (TerminalShutdown reason), noteShutdown reason message c)
         else (None, c))"

definition handleRotation ::
  "('v, 'r) Env \<Rightarrow> string \<Rightarrow> ('v, 'r) Client \<Rightarrow> session_end option \<times> ('v, 'r) Client" where
  "handleRotation env raw c =
    (if validateUniqueJSON raw \<noteq> None then (None, c)
     else case bodyTexts (envFold env) raw ''token_prefix'' ''token_prefix'' of
       None \<Rightarrow> (None, c)
     | Some (pre, same) \<Rightarrow> (if envRotate env pre then Some RotationRequested else None, c))"

text \<open>The switch: the request id that \<open>ackRun\<close> is called with comes from \<open>ackOf\<close>.\<close>

definition ackOf :: "(nat \<Rightarrow> nat) \<Rightarrow> string \<Rightarrow> string option" where
  "ackOf fld raw =
    (case routeFrame fld raw of
       Routed e \<Rightarrow>
         if EnvType e = MsgAckResult \<and> validateRequestID (EnvRequestID e) = None then Some (EnvRequestID e) else None
     | _ \<Rightarrow> None)"

definition dispatchFrame ::
  "('v, 'r) Env \<Rightarrow> string \<Rightarrow> ('v, 'r) Client \<Rightarrow> session_end option \<times> ('v, 'r) Client" where
  "dispatchFrame env raw c =
    (case routeFrame (envFold env) raw of
       Unreadable \<Rightarrow> (None, refuseUndecodableDispatch '''' c)
     | WrongVersion e \<Rightarrow>
         (Some (VersionUnsupported e), noteShutdown ''protocol_version_unsupported'' (envSayVersion env e) c)
     | AliasedName \<Rightarrow> (None, c)
     | Routed e \<Rightarrow>
         if EnvType e = MsgRunAction then
           (case unmarshalRunAction (envFold env) raw of
              Inl err \<Rightarrow> (None, refuseUndecodableDispatch (EnvRequestID e) c)
            | Inr m \<Rightarrow> startRun env m c)
         else if EnvType e = MsgCancel then
           (None, if validateRequestID (EnvRequestID e) \<noteq> None then c else cancelRun (EnvRequestID e) c)
         else if EnvType e = MsgAckResult then
           (None, case ackOf (envFold env) raw of None \<Rightarrow> c | Some rid \<Rightarrow> ackRun env rid c)
         else if EnvType e = MsgError then (None, handleError env e raw c)
         else if EnvType e = MsgRefreshCredentials then handleRotation env raw c
         else if EnvType e = MsgShutdown then handleShutdown env raw c
         else (None, c))"

subsection \<open>Life\<close>

text \<open>Faults the next calls on the log and on the nonce journal meet.\<close>

definition meets :: "fault list \<Rightarrow> fault list \<Rightarrow> ('v, 'r) Client \<Rightarrow> ('v, 'r) Client" where
  "meets sc nsc c = c\<lparr>cliWorld := (cliWorld c)\<lparr>script := sc\<rparr>,
     cliNonceDisk := (cliNonceDisk c)\<lparr>ndScript := nsc\<rparr>\<rparr>"

text \<open>One step of the client.  A label says that \<open>Engine.Run\<close> was entered for an id, that the
  control plane acknowledged an id, or nothing of the two.  Every step may meet its own environment
  and faults.  A crash ends every handler; the next process opens the log again.\<close>

inductive clientStep ::
  "(string \<Rightarrow> string) \<Rightarrow> logEvent \<Rightarrow> ('v, 'r) Client \<Rightarrow> ('v, 'r) Client \<Rightarrow> bool" for sha where
  frame:
    "dispatchFrame env raw (meets sc nsc c) = (out, c') \<Longrightarrow>
     clientStep sha (case ackOf (envFold env) raw of Some rid \<Rightarrow> Acked rid | None \<Rightarrow> Quiet) c c'"
| gated:
    "map_of (cliHandlers c) rid = Some (Waiting m) \<Longrightarrow> runOf c rid = Some s \<Longrightarrow>
     gateRun env s m (meets sc nsc c) = (entered, c') \<Longrightarrow>
     clientStep sha (if entered then Started rid else Quiet) c c'"
| shipped:
    "map_of (cliHandlers c) rid = Some (Executing m (chunk # chunks) res) \<Longrightarrow> runOf c rid = Some s \<Longrightarrow>
     shipChunk s m chunk chunks res c = Some c' \<Longrightarrow> clientStep sha Quiet c c'"
| ended:
    "map_of (cliHandlers c) rid = Some (Executing m [] res) \<Longrightarrow> runOf c rid = Some s \<Longrightarrow>
     finishHandler env s m res (meets sc nsc c) = c' \<Longrightarrow> clientStep sha Quiet c c'"
| drained:
    "runOf c rid = Some s \<Longrightarrow> drainRun env rid s sent (meets sc nsc c) = (outs, c') \<Longrightarrow>
     clientStep sha Quiet c c'"
| connected:
    "clientStep sha Quiet c (requeueActiveStarts (requeueUnacknowledgedResults c))"
| reloaded:
    "clientStep sha Quiet c (setVerifier v (c\<lparr>cliEngine := e\<rparr>))"
| closed:
    "clientStep sha Quiet c (shutdownClient c)"
| restarted:
    "hostCrash (storePath (cliRing c)) (cliWorld c) w \<Longrightarrow> storePath (cliRing c) \<noteq> legacy \<Longrightarrow>
     storePath (cliRing c) \<noteq> legacy @ ''.migrated'' \<Longrightarrow>
     clientStep sha Quiet c (newClient sha bl mc mp rs (storePath (cliRing c)) legacy e v ns nd j w)"

inductive_cases clientStepE: "clientStep sha l c c'"

end
