(* ===== verification/Client_Proofs.thy ===== *)
theory Client_Proofs
  imports Client
begin

text \<open>
  What the client guarantees.  The invariant ties the table of handlers to the table of runs and to
  the durable log: every handler owns an unfinished run and a reservation, and the handlers are
  within the concurrency cap.  With it the whole client meets the contract \<open>owing_log\<close> of the
  dispatch log, now for entering \<open>Engine.Run\<close> in place of granting a reservation.
\<close>

subsection \<open>What the log does to other ids\<close>

definition reservedAll :: "dedupRing \<Rightarrow> string set \<Rightarrow> bool" where
  "reservedAll d H \<longleftrightarrow> (unusableLocked d = None \<longrightarrow> (\<forall>k \<in> H. stateOf (ringRecords d) k = dispatchReserved))"

text \<open>A completed record holds a valid result of its own id.\<close>

definition recordOK :: "dedupEntry \<Rightarrow> bool" where
  "recordOK e \<longleftrightarrow> (State e = dispatchCompleted \<longrightarrow> validActionResult (EntResult e) (EntRequestID e))"

definition resultsOK :: "dedupRing \<Rightarrow> bool" where
  "resultsOK d \<longleftrightarrow> (unusableLocked d = None \<longrightarrow> (\<forall>e \<in> ran (ringRecords d). recordOK e))"

lemma valid_recordOK: "validDedupEntry e \<Longrightarrow> recordOK e"
  by (auto simp: validDedupEntry_def recordOK_def split: if_splits)

lemma reservedAll_mono: "reservedAll d H \<Longrightarrow> H' \<subseteq> H \<Longrightarrow> reservedAll d H'"
  by (auto simp: reservedAll_def)

lemma apply_recordOK:
  assumes "\<forall>e \<in> ran records. recordOK e" and "validateDispatchTransition records t = None"
    and "applyDispatchTransition keys records t = (keys', records')"
  shows "\<forall>e \<in> ran records'. recordOK e"
  using assms valid_recordOK validate_None_valid [OF assms(2)]
  by (auto simp: apply_eq ran_def split: if_splits)

text \<open>A commit changes the record of its own id, and may forget an acknowledged one.\<close>

lemma commit_held:
  assumes c: "commitTransition bl t d w = (r, d', w')" and inv: "ringInv sha strict P d w"
    and u: "unusableLocked d = None"
    and na: "\<not> (State (Entry t) = dispatchAcknowledged \<and> EntRequestID (Entry t) \<in> P)"
    and held: "reservedAll d H" "resultsOK d"
  shows "reservedAll d' (H - {EntRequestID (Entry t)}) \<and> resultsOK d'
    \<and> (r = None \<and> State (Entry t) = dispatchReserved \<longrightarrow> reservedAll d' (insert (EntRequestID (Entry t)) H))"
proof -
  note i = commitTransition_inv [OF c inv u na]
  show ?thesis
  proof (cases r)
    case None
    with i have v: "validateDispatchTransition (ringRecords d) t = None"
      and a: "applyDispatchTransition (ringKeys d) (ringRecords d) t = (ringKeys d', ringRecords d')" by auto
    have st: "stateOf (ringRecords d') k = stateOf (ringRecords d) k"
      if "k \<noteq> EntRequestID (Entry t)" "stateOf (ringRecords d) k = dispatchReserved" for k
      using that validate_None_evict [OF v] by (auto simp: apply_stateOf [OF a])
    have "\<forall>e \<in> ran (ringRecords d'). recordOK e"
      using apply_recordOK [OF _ v a] held(2) u by (simp add: resultsOK_def)
    moreover have "stateOf (ringRecords d') (EntRequestID (Entry t)) = State (Entry t)"
      by (simp add: apply_stateOf [OF a])
    moreover have "stateOf (ringRecords d') k = dispatchReserved"
      if "k \<in> H" "k \<noteq> EntRequestID (Entry t) \<or> State (Entry t) = dispatchReserved" for k
      using that held(1) u st [of k] by (cases "k = EntRequestID (Entry t)") (auto simp: apply_stateOf [OF a] reservedAll_def)
    ultimately show ?thesis
      by (auto simp: reservedAll_def resultsOK_def)
  next
    case (Some e)
    with i have s: "unusableLocked d' = None \<longrightarrow> sameMem d d'" by simp
    with held u Some show ?thesis by (auto simp: reservedAll_def resultsOK_def sameMem_def)
  qed
qed

lemma reserve_held:
  assumes r: "reserve bl rid digest d w = (res, d', w')" and inv: "ringInv sha strict P d w"
    and held: "reservedAll d H" "resultsOK d"
  shows "reservedAll d' (H - (if ringRecords d rid = None then {rid} else {})) \<and> resultsOK d'
    \<and> (\<forall>x. res = Inr (reservationNew, x) \<longrightarrow> reservedAll d' (insert rid H))"
proof (cases "unusableLocked d = None \<and> validDispatchDigest digest \<and> ringRecords d rid = None")
  case False
  then have "d' = d \<and> (\<forall>x. res \<noteq> Inr (reservationNew, x))"
    using r by (auto simp: reserve_def classifyLocked_def split: option.splits if_splits)
  with held reservedAll_mono [OF held(1)] show ?thesis by auto
next
  case True
  define evict where "evict = (if ringMax d \<le> length (ringKeys d) then oldestAcknowledged (ringRecords d) (ringKeys d) else '''')"
  show ?thesis
  proof (cases "ringMax d \<le> length (ringKeys d) \<and> evict = ''''")
    case full: True
    then have "d' = d \<and> (\<forall>x. res \<noteq> Inr (reservationNew, x))"
      using r True by (auto simp: reserve_def classifyLocked_def evict_def)
    with held reservedAll_mono [OF held(1)] show ?thesis by auto
  next
    case False
    let ?t = "\<lparr>Version = 1, Entry = newReservation rid digest, Evict = evict\<rparr>"
    obtain e d1 w1 where c: "commitTransition bl ?t d w = (e, d1, w1)" by (metis prod_cases3)
    have o: "(res, d', w') = (case e of Some e \<Rightarrow> (Inl e, d1, w1) | None \<Rightarrow> (Inr (reservationNew, zeroResult), d1, w1))"
      using r True False c by (cases e) (auto simp: reserve_def classifyLocked_def evict_def Let_def split: if_splits)
    have t: "EntRequestID (Entry ?t) = rid" "State (Entry ?t) = dispatchReserved" by (simp_all add: newReservation_def)
    from commit_held [OF c inv _ _ held] True o t show ?thesis by (cases e) auto
  qed
qed

lemma complete_held:
  assumes c: "Dispatch_Store.complete bl rid digest result d w = (r, d', w')" and inv: "ringInv sha strict P d w"
    and held: "reservedAll d H" "resultsOK d"
  shows "reservedAll d' (H - {rid}) \<and> resultsOK d'"
proof -
  have mono: "reservedAll d (H - {rid})" using reservedAll_mono [OF held(1)] by blast
  consider "d' = d" | e where "unusableLocked d = None" "ringRecords d rid = Some e"
    "commitTransition bl \<lparr>Version = 1, Entry = e\<lparr>State := dispatchCompleted, EntResult := result\<rparr>,
       Evict = ''''\<rparr> d w = (r, d', w')"
    using c unfolding Dispatch_Store.complete_def by (auto split: option.splits if_splits)
  then show ?thesis
  proof cases
    case 2
    have "EntRequestID e = rid" using inv 2(1,2) by (auto simp: ringInv_def memOK_def wfEntries_def)
    with commit_held [OF 2(3) inv 2(1) _ held] show ?thesis by simp
  qed (use held mono in simp)
qed

text \<open>An acknowledgement of a reserved id changes nothing.\<close>

lemma acknowledge_held:
  assumes a: "acknowledge bl rid d w = (r, d', w')" and inv: "ringInv sha strict P d w"
    and held: "reservedAll d H" "resultsOK d"
  shows "reservedAll d' H \<and> resultsOK d' \<and> (rid \<in> H \<longrightarrow> d' = d \<and> w' = w)"
proof -
  consider "d' = d" "w' = w" | e where "unusableLocked d = None" "ringRecords d rid = Some e" "State e = dispatchCompleted"
    "commitTransition bl \<lparr>Version = 1, Entry = e\<lparr>State := dispatchAcknowledged\<rparr>, Evict = ''''\<rparr> d w = (r, d', w')"
    using a unfolding acknowledge_def by (auto split: option.splits dispatchState.splits)
  then show ?thesis
  proof cases
    case 2
    then have n: "rid \<notin> H" using held(1) by (auto simp: reservedAll_def stateOf_def)
    have e: "EntRequestID e = rid" using inv 2(1,2) by (auto simp: ringInv_def memOK_def wfEntries_def)
    have "ringInv sha strict (P - {rid}) d w" using ringInv_mono [OF inv] by blast
    from commit_held [OF 2(4) this 2(1) _ held] n e show ?thesis by simp
  qed (use held in simp)
qed

lemma unacknowledged_not_reserved:
  assumes "r \<in> set (unacknowledgedResults d)" and "ringInv sha strict P d w"
    and "reservedAll d H" and "resultsOK d"
  shows "resRequestID r \<notin> H"
proof -
  have u: "unusableLocked d = None" using assms(1) by (auto simp: unacknowledgedResults_def split: if_splits)
  have mf: "set (List.map_filter f xs) = {y. \<exists>x \<in> set xs. f x = Some y}" for f :: "string \<Rightarrow> ActionResultMsg option" and xs
    by (force simp: List.map_filter_def)
  from assms(1) u obtain k e where k: "ringRecords d k = Some e" "State e = dispatchCompleted" "r = EntResult e"
    by (auto simp: unacknowledgedResults_def mf split: option.splits if_splits)
  have "EntRequestID e = k" using assms(2) u k(1) by (auto simp: ringInv_def memOK_def wfEntries_def)
  moreover have "recordOK e" using assms(4) u k(1) by (auto simp: resultsOK_def intro: ranI)
  ultimately have "resRequestID r = k" using k by (auto simp: recordOK_def validActionResult_def split: if_splits)
  with k assms(3) u show ?thesis by (auto simp: reservedAll_def stateOf_def)
qed

lemma unacknowledgedResult_not_reserved:
  "unacknowledgedResult rid d = Some r \<Longrightarrow> reservedAll d H \<Longrightarrow> rid \<notin> H"
  by (auto simp: unacknowledgedResult_def reservedAll_def stateOf_def split: if_splits option.splits)

subsection \<open>Loading a log\<close>

lemma scanLine_recordOK:
  assumes "scanLine sha n l s = Inr s'" and "\<forall>e \<in> ran (scRecords s). recordOK e"
  shows "\<forall>e \<in> ran (scRecords s'). recordOK e"
proof (cases "\<exists>t. fst l = TransitionLine t")
  case True
  then obtain t where t: "fst l = TransitionLine t" by blast
  obtain k r where kr: "applyDispatchTransition (scKeys s) (scRecords s) t = (k, r)" by force
  with assms t have "validateDispatchTransition (scRecords s) t = None" "scRecords s' = r"
    by (auto simp: scanLine_def Let_def split: if_splits)
  with apply_recordOK [OF assms(2) _ kr] show ?thesis by simp
next
  case False
  with assms(1) obtain e lg where e: "decodeDedupEntry sha (fst l) = Some (e, lg)"
    and s': "scRecords s' = (scRecords s)(EntRequestID e \<mapsto> e)"
    by (auto simp: scanLine_def Let_def split: logLine.splits if_splits option.splits)
  have "recordOK e" using e valid_recordOK
    by (auto simp: decodeDedupEntry_def decodeLegacyDedupEntry_def recordOK_def
        split: logLine.splits if_splits)
  with assms(2) show ?thesis by (auto simp: s' ran_def)
qed

lemma scanLines_recordOK:
  "scanLines sha n ls s = Inr s' \<Longrightarrow> \<forall>e \<in> ran (scRecords s). recordOK e \<Longrightarrow>
     \<forall>e \<in> ran (scRecords s'). recordOK e"
proof (induction sha n ls s rule: scanLines.induct)
  case (2 sha n l ls s)
  from "2.prems"(1) obtain s1 where s1: "scanLine sha n l s = Inr s1" "scanLines sha (Suc n) ls s1 = Inr s'"
    by (auto simp: result_simps)
  from "2.IH" [OF s1(1,2) scanLine_recordOK [OF s1(1) "2.prems"(2)]] show ?case .
qed simp

text \<open>What was read, evicted to capacity.\<close>

lemma evictOldest_ran:
  "evictOldestAcknowledged records ks = Some (ks', r) \<Longrightarrow> ran r \<subseteq> ran records"
  by (induction ks arbitrary: ks') (auto simp: ran_def split: if_splits)

lemma evictToMax_ran:
  "evictToMax mx keys records = (ks, rs) \<Longrightarrow> ran rs \<subseteq> ran records"
proof (induction mx keys records rule: evictToMax.induct)
  case (1 mx keys records)
  note step = "1.prems" [unfolded evictToMax.simps [of mx keys]]
  show ?case
  proof (cases "mx < length keys \<and> evictOldestAcknowledged records keys \<noteq> None")
    case True
    then obtain k r where kr: "evictOldestAcknowledged records keys = Some (k, r)" by force
    with step True have "evictToMax mx k r = (ks, rs)" by simp
    from "1.IH" [OF conjunct1 [OF True] kr refl this] evictOldest_ran [OF kr] show ?thesis by blast
  next
    case False
    then show ?thesis
      by (cases "evictOldestAcknowledged records keys") (use step in \<open>auto split: if_splits\<close>)
  qed
qed

definition freshRing :: "dedupRing \<Rightarrow> bool" where
  "freshRing d \<longleftrightarrow> ringKeys d = [] \<and> ringRecords d = Map.empty \<and> unusableLocked d = None"

lemma scanned_recordOK:
  assumes "scanLines sha n ls scanStart = Inr s" and "freshRing d"
  shows "\<forall>e \<in> ran (ringRecords (withEntries (entriesOf (scKeys s) (scRecords s)) d)). recordOK e"
  using putEntries_entriesOf [OF scanLines_wf [OF assms(1) scanStart_wf]] assms(2)
    scanLines_recordOK [OF assms(1)]
  by (simp add: withEntries_fields freshRing_def scanStart_def)

lemma evictRing_recordOK:
  "\<forall>e \<in> ran (ringRecords d). recordOK e \<Longrightarrow> \<forall>e \<in> ran (ringRecords (evictRing d)). recordOK e"
  using evictToMax_ran [of "ringMax d" "ringKeys d" "ringRecords d"]
  by (auto simp: evictRing_def split: prod.splits)

lemma writeStore_records: "writeStore bl d w = (r, d', w') \<Longrightarrow> ringRecords d' = ringRecords d"
  by (auto simp: writeStore_def Let_def split: prod.splits sum.splits option.splits if_splits)

lemma resultsOK_failedWrite [simp]: "resultsOK (failedWrite e d)"
  by (simp add: resultsOK_def)

lemma resultsOK_records: "\<forall>e \<in> ran (ringRecords d). recordOK e \<Longrightarrow> resultsOK d"
  by (simp add: resultsOK_def)

lemma adoptLegacyStore_resultsOK:
  assumes a: "adoptLegacyStore sha bl d w = (d', w')" and f: "freshRing d"
  shows "resultsOK d'"
proof -
  obtain r w1 where rd: "readDispatchStore sha (legacyPath d) w = (r, w1)" by force
  have base: "resultsOK (d\<lparr>loadErr := x, loadErrPath := y\<rparr>)" "resultsOK d" for x y
    using f by (simp_all add: freshRing_def resultsOK_records)
  show ?thesis
  proof (cases r)
    case (Inl er)
    with a rd base show ?thesis by (auto simp: adoptLegacyStore_def split: if_splits)
  next
    case (Inr log)
    obtain fl s where s: "scanLines sha 1 (fileLines (fl :: DispatchFile)) scanStart = Inr s"
      "stEntries log = entriesOf (scKeys s) (scRecords s)"
      by (rule readDispatchStore_Inr [OF rd [unfolded Inr]]) blast
    obtain e3 d3 w3 where ws: "writeStore bl (evictRing (withEntries (stEntries log) d)) w1 = (e3, d3, w3)"
      by (metis prod_cases3)
    have "\<forall>e \<in> ran (ringRecords d3). recordOK e"
      using evictRing_recordOK [OF scanned_recordOK [OF s(1) f]] s(2) writeStore_records [OF ws] by simp
    with a rd Inr ws base show ?thesis
      by (cases e3) (auto simp: adoptLegacyStore_def resultsOK_records split: if_splits)
  qed
qed

lemma newDedupRing_resultsOK:
  assumes n: "newDedupRing sha bl mx p legacy w = (d', w')"
  shows "resultsOK d'"
proof -
  let ?d = "emptyRing mx p legacy"
  have f: "freshRing ?d" and p: "storePath ?d = p" by (simp_all add: freshRing_def emptyRing_def unusableLocked_def)
  obtain r w1 where rd: "readDispatchStore sha p w = (r, w1)" by force
  have base: "resultsOK (?d\<lparr>loadErr := x, loadErrPath := y\<rparr>)" "resultsOK ?d" for x y
    using f by (simp_all add: freshRing_def resultsOK_records)
  show ?thesis
  proof (cases r)
    case (Inl er)
    with n rd base p adoptLegacyStore_resultsOK [OF _ f] show ?thesis
      by (auto simp: newDedupRing_def load_def split: if_splits)
  next
    case (Inr log)
    obtain fl s where s: "scanLines sha 1 (fileLines (fl :: DispatchFile)) scanStart = Inr s"
      "stEntries log = entriesOf (scKeys s) (scRecords s)"
      by (rule readDispatchStore_Inr [OF rd [unfolded Inr]]) blast
    define d1 where "d1 = (withEntries (stEntries log) ?d)\<lparr>backing := Some (stInfo log),
        needsSnapshot := stNeedsSnapshot log, snapshotBytes := stSnapshotBytes log,
        appendBytes := infoSize (stInfo log) - stSnapshotBytes log, transitionCount := stTransitions log\<rparr>"
    define d3 where "d3 = (evictRing d1)\<lparr>needsSnapshot := needsSnapshot (evictRing d1)
        \<or> length (ringKeys (evictRing d1)) \<noteq> length (ringKeys (withEntries (stEntries log) ?d))\<rparr>"
    have "\<forall>e \<in> ran (ringRecords d1). recordOK e"
      using scanned_recordOK [OF s(1) f] s(2) by (simp add: d1_def)
    from evictRing_recordOK [OF this] have r3: "\<forall>e \<in> ran (ringRecords d3). recordOK e" by (simp add: d3_def)
    have res: "p = '''' \<and> d' = ?d \<or> (d', w') = (if stLegacy log then (case writeStore bl d3 w1 of
        (Some er, d4, w2) \<Rightarrow> (failedWrite (MigrateFailed er) d4, w2) | (None, d4, w2) \<Rightarrow> (d4, w2)) else (d3, w1))"
      using n rd Inr p by (auto simp: newDedupRing_def load_def Let_def d3_def d1_def split: if_splits)
    obtain e4 d4 w4 where ws: "writeStore bl d3 w1 = (e4, d4, w4)" by (metis prod_cases3)
    from res r3 ws writeStore_records [OF ws] base show ?thesis
      by (cases e4) (auto simp: resultsOK_records split: if_splits)
  qed
qed



subsection \<open>The invariant of the client\<close>

declare map_of_eq_Some_iff [simp del] Some_eq_map_of_iff [simp del]

fun handlerID :: "handler \<Rightarrow> string" where
  "handlerID (Waiting m) = runRequestID m"
| "handlerID (Executing m chunks res) = runRequestID m"

definition handling :: "('v, 'r) Client \<Rightarrow> string set" where
  "handling c = fst ` set (cliHandlers c)"

text \<open>The ids whose reservation was granted and whose run has not been entered.\<close>

definition waiting :: "('v, 'r) Client \<Rightarrow> string set" where
  "waiting c = {rid. \<exists>m. (rid, Waiting m) \<in> set (cliHandlers c)}"

text \<open>The tombstones of early cancellations are a bounded queue without repetitions.\<close>

definition tombstonesOK :: "('v, 'r) Client \<Rightarrow> bool" where
  "tombstonesOK c \<longleftrightarrow> set (cliPreCanceledOrder c) = cliPreCanceled c \<and> distinct (cliPreCanceledOrder c)
     \<and> length (cliPreCanceledOrder c) \<le> cliRingSize c \<and> 0 < cliRingSize c"

definition live :: "runState \<Rightarrow> bool" where
  "live s \<longleftrightarrow> \<not> rsFinished s \<and> terminal s = None"

text \<open>Every handler owns an unfinished run of the table, there are no more of them than allowed, and
  every unfinished run has its handler, so no place is lost.\<close>

definition tableOK :: "('v, 'r) Client \<Rightarrow> bool" where
  "tableOK c \<longleftrightarrow> distinct (map fst (cliHandlers c)) \<and> length (cliHandlers c) \<le> cliMaxConcurrent c
     \<and> distinct (map fst (cliRuns c))
     \<and> (\<forall>(rid, s) \<in> set (cliRuns c). rsRequestID s = rid)
     \<and> (\<forall>(rid, h) \<in> set (cliHandlers c). handlerID h = rid)
     \<and> (\<forall>rid \<in> handling c. \<exists>s. runOf c rid = Some s \<and> live s)
     \<and> (\<forall>(rid, s) \<in> set (cliRuns c). rid \<in> handling c \<or> rsFinished s)"

definition clientInv :: "('v, 'r) Client \<Rightarrow> bool" where
  "clientInv c \<longleftrightarrow> tombstonesOK c \<and> tableOK c"

definition clientOwes :: "(string \<Rightarrow> string) \<Rightarrow> ('v, 'r) Client \<Rightarrow> string set \<Rightarrow> bool" where
  "clientOwes sha c P \<longleftrightarrow> clientInv c \<and> P \<inter> waiting c = {}
     \<and> ringInv sha False (P \<union> waiting c) (cliRing c) (cliWorld c)
     \<and> reservedAll (cliRing c) (handling c) \<and> resultsOK (cliRing c)"

lemmas clientOwes_defs =
  clientOwes_def clientInv_def tombstonesOK_def tableOK_def handling_def waiting_def runOf_def

lemma clientOwes_irrelevant [simp]:
  "clientOwes sha (c\<lparr>cliJournal := j\<rparr>) P = clientOwes sha c P"
  "clientOwes sha (c\<lparr>cliNonces := ns, cliNonceDisk := nd\<rparr>) P = clientOwes sha c P"
  "clientOwes sha (c\<lparr>cliNotes := nt\<rparr>) P = clientOwes sha c P"
  "clientOwes sha (c\<lparr>cliVerifier := v\<rparr>) P = clientOwes sha c P"
  "clientOwes sha (c\<lparr>cliEngine := e\<rparr>) P = clientOwes sha c P"
  "clientOwes sha (c\<lparr>cliRetried := rt\<rparr>) P = clientOwes sha c P"
  "clientOwes sha (c\<lparr>cliReadvertise := b\<rparr>) P = clientOwes sha c P"
  "clientOwes sha (c\<lparr>cliClosing := b\<rparr>) P = clientOwes sha c P"
  by (simp_all add: clientOwes_defs)

lemma runOf_irrelevant [simp]:
  "runOf (c\<lparr>cliJournal := j\<rparr>) rid = runOf c rid"
  "runOf (c\<lparr>cliNonces := ns, cliNonceDisk := nd\<rparr>) rid = runOf c rid"
  "runOf (c\<lparr>cliRing := d, cliWorld := w\<rparr>) rid = runOf c rid"
  "runOf (c\<lparr>cliReadvertise := b\<rparr>) rid = runOf c rid"
  "runOf (c\<lparr>cliRetried := rt\<rparr>) rid = runOf c rid"
  by (simp_all add: runOf_def)

lemma runOf_meets [simp]: "runOf (meets sc nsc c) rid = runOf c rid"
  by (simp add: runOf_def meets_def)

lemma clientOwes_meets: "clientOwes sha c P \<Longrightarrow> clientOwes sha (meets sc nsc c) P"
  by (simp add: clientOwes_defs meets_def ringInv_script)

lemma runOf_putRun [simp]: "runOf (putRun r s c) rid = (if rid = r then Some s else runOf c rid)"
  by (simp add: runOf_def putRun_def map_of_removeKey)

lemma runOf_removeRun [simp]: "runOf (removeRun r c) rid = (if rid = r then None else runOf c rid)"
  by (simp add: runOf_def removeRun_def map_of_removeKey)

lemma runOf_id: "tableOK c \<Longrightarrow> runOf c rid = Some s \<Longrightarrow> rsRequestID s = rid"
  by (auto simp: tableOK_def runOf_def dest: map_of_SomeD)

lemma set_removeKey: "set (removeKey k m) = {kv \<in> set m. fst kv \<noteq> k}"
  by (auto simp: removeKey_def)

lemma distinct_removeKey: "distinct (map fst m) \<Longrightarrow> distinct (map fst (removeKey k m))"
  by (simp add: removeKey_def distinct_map_filter)

lemma handling_putRun [simp]: "handling (putRun r s c) = handling c"
  by (simp add: handling_def putRun_def)

lemma waiting_putRun [simp]: "waiting (putRun r s c) = waiting c"
  by (simp add: waiting_def putRun_def)

lemma waiting_handling: "waiting c \<subseteq> handling c"
  by (force simp: waiting_def handling_def)

text \<open>A run may change as long as a handled one stays unfinished.\<close>

lemma putRun_tableOK:
  assumes "tableOK c" and "rsRequestID s = rid" and "rid \<in> handling c \<Longrightarrow> live s"
    and "rid \<notin> handling c \<Longrightarrow> rsFinished s"
  shows "tableOK (putRun rid s c)"
proof -
  have "\<forall>k \<in> handling c. \<exists>s'. runOf (putRun rid s c) k = Some s' \<and> live s'"
    using assms by (auto simp: tableOK_def)
  with assms(1,2,4) show ?thesis by (simp add: tableOK_def) (auto simp: putRun_def set_removeKey distinct_removeKey)
qed

lemma putRun_owes:
  assumes "clientOwes sha c P" and "rsRequestID s = rid" and "rid \<in> handling c \<Longrightarrow> live s"
    and "rid \<notin> handling c \<Longrightarrow> rsFinished s"
  shows "clientOwes sha (putRun rid s c) P"
  using assms putRun_tableOK [of c s rid]
  by (simp add: clientOwes_def clientInv_def tombstonesOK_def putRun_def)
    (simp add: handling_def waiting_def)

lemma removeRun_owes:
  assumes "clientOwes sha c P" and "rid \<notin> handling c"
  shows "clientOwes sha (removeRun rid c) P"
  using assms by (auto simp: clientOwes_defs removeRun_def set_removeKey map_of_removeKey distinct_removeKey)

lemma handled_live:
  "clientOwes sha c P \<Longrightarrow> rid \<in> handling c \<Longrightarrow> \<exists>s. runOf c rid = Some s \<and> live s"
  by (auto simp: clientOwes_def clientInv_def tableOK_def)

lemma unhandled_finished:
  "clientOwes sha c P \<Longrightarrow> runOf c rid = Some s \<Longrightarrow> rid \<notin> handling c \<Longrightarrow> rsFinished s"
  by (auto simp: clientOwes_def clientInv_def tableOK_def runOf_def dest!: map_of_SomeD)

text \<open>The log may move on as long as it keeps what is owed and what the handlers hold.\<close>

lemma ring_owes:
  assumes "clientOwes sha c P" and "ringInv sha False (Q \<union> waiting c) d w" and "Q \<inter> waiting c = {}"
    and "reservedAll d (handling c)" and "resultsOK d"
  shows "clientOwes sha (c\<lparr>cliRing := d, cliWorld := w\<rparr>) Q"
  using assms by (simp add: clientOwes_defs)

text \<open>Finishing a run and ending its handler, if it has one.\<close>

lemma tableOK_endHandler:
  assumes "tableOK c" and "rsRequestID s = rid" and "rsFinished s"
  shows "tableOK (endHandler rid (putRun rid s c))"
proof -
  have d: "distinct (map fst (removeKey rid (cliHandlers c)))"
    using assms(1) by (auto simp: tableOK_def removeKey_def distinct_map_filter)
  have l: "length (removeKey rid (cliHandlers c)) \<le> cliMaxConcurrent c"
    using assms(1) by (auto simp: tableOK_def removeKey_def intro: le_trans [OF length_filter_le])
  show ?thesis
    using assms d l unfolding tableOK_def
    by (auto simp: endHandler_def putRun_def set_removeKey runOf_def map_of_removeKey handling_def distinct_removeKey)
qed

lemma finish_owes:
  assumes o: "clientOwes sha c P" and s: "rsRequestID s = rid"
    and Q: "Q \<subseteq> P \<union> waiting c" "Q \<inter> (waiting c - {rid}) = {}"
  shows "clientOwes sha (endHandler rid (finishOn env rid s result c)) Q"
proof -
  obtain r d w where c: "Dispatch_Store.complete (envLine env) rid (rsDigest s) result (cliRing c) (cliWorld c) = (r, d, w)"
    by (metis prod_cases3)
  have inv: "ringInv sha False (P \<union> waiting c) (cliRing c) (cliWorld c)"
    and h: "reservedAll (cliRing c) (handling c)" "resultsOK (cliRing c)"
    using o by (simp_all add: clientOwes_def)
  note keep = complete_inv [OF c inv, THEN conjunct1] complete_held [OF c inv h]
  define s' where "s' = (case r of None \<Rightarrow> s\<lparr>rsFinished := True, pending := pending s @ [ResultMsg result]\<rparr>
    | Some e \<Rightarrow> s\<lparr>rsFinished := True, terminal := Some result\<rparr>)"
  have s': "rsRequestID s' = rid" "rsFinished s'" using s by (simp_all add: s'_def split: option.split)
  have f: "finishOn env rid s result c = putRun rid s' (c\<lparr>cliRing := d, cliWorld := w\<rparr>)"
    using s c by (cases r) (simp_all add: finishOn_def finishRun_def s'_def)
  have w: "waiting (endHandler rid (finishOn env rid s result c)) = waiting c - {rid}"
    and hd: "handling (endHandler rid (finishOn env rid s result c)) = handling c - {rid}"
    unfolding f by (auto simp: waiting_def handling_def endHandler_def putRun_def set_removeKey)
  have "tableOK (c\<lparr>cliRing := d, cliWorld := w\<rparr>)" using o by (simp add: clientOwes_defs)
  from tableOK_endHandler [OF this s'] have t: "tableOK (endHandler rid (finishOn env rid s result c))"
    by (simp add: f)
  have tb: "tombstonesOK (endHandler rid (finishOn env rid s result c))"
    using o by (simp add: clientOwes_def clientInv_def tombstonesOK_def f endHandler_def putRun_def)
  have rg: "cliRing (endHandler rid (finishOn env rid s result c)) = d"
    "cliWorld (endHandler rid (finishOn env rid s result c)) = w"
    by (simp_all add: f endHandler_def putRun_def)
  have "ringInv sha False (Q \<union> (waiting c - {rid})) d w"
    by (rule ringInv_mono [OF keep(1)]) (use Q in blast)
  with keep(2) Q t tb show ?thesis by (simp add: clientOwes_def clientInv_def w hd rg)
qed

lemma endHandler_idle: "rid \<notin> handling c \<Longrightarrow> endHandler rid c = c"
  unfolding endHandler_def handling_def removeKey_def
  by (subst filter_True) auto

lemma handling_finishOn [simp]: "handling (finishOn env rid s result c) = handling c"
  by (auto simp: finishOn_def handling_def putRun_def split: prod.splits)

lemma finishOn_owes:
  assumes "clientOwes sha c P" and "rsRequestID s = rid" and "rid \<notin> handling c"
  shows "clientOwes sha (finishOn env rid s result c) P"
proof -
  have "P \<inter> waiting c = {}" using assms(1) by (simp add: clientOwes_def)
  then have "clientOwes sha (endHandler rid (finishOn env rid s result c)) P"
    by (intro finish_owes [OF assms(1,2)]) auto
  with assms(3) show ?thesis by (simp add: endHandler_idle)
qed


subsection \<open>Every operation keeps it\<close>

lemma auditRefusal_fields:
  "auditRefusal req detail c = (eid, c') \<Longrightarrow> \<exists>j. c' = c\<lparr>cliJournal := j\<rparr>"
  by (auto simp: auditRefusal_def split: prod.splits)

lemma refusedDispatchResult_fields:
  "refusedDispatchResult m reason detail c = (r, c') \<Longrightarrow> \<exists>j. c' = c\<lparr>cliJournal := j\<rparr>"
  by (auto simp: refusedDispatchResult_def dest: auditRefusal_fields split: prod.splits)

lemma handling_irrelevant [simp]:
  "handling (c\<lparr>cliJournal := j\<rparr>) = handling c"
  "handling (c\<lparr>cliRing := d, cliWorld := w\<rparr>) = handling c"
  "handling (c\<lparr>cliReadvertise := b\<rparr>) = handling c"
  "handling (c\<lparr>cliNonces := ns, cliNonceDisk := nd\<rparr>) = handling c"
  "handling (meets sc nsc c) = handling c"
  "waiting (c\<lparr>cliJournal := j\<rparr>) = waiting c"
  "waiting (c\<lparr>cliRing := d, cliWorld := w\<rparr>) = waiting c"
  "waiting (c\<lparr>cliNonces := ns, cliNonceDisk := nd\<rparr>) = waiting c"
  "waiting (meets sc nsc c) = waiting c"
  by (simp_all add: handling_def waiting_def meets_def)

lemma owes_runOf_id: "clientOwes sha c P \<Longrightarrow> runOf c rid = Some s \<Longrightarrow> rsRequestID s = rid"
  using runOf_id by (auto simp: clientOwes_def clientInv_def)

lemma newRunState_simps [simp]:
  "rsRequestID (newRunState rid digest) = rid" "terminal (newRunState rid digest) = None"
  "rsFinished (newRunState rid digest) = False" "pending (newRunState rid digest) = []"
  by (simp_all add: newRunState_def)

lemma owes_unhandled: "clientOwes sha c P \<Longrightarrow> runOf c rid = None \<Longrightarrow> rid \<notin> handling c"
  using handled_live by fastforce

lemma enqueueTransient_owes:
  assumes "clientOwes sha c P" and "enqueueTransient rid msg c = (b, c')"
  shows "clientOwes sha c' P"
proof (cases "runOf c rid")
  case None
  with assms owes_unhandled [OF assms(1) None] show ?thesis
    by (auto simp: enqueueTransient_def split: if_splits intro!: putRun_owes)
next
  case (Some s)
  have "rid \<in> handling c \<longrightarrow> live s" using handled_live [OF assms(1), of rid] Some by auto
  with assms Some owes_runOf_id [OF assms(1) Some] unhandled_finished [OF assms(1) Some] show ?thesis
    by (auto simp: enqueueTransient_def live_def split: if_splits intro!: putRun_owes)
qed

lemma enqueueDurableResult_owes:
  assumes "clientOwes sha c P" and "enqueueDurableResult env rid digest result c = (b, c')"
  shows "clientOwes sha c' P"
  using assms by (auto simp: enqueueDurableResult_def owes_unhandled intro!: finishOn_owes split: if_splits)

lemma handleReservationDecision_owes:
  assumes o: "clientOwes sha c P" and h: "handleReservationDecision env m digest decision cached c = (b, c')"
  shows "clientOwes sha c' P"
proof (cases decision)
  case reservationPending
  obtain r c1 where r: "refusedDispatchResult m ''execution_outcome_unknown''
      ''runner restarted after reserving this dispatch; it was not re-executed because prior side effects are unknown'' c = (r, c1)"
    by force
  then have "clientOwes sha c1 P" using o by (auto dest: refusedDispatchResult_fields)
  with h r reservationPending show ?thesis
    by (auto simp: handleReservationDecision_def intro: enqueueDurableResult_owes)
next
  case reservationConflict
  obtain r c1 where r: "refusedDispatchResult m ''dispatch_id_conflict''
      ''request_id was already bound to different execution facts; action was not executed'' c = (r, c1)" by force
  then have "clientOwes sha c1 P" using o by (auto dest: refusedDispatchResult_fields)
  with h r reservationConflict show ?thesis
    by (auto simp: handleReservationDecision_def intro: enqueueTransient_owes)
qed (use o h in \<open>auto simp: handleReservationDecision_def intro: enqueueTransient_owes\<close>)

lemma dispatchReservationFailed_owes:
  assumes o: "clientOwes sha c P" and h: "dispatchReservationFailed m c = (b, c')"
  shows "clientOwes sha c' P"
proof -
  obtain r c1 where r: "refusedDispatchResult m ''dispatch_reservation_failed''
      ''runner could not durably reserve this dispatch; action was not executed'' c = (r, c1)" by force
  then have "clientOwes sha c1 P" using o by (auto dest: refusedDispatchResult_fields)
  with h r show ?thesis by (auto simp: dispatchReservationFailed_def intro: enqueueTransient_owes)
qed

lemma refuseUndecodableDispatch_owes:
  assumes "clientOwes sha c P"
  shows "clientOwes sha (refuseUndecodableDispatch rid c) P"
proof -
  obtain e0 c0 where 0: "auditRefusal (blankRequest '''') undecodableDetail c = (e0, c0)" by force
  obtain e1 c1 where 1: "auditRefusal (blankRequest rid) undecodableDetail c = (e1, c1)" by force
  have "clientOwes sha c0 P" "clientOwes sha c1 P"
    using assms auditRefusal_fields [OF 0] auditRefusal_fields [OF 1] by auto
  then show ?thesis
    using enqueueTransient_owes [of sha c1 P, OF _ prod.collapse [symmetric]]
    by (auto simp: refuseUndecodableDispatch_def 0 1)
qed

text \<open>Tombstones.\<close>

lemma rememberPreCancel_owes:
  assumes o: "clientOwes sha c P" shows "clientOwes sha (rememberPreCancel rid c) P"
proof -
  have t: "tombstonesOK c" using o by (simp add: clientOwes_def clientInv_def)
  have "tombstonesOK (rememberPreCancel rid c)"
    using t by (cases "cliPreCanceledOrder c") (auto simp: tombstonesOK_def rememberPreCancel_def Let_def)
  with o show ?thesis by (auto simp: clientOwes_defs rememberPreCancel_def Let_def split: if_splits)
qed

lemma consumePreCancel_fields:
  "consumePreCancel rid c = (b, c') \<Longrightarrow> \<exists>s ks. c' = c\<lparr>cliPreCanceled := s, cliPreCanceledOrder := ks\<rparr>"
  by (cases c) (auto simp: consumePreCancel_def split: if_splits)

lemma consumePreCancel_owes:
  assumes o: "clientOwes sha c P" and e: "consumePreCancel rid c = (b, c')"
  shows "clientOwes sha c' P"
proof -
  have t: "tombstonesOK c" using o by (simp add: clientOwes_def clientInv_def)
  have "tombstonesOK c'"
    using t e length_deleteFirst_le [of "\<lambda>k. k = rid" "cliPreCanceledOrder c"]
    by (auto simp: tombstonesOK_def consumePreCancel_def deleteFirst_eq_remove1 set_remove1_eq distinct_remove1 split: if_splits)
  moreover obtain s ks where "c' = c\<lparr>cliPreCanceled := s, cliPreCanceledOrder := ks\<rparr>"
    using consumePreCancel_fields [OF e] by blast
  ultimately show ?thesis using o by (simp add: clientOwes_defs)
qed


text \<open>A run is spawned only while fewer than the allowed number are unfinished.\<close>

lemma handlers_le_active:
  assumes "tableOK c" shows "length (cliHandlers c) \<le> countActiveRuns c"
proof -
  let ?A = "map fst (filter (\<lambda>r. \<not> rsFinished (snd r)) (cliRuns c))"
  have "handling c \<subseteq> set ?A"
  proof
    fix rid assume "rid \<in> handling c"
    then obtain s where s: "map_of (cliRuns c) rid = Some s" "live s" using assms by (auto simp: tableOK_def runOf_def)
    then have "(rid, s) \<in> set (filter (\<lambda>r. \<not> rsFinished (snd r)) (cliRuns c))"
      by (auto simp: live_def dest: map_of_SomeD)
    then have "fst (rid, s) \<in> fst ` set (filter (\<lambda>r. \<not> rsFinished (snd r)) (cliRuns c))" by (rule imageI)
    then show "rid \<in> set ?A" by simp
  qed
  then have "card (handling c) \<le> card (set ?A)" by (intro card_mono) auto
  also have "\<dots> \<le> length ?A" by (rule card_length)
  finally have "card (set (map fst (cliHandlers c))) \<le> countActiveRuns c"
    by (simp add: countActiveRuns_def handling_def)
  moreover have "card (set (map fst (cliHandlers c))) = length (cliHandlers c)"
    using assms distinct_card [of "map fst (cliHandlers c)"] by (simp add: tableOK_def)
  ultimately show ?thesis by simp
qed

lemma unfinished_handled:
  assumes "tableOK c" shows "set (map fst (filter (\<lambda>r. \<not> rsFinished (snd r)) (cliRuns c))) \<subseteq> handling c"
  using assms by (fastforce simp: tableOK_def)

lemma active_is_handlers:
  assumes "tableOK c" shows "countActiveRuns c = length (cliHandlers c)"
proof -
  let ?A = "map fst (filter (\<lambda>r. \<not> rsFinished (snd r)) (cliRuns c))"
  have "distinct ?A" using assms by (simp add: tableOK_def distinct_map_filter)
  then have "countActiveRuns c = card (set ?A)" using distinct_card [of ?A] by (simp add: countActiveRuns_def)
  also have "\<dots> \<le> card (handling c)" by (rule card_mono) (use unfinished_handled [OF assms] in \<open>auto simp: handling_def\<close>)
  also have "\<dots> \<le> length (cliHandlers c)" using card_length [of "map fst (cliHandlers c)"] by (simp add: handling_def)
  finally show ?thesis using handlers_le_active [OF assms] by simp
qed

lemma spawnRun_owes:
  assumes o: "clientOwes sha c0 P" and new: "runOf c rid = None" and m: "runRequestID m = rid"
    and active: "countActiveRuns c < cliMaxConcurrent c"
    and c: "tombstonesOK c" "tableOK c" "waiting c = waiting c0" "handling c = handling c0"
    and ring: "ringInv sha False (insert rid (P \<union> waiting c)) (cliRing c) (cliWorld c)" "rid \<notin> P"
    and held: "reservedAll (cliRing c) (insert rid (handling c))" "resultsOK (cliRing c)"
  shows "clientOwes sha (spawnRun rid digest m c) P"
proof -
  have n: "rid \<notin> handling c" using c(2) new by (auto simp: tableOK_def)
  let ?c = "spawnRun rid digest m c"
  have "length (cliHandlers c) < cliMaxConcurrent c" using handlers_le_active [OF c(2)] active by simp
  then have t: "tableOK ?c"
    using c(2) n m unfolding tableOK_def
    by (auto simp: spawnRun_def putRun_def set_removeKey runOf_def map_of_removeKey handling_def live_def distinct_removeKey)
  have w: "waiting ?c = insert rid (waiting c)" and h: "handling ?c = insert rid (handling c)"
    by (auto simp: spawnRun_def waiting_def handling_def putRun_def)
  have tb: "tombstonesOK ?c" using c(1) by (simp add: tombstonesOK_def spawnRun_def putRun_def)
  have r: "cliRing ?c = cliRing c" "cliWorld ?c = cliWorld c" by (simp_all add: spawnRun_def putRun_def)
  have "P \<inter> waiting c = {}" using o c(3) by (simp add: clientOwes_def)
  with ring held t tb show ?thesis by (simp add: clientOwes_def clientInv_def w h r)
qed

lemma answerCancelled_owes:
  assumes "clientOwes sha c P" and "runOf c (runRequestID m) = None"
  shows "clientOwes sha (answerCancelled env digest m c) P"
  using assms
  by (auto simp: answerCancelled_def Let_def owes_unhandled intro!: finishOn_owes split: prod.splits)

lemma snd_orBacklogFull [simp]: "snd (orBacklogFull r) = snd r"
  by (simp add: orBacklogFull_def)

lemma admitRun_owes:
  assumes o: "clientOwes sha c0 P" and new: "runOf c0 (runRequestID m) = None"
    and a: "admitRun env digest m c0 = (out, c')"
  shows "clientOwes sha c' P"
proof -
  let ?rid = "runRequestID m"
  obtain pre c where cp: "consumePreCancel ?rid c0 = (pre, c)" by force
  have oc: "clientOwes sha c P" by (rule consumePreCancel_owes [OF o cp])
  have nc: "runOf c ?rid = None" using consumePreCancel_fields [OF cp] new by (auto simp: runOf_def)
  have aud: "clientOwes sha (snd (auditRefusal req detail cx)) P" if "clientOwes sha cx P" for req :: "'a Request" and detail cx
    using that auditRefusal_fields [of req detail cx] by (cases "auditRefusal req detail cx") auto
  obtain res d w where rs: "reserve (envLine env) ?rid digest (cliRing c) (cliWorld c) = (res, d, w)" by (metis prod_cases3)
  let ?c1 = "c\<lparr>cliRing := d, cliWorld := w\<rparr>"
  have inv: "ringInv sha False (P \<union> waiting c) (cliRing c) (cliWorld c)"
    and h: "reservedAll (cliRing c) (handling c)" "resultsOK (cliRing c)" and dj: "P \<inter> waiting c = {}"
    using oc by (simp_all add: clientOwes_def)
  note ri = reserve_inv [OF rs inv]
  note rh = reserve_held [OF rs inv h]
  have nh: "?rid \<notin> handling c" by (rule owes_unhandled [OF oc nc])
  then have rh': "reservedAll d (handling c)" "resultsOK d" using rh by (auto split: if_splits)
  show ?thesis
  proof (cases "\<not> pre \<and> (cliMaxConcurrent c \<le> countActiveRuns c \<or> maxRunStates c \<le> length (cliRuns c))")
    case True
    obtain b c2 where e: "enqueueTransient ?rid (ErrorMsg ?rid ''concurrency_cap_reached'') c = (b, c2)" by force
    from a True cp e aud [OF oc] aud [OF enqueueTransient_owes [OF oc e]] show ?thesis
      by (auto simp: admitRun_def Let_def split: if_splits)
  next
    case False
    then have step: "(out, c') = (case res of
        Inl e \<Rightarrow> orBacklogFull (dispatchReservationFailed m ?c1)
      | Inr (decision, cached) \<Rightarrow>
          if decision \<noteq> reservationNew then orBacklogFull (handleReservationDecision env m digest decision cached ?c1)
          else if pre then (None, answerCancelled env digest m ?c1)
          else (None, spawnRun ?rid digest m ?c1))"
      using a by (simp only: admitRun_def Let_def cp rs prod.case if_False conj_disj_distribL de_Morgan_disj simp_thms)
    show ?thesis
    proof (cases "\<exists>x. res = Inr (reservationNew, x)")
      case True
      then obtain x where x: "res = Inr (reservationNew, x)" by blast
      from ri x have r1: "?rid \<notin> P" "ringInv sha False (insert ?rid (P \<union> waiting c)) d w" by auto
      show ?thesis
      proof (cases pre)
        case True
        have "ringInv sha False (P \<union> waiting c) d w" by (rule ringInv_mono [OF r1(2)]) blast
        from ring_owes [OF oc this dj rh'] answerCancelled_owes [of sha ?c1] nc step x True show ?thesis by simp
      next
        case npre: False
        have "countActiveRuns ?c1 < cliMaxConcurrent ?c1" using False npre by (simp add: countActiveRuns_def)
        moreover have "reservedAll d (insert ?rid (handling c))" using rh x by blast
        ultimately have "clientOwes sha (spawnRun ?rid digest m ?c1) P"
          by (intro spawnRun_owes [OF oc]) (use oc nc r1 rh' in \<open>simp_all add: clientOwes_defs\<close>)
        with step x npre show ?thesis by simp
      qed
    next
      case False
      then have "ringInv sha False (P \<union> waiting c) d w"
        using ri by (auto split: sum.splits prod.splits reservationDecision.splits)
      from ring_owes [OF oc this dj rh'] have o1: "clientOwes sha ?c1 P" .
      show ?thesis
      proof (cases res)
        case (Inl e)
        then have "c' = snd (dispatchReservationFailed m ?c1)" using arg_cong [OF step, of snd] by simp
        with dispatchReservationFailed_owes [OF o1 prod.collapse [symmetric]] show ?thesis by simp
      next
        case (Inr x)
        obtain decision cached where x: "x = (decision, cached)" by force
        with Inr False have "c' = snd (handleReservationDecision env m digest decision cached ?c1)"
          using arg_cong [OF step, of snd] by simp
        with handleReservationDecision_owes [OF o1 prod.collapse [symmetric]] show ?thesis by simp
      qed
    qed
  qed
qed


lemma startRun_owes:
  assumes o: "clientOwes sha c P" and s: "startRun env m c = (out, c')"
  shows "clientOwes sha c' P"
proof -
  let ?rid = "runRequestID m"
  show ?thesis
  proof (cases "dispatchDigest (hSha (envHost env)) (envArgs env) (envFacts env) m")
    case None
    obtain r c1 where r: "refusedDispatchResult m ''dispatch_invalid'' (envDigestError env) c = (r, c1)" by force
    then have "clientOwes sha c1 P" using o by (auto dest: refusedDispatchResult_fields)
    from enqueueTransient_owes [OF this prod.collapse [symmetric]] s None r show ?thesis
      by (auto simp: startRun_def Let_def orBacklogFull_def)
  next
    case (Some digest)
    note step = s [unfolded startRun_def Let_def Some option.case]
    show ?thesis
    proof (cases "cliClosing c \<or> runOf c ?rid \<noteq> None")
      case True
      with step o show ?thesis by (auto split: if_splits)
    next
      case False
      then have new: "runOf c ?rid = None" by simp
      show ?thesis
      proof (cases "inspect ?rid digest (cliRing c)")
        case (Inl e)
        with step False dispatchReservationFailed_owes [OF o prod.collapse [symmetric]]
        show ?thesis by (auto simp: orBacklogFull_def split: if_splits)
      next
        case (Inr x)
        obtain decision cached where x: "x = (decision, cached)" by force
        with step False Inr handleReservationDecision_owes [OF o prod.collapse [symmetric]] admitRun_owes [OF o new]
        show ?thesis by (auto simp: orBacklogFull_def split: if_splits)
      qed
    qed
  qed
qed

text \<open>The handler of a reserved dispatch.\<close>

lemma handled:
  assumes o: "clientOwes sha c P" and h: "map_of (cliHandlers c) rid = Some h"
  shows "rid \<in> handling c" and "handlerID h = rid" and "\<exists>m. h = Waiting m \<Longrightarrow> rid \<in> waiting c"
    and "runOf c rid = Some s \<Longrightarrow> live s"
proof -
  have i: "(rid, h) \<in> set (cliHandlers c)" using h by (rule map_of_SomeD)
  then show r: "rid \<in> handling c" by (force simp: handling_def)
  show "handlerID h = rid" using o i by (auto simp: clientOwes_def clientInv_def tableOK_def)
  show "\<exists>m. h = Waiting m \<Longrightarrow> rid \<in> waiting c" using i by (auto simp: waiting_def)
  show "runOf c rid = Some s \<Longrightarrow> live s" using handled_live [OF o r] by auto
qed

lemma refuseRun_owes:
  assumes "clientOwes sha c P" and "rsRequestID s = runRequestID m"
    and "Q \<subseteq> P \<union> waiting c" and "Q \<inter> (waiting c - {runRequestID m}) = {}"
  shows "clientOwes sha (endHandler (runRequestID m) (refuseRun env s m status reason err detail c)) Q"
proof -
  obtain eid c1 where a: "auditRefusal (requestForDispatch m None False) detail c = (eid, c1)" by force
  obtain j where "c1 = c\<lparr>cliJournal := j\<rparr>" using auditRefusal_fields [OF a] by blast
  with a assms show ?thesis by (simp add: refuseRun_def Let_def finish_owes)
qed

lemma recoverPanic_owes:
  assumes "clientOwes sha c P" and "rsRequestID s = runRequestID m" and "\<not> rsFinished s"
    and "Q \<subseteq> P \<union> waiting c" and "Q \<inter> (waiting c - {runRequestID m}) = {}"
  shows "clientOwes sha (endHandler (runRequestID m) (recoverPanic env s m c)) Q"
  using assms by (auto simp: recoverPanic_def intro!: finish_owes split: prod.splits)

lemma enterEngine_owes:
  assumes o: "clientOwes sha c P" and h: "map_of (cliHandlers c) rid = Some (Waiting m)" and s: "runOf c rid = Some s"
  shows "clientOwes sha (enterEngine env s m reg c) (insert rid P)"
proof -
  note hh = handled [OF o h]
  have m: "runRequestID m = rid" using hh(2) by simp
  have w: "rid \<in> waiting c" using hh(3) by blast
  have sid: "rsRequestID s = rid" by (rule owes_runOf_id [OF o s])
  have dj: "P \<inter> waiting c = {}" using o by (simp add: clientOwes_def)
  let ?s = "markRunStarted s"
  have s1: "rsRequestID ?s = rid" "live ?s" using sid hh(4) [OF s] by (simp_all add: markRunStarted_def live_def)
  have hd: "rid \<in> handling c" by (rule hh(1))
  show ?thesis
  proof (cases "engineRun (envHost env) (cliEngine c) (cliJournal c) (requestForDispatch m (Some reg) True)")
    case None
    then show ?thesis
      using recoverPanic_owes [OF o, of ?s m "insert rid P" env] s1 w dj m
      by (auto simp: enterEngine_def Let_def live_def)
  next
    case (Some report)
    let ?c = "c\<lparr>cliJournal := rpJournal report,
       cliHandlers := (rid, Executing m (rpProgress report) (rpResult report)) # removeKey rid (cliHandlers c)\<rparr>"
    have wc: "waiting ?c = waiting c - {rid}" and hc: "handling ?c = handling c"
      using hh(1) by (auto simp: waiting_def handling_def set_removeKey image_iff)
    have len: "length (cliHandlers ?c) \<le> length (cliHandlers c)"
    proof -
      have "(rid, Waiting m) \<in> set (cliHandlers c)" using h by (rule map_of_SomeD)
      then have "length (removeKey rid (cliHandlers c)) < length (cliHandlers c)"
        unfolding removeKey_def by (intro length_filter_less) auto
      then show ?thesis by simp
    qed
    have d: "distinct (map fst (cliHandlers ?c))"
      using o by (auto simp: clientOwes_defs removeKey_def distinct_map_filter)
    have t: "tableOK ?c"
      using o d len m unfolding clientOwes_def clientInv_def tableOK_def hc
      by (auto simp: set_removeKey runOf_def intro: le_trans)
    have tb: "tombstonesOK ?c" using o by (simp add: clientOwes_def clientInv_def tombstonesOK_def)
    have "ringInv sha False (insert rid P \<union> (waiting c - {rid})) (cliRing c) (cliWorld c)"
      by (rule ringInv_mono [of _ _ "P \<union> waiting c"]) (use o w in \<open>auto simp: clientOwes_def\<close>)
    with o t tb dj w have "clientOwes sha ?c (insert rid P)"
      by (auto simp: clientOwes_def clientInv_def wc hc)
    from putRun_owes [OF this s1(1)] s1(2) Some m hd hc show ?thesis by (simp add: enterEngine_def Let_def)
  qed
qed

lemma signatureGate_fields:
  "signatureGate env m c = (r, c') \<Longrightarrow> \<exists>ns nd. c' = c\<lparr>cliNonces := ns, cliNonceDisk := nd\<rparr>"
  by (cases c) (auto simp: signatureGate_def split: option.splits prod.splits if_splits)

lemma gateRun_owes:
  assumes o: "clientOwes sha c P" and h: "map_of (cliHandlers c) rid = Some (Waiting m)" and s: "runOf c rid = Some s"
    and g: "gateRun env s m c = (entered, c')"
  shows "clientOwes sha c' (if entered then insert rid P else P) \<and> rid \<notin> P"
proof -
  note hh = handled [OF o h]
  have m: "runRequestID m = rid" using hh(2) by simp
  have w: "rid \<in> waiting c" using hh(3) by blast
  have sid: "rsRequestID s = runRequestID m" using owes_runOf_id [OF o s] m by simp
  have dj: "P \<inter> waiting c = {}" using o by (simp add: clientOwes_def)
  have nf: "\<not> rsFinished s" using hh(4) [OF s] by (simp add: live_def)
  obtain r c1 where sg: "signatureGate env m c = (r, c1)" by force
  obtain ns nd where c1: "c1 = c\<lparr>cliNonces := ns, cliNonceDisk := nd\<rparr>" using signatureGate_fields [OF sg] by blast
  have o1: "clientOwes sha c1 P" and w1: "waiting c1 = waiting c" using o by (simp_all add: c1)
  have Q: "P \<subseteq> P \<union> waiting c1" "P \<inter> (waiting c1 - {runRequestID m}) = {}" using dj w1 by auto
  have h1: "map_of (cliHandlers c1) rid = Some (Waiting m)" and r1: "runOf c1 rid = Some s"
    using h s by (simp_all add: c1)
  have "clientOwes sha c' (if entered then insert rid P else P)"
  proof (cases r)
    case (Some x)
    obtain code detail where "x = (code, detail)" by force
    with Some g sg refuseRun_owes [OF o1 sid Q] show ?thesis by (auto simp: gateRun_def Let_def refuseSignature_def)
  next
    case None
    show ?thesis
    proof (cases "engRegistry (cliEngine c1)")
      case None
      with \<open>r = None\<close> g sg recoverPanic_owes [OF o1 sid nf Q] show ?thesis by (auto simp: gateRun_def Let_def)
    next
      case (Some reg)
      show ?thesis
      proof (cases "trustGate env m reg")
        case None
        with \<open>r = None\<close> Some g sg enterEngine_owes [OF o1 h1 r1] m show ?thesis by (auto simp: gateRun_def Let_def)
      next
        case (Some x)
        obtain pid expected got again where x: "x = (pid, expected, got, again)" by (cases x) auto
        let ?c2 = "emitPackMismatch env s m pid expected got c1"
        have "clientOwes sha (endHandler (runRequestID m) ?c2) P"
          using refuseRun_owes [OF o1 sid Q] by (simp add: emitPackMismatch_def Let_def)
        moreover have "endHandler (runRequestID m) (?c2\<lparr>cliReadvertise := True\<rparr>)
            = (endHandler (runRequestID m) ?c2)\<lparr>cliReadvertise := True\<rparr>" by (simp add: endHandler_def)
        moreover have "c' = endHandler (runRequestID m) (if again then ?c2\<lparr>cliReadvertise := True\<rparr> else ?c2) \<and> \<not> entered"
          using \<open>r = None\<close> \<open>engRegistry (cliEngine c1) = Some reg\<close> Some g sg x by (auto simp: gateRun_def Let_def)
        ultimately show ?thesis by auto
      qed
    qed
  qed
  moreover have "rid \<notin> P" using w dj by blast
  ultimately show ?thesis by blast
qed


text \<open>Shipping, cancelling, acknowledging, resending.\<close>

lemma enqueueProgressChunk_fields:
  "rsRequestID (enqueueProgressChunk mp s rid stream chunk) = rsRequestID s
   \<and> live (enqueueProgressChunk mp s rid stream chunk) = live s"
  by (simp add: enqueueProgressChunk_def enqueue_def live_def Let_def split: option.split)

lemma enqueueProgress_fields:
  assumes "enqueueProgress mp s rid stream chunk = Some s'"
  shows "rsRequestID s' = rsRequestID s \<and> live s' = live s"
proof -
  have "rsRequestID (foldl (\<lambda>s c. enqueueProgressChunk mp s rid stream c) s cs) = rsRequestID s
    \<and> live (foldl (\<lambda>s c. enqueueProgressChunk mp s rid stream c) s cs) = live s" for cs
    by (induction cs arbitrary: s) (simp_all add: enqueueProgressChunk_fields)
  with assms show ?thesis by (auto simp: enqueueProgress_def)
qed

lemma shipChunk_owes:
  assumes o: "clientOwes sha c P" and h: "map_of (cliHandlers c) rid = Some (Executing m (chunk # chunks) res)"
    and s: "runOf c rid = Some s" and c': "shipChunk s m chunk chunks res c = Some c'"
  shows "clientOwes sha c' P"
proof -
  note hh = handled [OF o h]
  have m: "runRequestID m = rid" using hh(2) by simp
  let ?c = "c\<lparr>cliHandlers := (rid, Executing m chunks res) # removeKey rid (cliHandlers c)\<rparr>"
  obtain s' where e: "enqueueProgress (cliMaxPending c) s rid (streamName (fst chunk)) (snd chunk) = Some s'"
    and f: "c' = putRun rid s' ?c"
    using c' m by (auto simp: shipChunk_def Let_def)
  have "(rid, Executing m (chunk # chunks) res) \<in> set (cliHandlers c)" using h by (rule map_of_SomeD)
  then have len: "length (removeKey rid (cliHandlers c)) < length (cliHandlers c)"
    unfolding removeKey_def by (intro length_filter_less) auto
  have nw: "rid \<notin> waiting c"
    using o \<open>(rid, Executing m (chunk # chunks) res) \<in> set (cliHandlers c)\<close>
    by (auto simp: clientOwes_def clientInv_def tableOK_def waiting_def dest: eq_key_imp_eq_value)
  have wc: "waiting ?c = waiting c" and hc: "handling ?c = handling c"
    using nw hh(1) by (auto simp: waiting_def handling_def set_removeKey image_iff)
  have d: "distinct (map fst (cliHandlers ?c))"
    using o by (auto simp: clientOwes_defs removeKey_def distinct_map_filter)
  have t: "tableOK ?c"
    using o d len m unfolding clientOwes_def clientInv_def tableOK_def hc
    by (auto simp: set_removeKey runOf_def intro: le_trans)
  have "tombstonesOK ?c" using o by (simp add: clientOwes_def clientInv_def tombstonesOK_def)
  with o t have "clientOwes sha ?c P" by (simp add: clientOwes_def clientInv_def wc hc)
  with enqueueProgress_fields [OF e] owes_runOf_id [OF o s] hh(4) [OF s] hc hh(1) show ?thesis
    by (auto simp: f intro!: putRun_owes)
qed

lemma cancelRun_owes:
  assumes o: "clientOwes sha c P" shows "clientOwes sha (cancelRun rid c) P"
proof (cases "runOf c rid")
  case None
  with o show ?thesis by (simp add: cancelRun_def rememberPreCancel_owes)
next
  case (Some s)
  have "rid \<in> handling c \<longrightarrow> live s" using handled_live [OF o, of rid] Some by auto
  with o Some owes_runOf_id [OF o Some] unhandled_finished [OF o Some] show ?thesis
    by (auto simp: cancelRun_def live_def intro!: putRun_owes)
qed

lemma ackRun_eq:
  "ackRun env rid c =
    (if \<exists>s. runOf c rid = Some s \<and> \<not> drained s then c
     else case acknowledge (envLine env) rid (cliRing c) (cliWorld c) of (e, d, w) \<Rightarrow>
       let c1 = c\<lparr>cliRing := d, cliWorld := w\<rparr> in
       if e \<noteq> None then c1
       else removeRun rid (c1\<lparr>cliRetried := cliRetried c1 - {rid}\<rparr>))"
  by (simp add: ackRun_def split: option.split)

lemma ackRun_owes:
  assumes o: "clientOwes sha c P" shows "clientOwes sha (ackRun env rid c) (P - {rid})"
proof (cases "\<exists>s. runOf c rid = Some s \<and> \<not> drained s")
  case True
  have "ringInv sha False ((P - {rid}) \<union> waiting c) (cliRing c) (cliWorld c)"
    by (rule ringInv_mono [of _ _ "P \<union> waiting c"]) (use o in \<open>auto simp: clientOwes_def\<close>)
  then have "clientOwes sha c (P - {rid})" using o unfolding clientOwes_def by blast
  with True show ?thesis by (simp add: ackRun_eq)
next
  case False
  have n: "rid \<notin> handling c"
  proof
    assume "rid \<in> handling c"
    then obtain s where "runOf c rid = Some s" "live s" using handled_live [OF o] by blast
    with False show False by (auto simp: drained_def live_def)
  qed
  then have nw: "rid \<notin> waiting c" using waiting_handling by blast
  obtain e d w where a: "acknowledge (envLine env) rid (cliRing c) (cliWorld c) = (e, d, w)" by (metis prod_cases3)
  have inv: "ringInv sha False (P \<union> waiting c) (cliRing c) (cliWorld c)" and dj: "P \<inter> waiting c = {}"
    and h: "reservedAll (cliRing c) (handling c)" "resultsOK (cliRing c)"
    using o by (simp_all add: clientOwes_def)
  have "ringInv sha False ((P - {rid}) \<union> waiting c) d w"
    by (rule ringInv_mono [OF conjunct1 [OF acknowledge_inv [OF a inv]]]) (use nw in blast)
  define c1 where "c1 = c\<lparr>cliRing := d, cliWorld := w\<rparr>"
  have o1: "clientOwes sha c1 (P - {rid})"
    unfolding c1_def by (rule ring_owes [OF o \<open>ringInv sha False ((P - {rid}) \<union> waiting c) d w\<close>])
      (use dj acknowledge_held [OF a inv h] in auto)
  have n1: "rid \<notin> handling (c1\<lparr>cliRetried := x\<rparr>)" for x using n by (simp add: c1_def handling_def)
  have "clientOwes sha (removeRun rid (c1\<lparr>cliRetried := x\<rparr>)) (P - {rid})" for x
    using o1 n1 by (intro removeRun_owes) simp_all
  moreover have "ackRun env rid c = (if e \<noteq> None then c1 else removeRun rid (c1\<lparr>cliRetried := cliRetried c1 - {rid}\<rparr>))"
    using False a by (auto simp: ackRun_eq Let_def c1_def)
  ultimately show ?thesis using o1 by simp
qed

lemma retryFinalization_owes:
  assumes o: "clientOwes sha c P" shows "clientOwes sha (retryFinalization rid c) P"
proof (cases "unacknowledgedResult rid (cliRing c)")
  case (Some result)
  obtain b c1 where e: "enqueueTransient rid (ResultMsg result) c = (b, c1)" by force
  from enqueueTransient_owes [OF o e] o Some e show ?thesis by (simp add: retryFinalization_def)
qed (use o in \<open>simp add: retryFinalization_def\<close>)

lemma requeueResult_owes:
  assumes o: "clientOwes sha c P" and n: "resRequestID r \<notin> handling c"
  shows "clientOwes sha (requeueResult r c) P \<and> handling (requeueResult r c) = handling c
    \<and> cliRing (requeueResult r c) = cliRing c \<and> cliWorld (requeueResult r c) = cliWorld c"
proof (cases "runOf c (resRequestID r)")
  case (Some s)
  with o n owes_runOf_id [OF o Some] show ?thesis
    by (auto simp: requeueResult_def Let_def intro!: putRun_owes) (simp_all add: putRun_def)
next
  case None
  with o n show ?thesis
    by (auto simp: requeueResult_def Let_def intro!: putRun_owes) (simp_all add: putRun_def)
qed

lemma requeueUnacknowledgedResults_owes:
  assumes o: "clientOwes sha c P" shows "clientOwes sha (requeueUnacknowledgedResults c) P"
proof -
  have n: "\<forall>r \<in> set (unacknowledgedResults (cliRing c)). resRequestID r \<notin> handling c"
    using o unacknowledged_not_reserved by (auto simp: clientOwes_def)
  have "clientOwes sha c P \<Longrightarrow> \<forall>r \<in> set rs. resRequestID r \<notin> handling c \<Longrightarrow>
      clientOwes sha (foldl (\<lambda>c r. requeueResult r c) c rs) P" for c :: "('a, 'b) Client" and rs
  proof (induction rs arbitrary: c)
    case (Cons r rs)
    with requeueResult_owes [of sha c P r] show ?case by simp
  qed simp
  from this [OF o n] show ?thesis by (simp add: requeueUnacknowledgedResults_def)
qed

text \<open>Rewriting every run without finishing one.\<close>

lemma mapRuns_owes:
  assumes o: "clientOwes sha c P"
    and f: "\<And>s. rsRequestID (f s) = rsRequestID s \<and> live (f s) = live s \<and> rsFinished (f s) = rsFinished s"
  shows "clientOwes sha (c\<lparr>cliRuns := map (\<lambda>(rid, s). (rid, f s)) (cliRuns c)\<rparr>) P"
proof -
  have m: "map_of (map (\<lambda>(rid, s). (rid, f s)) rs) rid = map_option f (map_of rs rid)" for rs rid
    by (induction rs) auto
  have "\<forall>(rid, s) \<in> set (map (\<lambda>(rid, s). (rid, f s)) (cliRuns c)). rsRequestID s = rid"
    using o f by (auto simp: clientOwes_defs)
  moreover have "distinct (map (fst \<circ> (\<lambda>(rid, s). (rid, f s))) (cliRuns c))"
  proof -
    have "map (fst \<circ> (\<lambda>(rid, s). (rid, f s))) (cliRuns c) = map fst (cliRuns c)" by auto
    moreover have "distinct (map fst (cliRuns c))" using o by (simp add: clientOwes_def clientInv_def tableOK_def)
    ultimately show ?thesis by (simp only:)
  qed
  moreover have "\<forall>(rid, s) \<in> set (map (\<lambda>(rid, s). (rid, f s)) (cliRuns c)). rid \<in> handling c \<or> rsFinished s"
    using o f by (auto simp: clientOwes_def clientInv_def tableOK_def)
  moreover have "\<forall>rid \<in> handling c. \<exists>s. map_option f (map_of (cliRuns c) rid) = Some s \<and> live s"
    using o f by (fastforce simp: clientOwes_def clientInv_def tableOK_def runOf_def)
  ultimately show ?thesis
    using o by (simp add: clientOwes_def clientInv_def tableOK_def tombstonesOK_def runOf_def m)
      (simp add: handling_def waiting_def)
qed

lemma requeueActiveStarts_owes:
  assumes "clientOwes sha c P" shows "clientOwes sha (requeueActiveStarts c) P"
  unfolding requeueActiveStarts_def
  by (rule mapRuns_owes [OF assms]) (auto simp: requeueActiveStart_def live_def split: option.split)

lemma shutdownClient_owes:
  assumes "clientOwes sha c P" shows "clientOwes sha (shutdownClient c) P"
  using mapRuns_owes [OF assms, of "\<lambda>s. if rsCancel s then s\<lparr>rsCancelled := True\<rparr> else s"]
  by (simp add: shutdownClient_def live_def clientOwes_defs)


lemma drainRun_owes:
  assumes o: "clientOwes sha c P" and s: "runOf c rid = Some s"
    and d: "drainRun env rid s sent c = (outs, c')"
  shows "clientOwes sha c' P"
proof -
  have sid: "rsRequestID s = rid" by (rule owes_runOf_id [OF o s])
  have lv: "rid \<in> handling c \<Longrightarrow> live s" using handled_live [OF o, of rid] s by auto
  obtain b s1 d1 w1 where rt: "retryTerminalPersistence (envLine env) s (cliRing c) (cliWorld c) = (b, s1, d1, w1)"
    by (metis prod_cases4)
  let ?c1 = "c\<lparr>cliRing := d1, cliWorld := w1\<rparr>"
  have inv: "ringInv sha False (P \<union> waiting c) (cliRing c) (cliWorld c)" and dj: "P \<inter> waiting c = {}"
    and h: "reservedAll (cliRing c) (handling c)" "resultsOK (cliRing c)"
    using o by (simp_all add: clientOwes_def)
  have s1: "clientOwes sha ?c1 P \<and> rsRequestID s1 = rid \<and> (live s \<longrightarrow> live s1) \<and> rsFinished s1 = rsFinished s"
  proof (cases "terminal s")
    case None
    with rt have "?c1 = c" "s1 = s" by (auto simp: retryTerminalPersistence_def)
    with sid o show ?thesis by simp
  next
    case (Some result)
    obtain e d w where c: "Dispatch_Store.complete (envLine env) rid (rsDigest s) result (cliRing c) (cliWorld c) = (e, d, w)"
      by (metis prod_cases3)
    have n: "rid \<notin> handling c" using lv Some by (auto simp: live_def)
    have f: "d1 = d" "w1 = w" "rsRequestID s1 = rid" "live s \<longrightarrow> live s1" "rsFinished s1 = rsFinished s"
      using rt Some c sid by (cases e; auto simp: retryTerminalPersistence_def live_def)+
    have "clientOwes sha (c\<lparr>cliRing := d, cliWorld := w\<rparr>) P"
      by (rule ring_owes [OF o conjunct1 [OF complete_inv [OF c inv]] dj]) (use complete_held [OF c inv h] n in auto)
    with f show ?thesis by simp
  qed
  obtain msgs s2 where tp: "takePending s1 = (msgs, s2)" by force
  have s2: "rsRequestID s2 = rid" "live s \<longrightarrow> live s2" "rsFinished s2 = rsFinished s"
    using tp s1 by (auto simp: takePending_def live_def)
  have put: "clientOwes sha (putRun rid x ?c1) P"
    if "rsRequestID x = rid" "live s \<longrightarrow> live x" "rsFinished x = rsFinished s" for x
    using s1 that lv unhandled_finished [OF o s] by (intro putRun_owes) auto
  have rem: "clientOwes sha (removeRun rid ?c1) P" if "drained s2"
    using s1 s2(2) that lv by (intro removeRun_owes) (auto simp: drained_def live_def)
  have req: "rsRequestID (requeueUnsent ms s2) = rid" "live s \<longrightarrow> live (requeueUnsent ms s2)"
    "rsFinished (requeueUnsent ms s2) = rsFinished s" for ms
    using s2 by (simp_all add: requeueUnsent_def live_def)
  show ?thesis
    using d rt tp put [OF s2] put [OF req] rem
    by (auto simp: drainRun_def Let_def split: option.splits if_splits)
qed

lemma handleShutdown_owes:
  "clientOwes sha c P \<Longrightarrow> handleShutdown env raw c = (out, c') \<Longrightarrow> clientOwes sha c' P"
  by (auto simp: handleShutdown_def noteShutdown_def split: option.splits prod.splits if_splits)

lemma handleRotation_owes: "clientOwes sha c P \<Longrightarrow> handleRotation env raw c = (out, c') \<Longrightarrow> clientOwes sha c' P"
  by (auto simp: handleRotation_def split: option.splits prod.splits if_splits)

lemma handleError_owes: "clientOwes sha c P \<Longrightarrow> clientOwes sha (handleError env e raw c) P"
  by (auto simp: handleError_def retryFinalization_owes split: option.splits prod.splits)

lemmas message_types = MsgRunAction_def MsgCancel_def MsgAckResult_def MsgError_def MsgShutdown_def
  MsgRefreshCredentials_def

lemma dispatchFrame_acked:
  assumes "ackOf (envFold env) raw = Some rid" and "dispatchFrame env raw c = (out, c')"
  shows "c' = ackRun env rid c"
proof -
  obtain e where e: "routeFrame (envFold env) raw = Routed e" "EnvType e = MsgAckResult"
    using assms(1) by (auto simp: ackOf_def split: routing.splits if_splits)
  moreover have "MsgAckResult \<noteq> MsgRunAction" "MsgAckResult \<noteq> MsgCancel" by (simp_all add: message_types)
  ultimately show ?thesis using assms by (auto simp: dispatchFrame_def)
qed

lemma dispatchFrame_owes:
  assumes o: "clientOwes sha c P" and d: "dispatchFrame env raw c = (out, c')"
  shows "clientOwes sha c' (case ackOf (envFold env) raw of Some rid \<Rightarrow> P - {rid} | None \<Rightarrow> P)"
proof (cases "ackOf (envFold env) raw")
  case (Some rid)
  with ackRun_owes [OF o] dispatchFrame_acked [OF Some d] show ?thesis by simp
next
  case None
  show ?thesis
  proof (cases "routeFrame (envFold env) raw")
    case (Routed e)
    from d None Routed o startRun_owes [OF o] cancelRun_owes [OF o] refuseUndecodableDispatch_owes [OF o]
      handleError_owes [OF o] handleShutdown_owes [OF o] handleRotation_owes [OF o]
    show ?thesis by (auto simp: dispatchFrame_def split: if_splits sum.splits)
  qed (use d None o refuseUndecodableDispatch_owes [OF o] in \<open>auto simp: dispatchFrame_def noteShutdown_def\<close>)
qed

lemma newClient_owes:
  assumes "safeStore sha P p w" and "settled p w" and "p \<noteq> ''''" and "p \<noteq> legacy" and "p \<noteq> legacy @ ''.migrated''"
  shows "clientOwes sha (newClient sha bl mc mp rs p legacy e v ns nd j w) P"
proof -
  obtain d w' where n: "newDedupRing sha bl (orDefault rs 1024) p legacy w = (d, w')" by force
  have pos: "0 < orDefault rs 1024" by (simp add: orDefault_def)
  from newDedupRing_inv [OF n assms(3,4,5,1,2)] newDedupRing_resultsOK [OF n] n pos show ?thesis
    by (simp add: newClient_def Let_def clientOwes_defs reservedAll_def)
qed

lemma clientStep_owes:
  assumes "clientStep sha l c c'" and o: "clientOwes sha c P"
  shows "case l of Started k \<Rightarrow> k \<notin> P \<and> clientOwes sha c' (insert k P)
    | Acked k \<Rightarrow> clientOwes sha c' (P - {k}) | Quiet \<Rightarrow> clientOwes sha c' P"
  using assms(1)
proof (cases rule: clientStep.cases)
  case (frame env raw sc nsc out)
  from dispatchFrame_owes [OF clientOwes_meets [OF o] frame(2)] frame(1) show ?thesis
    by (auto split: option.splits)
next
  case (gated rid m s env sc nsc entered)
  have "map_of (cliHandlers (meets sc nsc c)) rid = Some (Waiting m)" using gated(2) by (simp add: meets_def)
  from gateRun_owes [OF clientOwes_meets [OF o] this _ gated(4)] gated show ?thesis by (auto split: if_splits)
next
  case (shipped rid m chunk chunks res s)
  from shipChunk_owes [OF o shipped(2-4)] shipped(1) show ?thesis by simp
next
  case (ended rid m res s env sc nsc)
  have h: "map_of (cliHandlers (meets sc nsc c)) rid = Some (Executing m [] res)" using ended(2) by (simp add: meets_def)
  note o1 = clientOwes_meets [OF o, of sc nsc]
  have m: "runRequestID m = rid" using handled(2) [OF o1 h] by simp
  have "rsRequestID s = rid" by (rule owes_runOf_id [OF o ended(3)])
  moreover have "P \<inter> waiting c = {}" using o by (simp add: clientOwes_def)
  ultimately have "clientOwes sha (endHandler rid (finishOn env rid s (resultOf s m res) (meets sc nsc c))) P"
    by (intro finish_owes [OF o1]) auto
  with ended m show ?thesis by (simp add: finishHandler_def)
next
  case (drained rid s env sent sc nsc outs)
  have "runOf (meets sc nsc c) rid = Some s" using drained(2) by simp
  from drainRun_owes [OF clientOwes_meets [OF o] this drained(3)] drained(1) show ?thesis by simp
next
  case connected
  with requeueActiveStarts_owes [OF requeueUnacknowledgedResults_owes [OF o]] show ?thesis by simp
next
  case (reloaded v e)
  with o show ?thesis by (simp add: setVerifier_def)
next
  case closed
  with shutdownClient_owes [OF o] show ?thesis by simp
next
  case (restarted w legacy bl mc mp rs e v ns nd j)
  have i: "ringInv sha False (P \<union> waiting c) (cliRing c) (cliWorld c)" using o by (simp add: clientOwes_def)
  then have p: "storePath (cliRing c) \<noteq> ''''" and "safeStore sha P (storePath (cliRing c)) (cliWorld c)"
    using ringInv_mono [OF i, of P] by (auto simp: ringInv_def)
  from hostCrash_safe [OF restarted(3) this(2)] newClient_owes [OF _ _ p restarted(4,5)] restarted(1,2) show ?thesis
    by simp
qed

interpretation client_log: owing_log "clientStep sha" "clientOwes sha" for sha
proof
  show "clientStep sha (Started k) s s' \<Longrightarrow> clientOwes sha s P \<Longrightarrow> k \<notin> P \<and> clientOwes sha s' (insert k P)"
    for k P and s s' :: "('a, 'b) Client" by (drule (1) clientStep_owes) simp
  show "clientStep sha (Acked k) s s' \<Longrightarrow> clientOwes sha s P \<Longrightarrow> clientOwes sha s' (P - {k})"
    for k P and s s' :: "('a, 'b) Client" by (drule (1) clientStep_owes) simp
  show "clientStep sha Quiet s s' \<Longrightarrow> clientOwes sha s P \<Longrightarrow> clientOwes sha s' P"
    for P and s s' :: "('a, 'b) Client" by (drule (1) clientStep_owes) simp
qed

end
