(* ===== verification/Client_Props.thy ===== *)
theory Client_Props
  imports Client_Proofs
begin

text \<open>
  What the client promises, over every life it can have: entering the executor at most once for a
  dispatch, the bounds of its tables, the gates before a run, the answers to a dispatch the log
  already knows, cancellations that come first, and what a new connection resends.
\<close>

subsection \<open>Lives of a client\<close>

text \<open>C31: At most once, for the whole client.  Start a client on any settled data directory and let it
  receive any frames, run its gates and handlers, lose connections, be reconfigured, crash and start
  again, in any order and with any input/output failures on the way: \<open>Engine.Run\<close> is not entered
  a second time for a request id unless the control plane's acknowledgement of that id was
  received in between.\<close>

theorem engine_entered_once:
  assumes "settled p w0" and "p \<noteq> ''''" and "p \<noteq> legacy" and "p \<noteq> legacy @ ''.migrated''"
    and "trace (clientStep sha) (newClient sha bl mc mp rs p legacy e v ns nd j w0) evs c"
  shows "\<not> (\<exists>a k b d. evs = a @ Started k # b @ Started k # d \<and> Acked k \<notin> set b)"
proof -
  have o: "clientOwes sha (newClient sha bl mc mp rs p legacy e v ns nd j w0) {}"
    by (rule newClient_owes [OF safeStore_empty assms(1-4)])
  from client_log.trace_started_once [OF assms(5) o] show ?thesis
    using startedOnce_between by blast
qed

text \<open>C32: Bounded and leak-free tables.  In every reachable state the handlers number at most the
  configured cap, they are exactly the runs that are not finished (so a place is never lost and never
  used twice), and the tombstones of early cancellations stay within the size of the log's ring,
  each id once.\<close>

theorem client_tables_bounded:
  assumes "settled p w0" and "p \<noteq> ''''" and "p \<noteq> legacy" and "p \<noteq> legacy @ ''.migrated''"
    and "trace (clientStep sha) (newClient sha bl mc mp rs p legacy e v ns nd j w0) evs c"
  shows "countActiveRuns c = length (cliHandlers c) \<and> length (cliHandlers c) \<le> cliMaxConcurrent c
    \<and> (\<forall>rid. rid \<in> fst ` set (cliHandlers c) \<longleftrightarrow> (\<exists>s. runOf c rid = Some s \<and> \<not> rsFinished s))
    \<and> distinct (map fst (cliHandlers c)) \<and> distinct (map fst (cliRuns c))
    \<and> set (cliPreCanceledOrder c) = cliPreCanceled c
    \<and> card (cliPreCanceled c) = length (cliPreCanceledOrder c)
    \<and> length (cliPreCanceledOrder c) \<le> cliRingSize c"
proof -
  have o: "clientOwes sha (newClient sha bl mc mp rs p legacy e v ns nd j w0) {}"
    by (rule newClient_owes [OF safeStore_empty assms(1-4)])
  from client_log.trace_owes [OF assms(5) o] have oc: "clientOwes sha c (owing {} evs)" by blast
  then have t: "tableOK c" and tb: "tombstonesOK c" by (simp_all add: clientOwes_def clientInv_def)
  have "rid \<in> handling c \<longleftrightarrow> (\<exists>s. runOf c rid = Some s \<and> \<not> rsFinished s)" for rid
    using handled_live [OF oc, of rid] unhandled_finished [OF oc, of rid] by (auto simp: live_def)
  moreover have "card (cliPreCanceled c) = length (cliPreCanceledOrder c)"
    using tb distinct_card [of "cliPreCanceledOrder c"] by (auto simp: tombstonesOK_def)
  ultimately show ?thesis
    using t tb active_is_handlers [OF t] by (simp add: tableOK_def tombstonesOK_def handling_def)
qed

subsection \<open>The gates of a run\<close>

text \<open>What has to hold before the engine is entered, written out.\<close>

definition cleared :: "('v, 'r) Env \<Rightarrow> RunActionMsg \<Rightarrow> ('v, 'r) Client \<Rightarrow> bool" where
  "cleared env m c \<longleftrightarrow>
     (\<forall>v. cliVerifier c = Some v \<longrightarrow>
        \<not> (RunAttestation m \<noteq> None \<and> hasOverrides (RunOptions m))
        \<and> Allowed (fst (Check (envCrypto env) (envNonceLine env) v (signedIntent m) (RunAttestation m)
            (envNow env) (envLater env) (cliNonces c) (cliNonceDisk c))))
   \<and> (\<exists>reg. engRegistry (cliEngine c) = Some reg
        \<and> (\<forall>act. actionOf reg (ActionID m) = Some act \<and> PackID act \<noteq> '''' \<longrightarrow>
             (\<exists>pack. packOf reg (PackID act) = Some pack
               \<and> recomputePackHash (hSha (envHost env)) (hReadFile (envHost env)) reg (PackID act)
                   = Inr (ExpectedPackHash m)
               \<and> PackRef m \<in> {'''', packID pack @ ''@'' @ packVersion pack @ ''/'' @ ExpectedPackHash m})))"

text \<open>A result that ends a run: queued after what was queued before, or held until it is recorded.\<close>

definition ended :: "string \<Rightarrow> runState \<Rightarrow> ActionResultMsg \<Rightarrow> ('v, 'r) Client \<Rightarrow> bool" where
  "ended rid s r c \<longleftrightarrow> (\<exists>s'. runOf c rid = Some s' \<and> rsFinished s' \<and> rsStarted s' = rsStarted s
     \<and> (pending s' = pending s @ [ResultMsg r] \<and> terminal s' = terminal s
        \<or> pending s' = pending s \<and> terminal s' = Some r))"

lemma trustGate_None:
  "trustGate env m reg = None \<longleftrightarrow>
     (\<forall>act. actionOf reg (ActionID m) = Some act \<and> PackID act \<noteq> '''' \<longrightarrow>
        (\<exists>pack. packOf reg (PackID act) = Some pack
          \<and> recomputePackHash (hSha (envHost env)) (hReadFile (envHost env)) reg (PackID act)
              = Inr (ExpectedPackHash m)
          \<and> PackRef m \<in> {'''', packID pack @ ''@'' @ packVersion pack @ ''/'' @ ExpectedPackHash m}))"
  by (auto simp: trustGate_def Let_def split: option.splits sum.splits if_splits)

lemma signatureGate_None:
  "fst (signatureGate env m c) = None \<longleftrightarrow>
     (\<forall>v. cliVerifier c = Some v \<longrightarrow>
        \<not> (RunAttestation m \<noteq> None \<and> hasOverrides (RunOptions m))
        \<and> Allowed (fst (Check (envCrypto env) (envNonceLine env) v (signedIntent m) (RunAttestation m)
            (envNow env) (envLater env) (cliNonces c) (cliNonceDisk c))))"
  by (auto simp: signatureGate_def split: option.splits prod.splits)

lemma ended_finishOn: "rid = rid' \<Longrightarrow> ended rid s r (endHandler rid' (finishOn env rid' s r c))"
  by (auto simp: ended_def finishOn_def finishRun_def endHandler_def runOf_def putRun_def
      split: prod.splits option.splits)

lemma ended_readvertise: "ended rid s r (endHandler k (c\<lparr>cliReadvertise := b\<rparr>)) = ended rid s r (endHandler k c)"
  by (simp add: ended_def endHandler_def runOf_def)

lemma ended_refuseRun:
  "\<exists>r. ended (runRequestID m) s r (endHandler (runRequestID m) (refuseRun env s m status reason err detail c))
     \<and> resRequestID r = runRequestID m \<and> Status r = status \<and> ExitCode r = -1"
proof -
  obtain eid c1 where a: "auditRefusal (requestForDispatch m None False) detail c = (eid, c1)" by force
  show ?thesis
    unfolding refuseRun_def Let_def a prod.case
    by (rule exI, rule conjI, rule ended_finishOn [OF refl]) (simp add: withLocalAudit_def envelope_def)
qed

lemma ended_recoverPanic:
  assumes "\<not> rsFinished s"
  shows "\<exists>r. ended (runRequestID m) s r (endHandler (runRequestID m) (recoverPanic env s m c))
     \<and> resRequestID r = runRequestID m \<and> Status r = ''failed'' \<and> ExitCode r = -1"
proof -
  obtain eid j where a: "recordExecutionFailure (cliEngine c) (cliJournal c) (requestForDispatch m None False)
      ''runner recovered an internal dispatch panic'' = (eid, j)" by force
  show ?thesis
    using assms unfolding recoverPanic_def a prod.case
    by (simp only: if_False simp_thms)
      (rule exI, rule conjI, rule ended_finishOn [OF refl],
        simp add: withLocalAudit_def failedDispatchResult_def envelope_def)
qed

lemma not_handling_endHandler [simp]: "rid \<notin> handling (endHandler rid c)"
  by (auto simp: handling_def endHandler_def set_removeKey)

text \<open>C33: The gates are exact.  A waiting run enters the engine exactly when the loaded verifier (if
  any) allows the dispatch without execution overrides, and the action's pack, hashed again from
  disk, is the one the control plane named.  In every other case the handler ends without the
  engine, without an announcement that the run started, and with one terminal result: a refusal with
  exit code -1 for its own request id, queued behind what was queued or held until it is recorded.\<close>

theorem run_gate_exact:
  assumes "\<not> rsFinished s" and "gateRun env s m c = (entered, c')"
  shows "(entered \<longleftrightarrow> cleared env m c)
    \<and> (\<not> entered \<longrightarrow> runRequestID m \<notin> fst ` set (cliHandlers c')
        \<and> (\<exists>r. ended (runRequestID m) s r c' \<and> resRequestID r = runRequestID m \<and> ExitCode r = -1
             \<and> Status r \<in> {''signature_invalid'', ''pack_hash_mismatch'', ''failed''}))"
proof -
  obtain r c1 where sg: "signatureGate env m c = (r, c1)" by force
  obtain ns nd where c1: "c1 = c\<lparr>cliNonces := ns, cliNonceDisk := nd\<rparr>" using signatureGate_fields [OF sg] by blast
  have cl: "cleared env m c \<longleftrightarrow> r = None \<and> (\<exists>reg. engRegistry (cliEngine c1) = Some reg \<and> trustGate env m reg = None)"
    unfolding cleared_def signatureGate_None [symmetric] trustGate_None [symmetric] by (simp add: sg c1)
  have h: "fst ` set (cliHandlers c') = handling c'" by (simp add: handling_def)
  show ?thesis
  proof (cases r)
    case (Some x)
    obtain code detail where x: "x = (code, detail)" by force
    then have "c' = endHandler (runRequestID m) (refuseSignature env s m code detail c1)" "\<not> entered"
      using assms(2) sg Some by (auto simp: gateRun_def Let_def)
    with cl Some ended_refuseRun [of m s env "''signature_invalid''"] show ?thesis
      unfolding h refuseSignature_def by fastforce
  next
    case None
    show ?thesis
    proof (cases "engRegistry (cliEngine c1)")
      case None
      with \<open>r = None\<close> assms(2) sg have "c' = endHandler (runRequestID m) (recoverPanic env s m c1)" "\<not> entered"
        by (auto simp: gateRun_def Let_def)
      with cl None ended_recoverPanic [OF assms(1), of m env c1] show ?thesis unfolding h by fastforce
    next
      case (Some reg)
      show ?thesis
      proof (cases "trustGate env m reg")
        case None
        with \<open>r = None\<close> Some assms(2) sg cl show ?thesis by (auto simp: gateRun_def Let_def)
      next
        case (Some x)
        obtain pid expected got again where x: "x = (pid, expected, got, again)" by (cases x) auto
        let ?c2 = "emitPackMismatch env s m pid expected got c1"
        have c': "c' = endHandler (runRequestID m) (if again then ?c2\<lparr>cliReadvertise := True\<rparr> else ?c2)" "\<not> entered"
          using \<open>r = None\<close> \<open>engRegistry (cliEngine c1) = Some reg\<close> Some x assms(2) sg
          by (auto simp: gateRun_def Let_def)
        have "\<exists>r. ended (runRequestID m) s r (endHandler (runRequestID m) ?c2) \<and> resRequestID r = runRequestID m
            \<and> Status r = ''pack_hash_mismatch'' \<and> ExitCode r = -1"
          unfolding emitPackMismatch_def Let_def by (rule ended_refuseRun)
        then have "\<exists>r. ended (runRequestID m) s r c' \<and> resRequestID r = runRequestID m
            \<and> Status r = ''pack_hash_mismatch'' \<and> ExitCode r = -1"
          by (simp add: c'(1) ended_readvertise)
        moreover have "runRequestID m \<notin> handling c'" by (simp add: c'(1))
        moreover have "\<not> cleared env m c" using cl \<open>engRegistry (cliEngine c1) = Some reg\<close> Some by simp
        ultimately show ?thesis using c'(2) unfolding h by fastforce
      qed
    qed
  qed
qed

subsection \<open>A dispatch that is already known\<close>

text \<open>A terminal message of a run: queued, or held until it is recorded.\<close>

definition answered :: "string \<Rightarrow> ActionResultMsg \<Rightarrow> ('v, 'r) Client \<Rightarrow> bool" where
  "answered rid r c \<longleftrightarrow> (\<exists>s. runOf c rid = Some s \<and> rsFinished s
     \<and> (pending s = [ResultMsg r] \<and> terminal s = None \<or> pending s = [] \<and> terminal s = Some r))"

lemma enqueueTransient_answers:
  assumes "runOf c rid = None" and "enqueueTransient rid (ResultMsg r) c = (b, c')"
  shows "cliHandlers c' = cliHandlers c \<and> (b \<longrightarrow> answered rid r c')"
  using assms by (auto simp: enqueueTransient_def answered_def putRun_def runOf_def split: if_splits)

lemma finishOn_answers:
  "answered rid r (finishOn env rid (newRunState rid digest) r c)"
  by (auto simp: answered_def finishOn_def finishRun_def split: prod.splits option.splits)

lemma handlers_finishOn [simp]: "cliHandlers (finishOn env rid s r c) = cliHandlers c"
  by (auto simp: finishOn_def putRun_def split: prod.splits)

lemma enqueueDurableResult_answers:
  assumes "enqueueDurableResult env rid digest r c = (b, c')"
  shows "cliHandlers c' = cliHandlers c \<and> (b \<longrightarrow> answered rid r c')"
  using assms by (auto simp: enqueueDurableResult_def finishOn_answers split: if_splits)

lemma refusedDispatchResult_fields':
  "refusedDispatchResult m reason detail c = (r, c') \<Longrightarrow>
     (\<exists>j. c' = c\<lparr>cliJournal := j\<rparr>) \<and> resRequestID r = runRequestID m \<and> Status r = ''failed''
     \<and> ExitCode r = -1 \<and> ResReason r = reason \<and> ResError r = detail"
  by (auto simp: refusedDispatchResult_def withLocalAudit_def failedDispatchResult_def envelope_def
      dest: auditRefusal_fields split: prod.splits)

text \<open>C34: A redelivered dispatch is answered, never executed.  When the log already holds a record
  of the id (and no run of it is live), no handler is spawned; unless the response backlog is full,
  which ends the session, the answer is the stored result if the record is terminal under the same
  facts, \<open>dispatch_id_conflict\<close> if the facts differ, and \<open>execution_outcome_unknown\<close> if the
  earlier execution was cut off by a restart.\<close>

theorem known_dispatch_replayed:
  assumes "dispatchDigest (hSha (envHost env)) (envArgs env) (envFacts env) m = Some digest"
    and "validDispatchDigest digest" and "runRequestID m = rid" and "\<not> cliClosing c"
    and "runOf c rid = None" and "unusableLocked (cliRing c) = None" and "ringRecords (cliRing c) rid = Some e"
    and "startRun env m c = (out, c')"
  shows "cliHandlers c' = cliHandlers c \<and> (out = Some BacklogFull
    \<or> out = None \<and> (\<exists>r. answered rid r c' \<and>
        (if DispatchSHA256 e \<noteq> digest then Status r = ''failed'' \<and> ResReason r = ''dispatch_id_conflict''
         else if State e \<in> {dispatchCompleted, dispatchAcknowledged} then r = EntResult e
         else Status r = ''failed'' \<and> ResReason r = ''execution_outcome_unknown'')))"
proof -
  obtain decision cached where i: "inspect rid digest (cliRing c) = Inr (decision, cached)"
    and d: "(decision, cached) = (if DispatchSHA256 e \<noteq> digest then (reservationConflict, zeroResult)
                else if State e \<in> {dispatchCompleted, dispatchAcknowledged} then (reservationReplay, EntResult e)
                else (reservationPending, zeroResult))"
    using known_dispatch_answered [OF assms(6,2,7)] by (metis prod.collapse)
  then have n: "decision \<noteq> reservationNew" by (auto split: if_splits)
  obtain b where h: "handleReservationDecision env m digest decision cached c = (b, c')"
    and out: "out = (if b then None else Some BacklogFull)"
    using assms(8) by (cases "handleReservationDecision env m digest decision cached c")
      (simp add: startRun_def Let_def assms(1,3,4,5) i n orBacklogFull_def)
  show ?thesis
  proof (cases decision)
    case reservationReplay
    with d have "cached = EntResult e" "DispatchSHA256 e = digest" "State e \<in> {dispatchCompleted, dispatchAcknowledged}"
      by (auto split: if_splits)
    with h reservationReplay enqueueTransient_answers [of c rid cached] assms(3,5) out show ?thesis
      by (auto simp: handleReservationDecision_def)
  next
    case reservationPending
    with d have e: "DispatchSHA256 e = digest" "State e \<notin> {dispatchCompleted, dispatchAcknowledged}" by (auto split: if_splits)
    obtain r c1 where r: "refusedDispatchResult m ''execution_outcome_unknown''
        ''runner restarted after reserving this dispatch; it was not re-executed because prior side effects are unknown'' c = (r, c1)"
      by force
    from refusedDispatchResult_fields' [OF r] h reservationPending r enqueueDurableResult_answers [of env rid digest r c1] out e assms(3)
    show ?thesis by (auto simp: handleReservationDecision_def)
  next
    case reservationConflict
    with d have e: "DispatchSHA256 e \<noteq> digest" by (auto split: if_splits)
    obtain r c1 where r: "refusedDispatchResult m ''dispatch_id_conflict''
        ''request_id was already bound to different execution facts; action was not executed'' c = (r, c1)" by force
    have "runOf c1 rid = None" using refusedDispatchResult_fields' [OF r] assms(5) by auto
    from enqueueTransient_answers [OF this] refusedDispatchResult_fields' [OF r] h reservationConflict r out e assms(3)
    show ?thesis by (auto simp: handleReservationDecision_def)
  qed (use n in simp)
qed

lemma requeueResult_other:
  "resRequestID r \<noteq> rid \<Longrightarrow> runOf (requeueResult r c) rid = runOf c rid"
  by (auto simp: requeueResult_def Let_def split: option.split)

subsection \<open>A new connection\<close>

lemma unacknowledged_record:
  assumes "r \<in> set (unacknowledgedResults d)" and "ringInv sha strict P d w" and "resultsOK d"
  shows "resRequestID r \<noteq> '''' \<and> (\<exists>e. ringRecords d (resRequestID r) = Some e \<and> r = EntResult e)"
proof -
  have u: "unusableLocked d = None" using assms(1) by (auto simp: unacknowledgedResults_def split: if_splits)
  have mf: "set (List.map_filter f xs) = {y. \<exists>x \<in> set xs. f x = Some y}" for f :: "string \<Rightarrow> ActionResultMsg option" and xs
    by (force simp: List.map_filter_def)
  from assms(1) u obtain k e where k: "ringRecords d k = Some e" "State e = dispatchCompleted" "r = EntResult e"
    by (auto simp: unacknowledgedResults_def mf split: option.splits if_splits)
  have "EntRequestID e = k \<and> k \<noteq> ''''" using assms(2) u k(1) by (auto simp: ringInv_def memOK_def wfEntries_def)
  moreover have "recordOK e" using assms(3) u k(1) by (auto simp: resultsOK_def intro: ranI)
  ultimately show ?thesis using k by (auto simp: recordOK_def validActionResult_def split: if_splits)
qed

lemma requeueResults_run:
  assumes "\<forall>r2 \<in> set rs. resRequestID r2 = resRequestID r \<longrightarrow> r2 = r" and "r \<in> set rs" and "resRequestID r \<noteq> ''''"
  shows "\<exists>s. runOf (foldl (\<lambda>c r. requeueResult r c) c rs) (resRequestID r) = Some s
    \<and> (pending s = [ResultMsg r] \<and> rsFinished s \<or> runOf c (resRequestID r) = Some s \<and> pending s \<noteq> [])"
  using assms
proof (induction rs arbitrary: c)
  case (Cons x rs)
  have keep: "\<exists>s. runOf c (resRequestID r) = Some s \<and> pending s \<noteq> [] \<Longrightarrow> \<forall>r2 \<in> set rs. resRequestID r2 = resRequestID r \<longrightarrow> r2 = r
      \<Longrightarrow> runOf (foldl (\<lambda>c r. requeueResult r c) c rs) (resRequestID r) = runOf c (resRequestID r)" for c :: "('a, 'b) Client" and rs
  proof (induction rs arbitrary: c)
    case (Cons y ys)
    have "runOf (requeueResult y c) (resRequestID r) = runOf c (resRequestID r)"
      using Cons.prems requeueResult_other [of y "resRequestID r" c]
      by (cases "resRequestID y = resRequestID r") (auto simp: requeueResult_def Let_def)
    with Cons show ?case by simp
  qed simp
  show ?case
  proof (cases "resRequestID x = resRequestID r")
    case True
    with Cons.prems have x: "x = r" by simp
    have "\<exists>s. runOf (requeueResult r c) (resRequestID r) = Some s \<and> pending s \<noteq> []
      \<and> (pending s = [ResultMsg r] \<and> rsFinished s \<or> runOf c (resRequestID r) = Some s)"
    proof (cases "runOf c (resRequestID r)")
      case (Some a)
      with Cons.prems(3) show ?thesis by (cases "pending a = []") (auto simp: requeueResult_def Let_def)
    qed (use Cons.prems(3) in \<open>simp add: requeueResult_def Let_def\<close>)
    then obtain s where s: "runOf (requeueResult r c) (resRequestID r) = Some s" "pending s \<noteq> []"
      "pending s = [ResultMsg r] \<and> rsFinished s \<or> runOf c (resRequestID r) = Some s" by blast
    from keep [of "requeueResult r c" rs] Cons.prems(1) s x show ?thesis by auto
  next
    case False
    then have "r \<in> set rs" using Cons.prems(2) by auto
    moreover have "\<forall>r2 \<in> set rs. resRequestID r2 = resRequestID r \<longrightarrow> r2 = r" using Cons.prems(1) by simp
    ultimately show ?thesis
      using Cons.IH [of "requeueResult x c", OF _ _ Cons.prems(3)] by (simp add: requeueResult_other [OF False])
  qed
qed simp

lemma requeueResults_other:
  "\<forall>r \<in> set rs. resRequestID r \<noteq> rid \<Longrightarrow> runOf (foldl (\<lambda>c r. requeueResult r c) c rs) rid = runOf c rid"
  by (induction rs arbitrary: c) (simp_all add: requeueResult_other)

lemma runOf_requeueActiveStarts:
  "runOf (requeueActiveStarts c) rid
     = map_option (\<lambda>s. case requeueActiveStart s of None \<Rightarrow> s | Some s' \<Rightarrow> s') (runOf c rid)"
proof -
  have "map_of (map (\<lambda>(rid, s). (rid, f s)) rs) rid = map_option f (map_of rs rid)" for f :: "runState \<Rightarrow> runState" and rs
    by (induction rs) auto
  then show ?thesis by (simp add: requeueActiveStarts_def runOf_def)
qed


subsection \<open>A cancellation that comes first\<close>

lemma handlers_enqueueTransient: "cliHandlers (snd (enqueueTransient rid msg c)) = cliHandlers c"
  by (simp add: enqueueTransient_def putRun_def split: option.split)

lemma handlers_refused: "refusedDispatchResult m reason detail c = (r, c1) \<Longrightarrow> cliHandlers c1 = cliHandlers c"
  by (auto dest: refusedDispatchResult_fields)

lemma handlers_dispatchReservationFailed: "cliHandlers (snd (dispatchReservationFailed m c)) = cliHandlers c"
  by (auto simp: dispatchReservationFailed_def handlers_enqueueTransient dest: handlers_refused split: prod.split)

lemma handlers_handleReservationDecision:
  "cliHandlers (snd (handleReservationDecision env m digest decision cached c)) = cliHandlers c"
  by (cases decision)
    (auto simp: handleReservationDecision_def handlers_enqueueTransient enqueueDurableResult_def
      dest: handlers_refused split: prod.split)

lemma handlers_answerCancelled: "cliHandlers (answerCancelled env digest m c) = cliHandlers c"
  by (simp add: answerCancelled_def Let_def split: prod.split)

lemma admitRun_cancelled:
  assumes "runRequestID m \<in> cliPreCanceled c" and a: "admitRun env digest m c = (out, c')"
    and r: "reserve (envLine env) (runRequestID m) digest (cliRing c) (cliWorld c) = (res, d, w)"
  shows "cliHandlers c' = cliHandlers c
    \<and> (\<forall>x. res = Inr (reservationNew, x) \<longrightarrow> out = None
        \<and> (\<exists>r. answered (runRequestID m) r c' \<and> resRequestID r = runRequestID m \<and> Status r = ''cancelled''
              \<and> ResReason r = ''cancelled_before_start''))"
proof -
  obtain c0 where c0: "consumePreCancel (runRequestID m) c = (True, c0)" and f: "cliHandlers c0 = cliHandlers c"
    "cliRing c0 = cliRing c" "cliWorld c0 = cliWorld c"
    using assms(1) by (simp add: consumePreCancel_def)
  let ?c1 = "c0\<lparr>cliRing := d, cliWorld := w\<rparr>"
  have step: "(out, c') = (case res of
        Inl e \<Rightarrow> orBacklogFull (dispatchReservationFailed m ?c1)
      | Inr (decision, cached) \<Rightarrow>
          if decision \<noteq> reservationNew then orBacklogFull (handleReservationDecision env m digest decision cached ?c1)
          else (None, answerCancelled env digest m ?c1))"
    unfolding a [symmetric] by (cases res) (simp_all add: admitRun_def Let_def c0 r f case_prod_unfold)
  show ?thesis
  proof (cases res)
    case (Inl e)
    then have "c' = snd (dispatchReservationFailed m ?c1)" using arg_cong [OF step, of snd] by simp
    with Inl f show ?thesis by (simp add: handlers_dispatchReservationFailed)
  next
    case (Inr y)
    obtain decision cached where y: "y = (decision, cached)" by force
    show ?thesis
    proof (cases "decision = reservationNew")
      case False
      then have "c' = snd (handleReservationDecision env m digest decision cached ?c1)"
        using Inr y arg_cong [OF step, of snd] by simp
      with Inr y False f show ?thesis by (simp add: handlers_handleReservationDecision)
    next
      case True
      with step Inr y have c': "out = None" "c' = answerCancelled env digest m ?c1" by simp_all
      obtain eid j where ej: "recordDispatchCancellation (cliEngine ?c1) (cliJournal ?c1) (requestForDispatch m None False)
          ''cancelled before process start'' = (eid, j)" by force
      let ?r = "withLocalAudit (zeroResult\<lparr>resEnvelope := envelope MsgActionResult (runRequestID m),
          Status := ''cancelled'', ExitCode := -1, ResReason := ''cancelled_before_start''\<rparr>) eid"
      have "answered (runRequestID m) ?r c'"
        unfolding c'(2) answerCancelled_def Let_def ej prod.case by (rule finishOn_answers)
      moreover have "resRequestID ?r = runRequestID m" "Status ?r = ''cancelled''" "ResReason ?r = ''cancelled_before_start''"
        by (simp_all add: withLocalAudit_def envelope_def)
      moreover have "cliHandlers c' = cliHandlers c" using f by (simp add: c'(2) handlers_answerCancelled)
      ultimately show ?thesis using c'(1) by blast
    qed
  qed
qed

lemma rememberPreCancel_fields:
  assumes "rid \<noteq> ''''"
  shows "rid \<in> cliPreCanceled (rememberPreCancel rid c) \<and> cliHandlers (rememberPreCancel rid c) = cliHandlers c
    \<and> cliRing (rememberPreCancel rid c) = cliRing c \<and> cliWorld (rememberPreCancel rid c) = cliWorld c
    \<and> cliClosing (rememberPreCancel rid c) = cliClosing c \<and> runOf (rememberPreCancel rid c) k = runOf c k"
  using assms by (simp add: rememberPreCancel_def runOf_def Let_def)

lemma reserve_new_inspects:
  assumes "reserve bl rid digest d w = (Inr (reservationNew, x), d', w')"
  shows "inspect rid digest d = Inr (reservationNew, zeroResult)"
proof -
  have "unusableLocked d = None \<and> validDispatchDigest digest \<and> ringRecords d rid = None"
    using assms by (rule contrapos_pp) (auto simp: reserve_def classifyLocked_def split: option.splits if_splits)
  then show ?thesis by (simp add: inspect_def classifyLocked_def)
qed

text \<open>C36: A cancelled dispatch does not start.  When a cancel arrives for an id that is unknown, the
  dispatch of that id that follows spawns no handler, however much capacity is free; and once the
  log grants its reservation it is answered with a terminal \<open>cancelled\<close> result, even at the
  concurrency cap.\<close>

theorem cancel_before_dispatch:
  assumes "runOf c rid = None" and "\<not> containsId rid (cliRing c)" and "rid \<noteq> ''''" and "runRequestID m = rid"
    and "startRun env m (cancelRun rid c) = (out, c')"
  shows "cliHandlers c' = cliHandlers c
    \<and> (\<forall>digest x d w. dispatchDigest (hSha (envHost env)) (envArgs env) (envFacts env) m = Some digest
          \<and> \<not> cliClosing c \<and> reserve (envLine env) rid digest (cliRing c) (cliWorld c) = (Inr (reservationNew, x), d, w)
        \<longrightarrow> out = None \<and> (\<exists>r. answered rid r c' \<and> resRequestID r = rid \<and> Status r = ''cancelled''
              \<and> ResReason r = ''cancelled_before_start''))"
proof -
  let ?c = "rememberPreCancel rid c"
  note f = rememberPreCancel_fields [OF assms(3), of c]
  have st: "startRun env m ?c = (out, c')" using assms(1,2,5) by (simp add: cancelRun_def)
  show ?thesis
  proof (cases "dispatchDigest (hSha (envHost env)) (envArgs env) (envFacts env) m")
    case None
    obtain r c1 where r: "refusedDispatchResult m ''dispatch_invalid'' (envDigestError env) ?c = (r, c1)" by force
    have "c' = snd (enqueueTransient rid (ResultMsg r) c1)"
      using st None r assms(4) by (auto simp: startRun_def Let_def orBacklogFull_def)
    with None handlers_refused [OF r] f show ?thesis by (simp add: handlers_enqueueTransient)
  next
    case (Some digest)
    show ?thesis
    proof (cases "cliClosing c")
      case True
      with st Some f assms(4) show ?thesis by (auto simp: startRun_def Let_def)
    next
      case open': False
      obtain res d w where rs: "reserve (envLine env) rid digest (cliRing c) (cliWorld c) = (res, d, w)" by (metis prod_cases3)
      have run: "startRun env m ?c = (case inspect rid digest (cliRing c) of
           Inl e \<Rightarrow> orBacklogFull (dispatchReservationFailed m ?c)
         | Inr (decision, cached) \<Rightarrow>
             if decision \<noteq> reservationNew then orBacklogFull (handleReservationDecision env m digest decision cached ?c)
             else admitRun env digest m ?c)"
        using open' f [of rid] assms(1,4) Some by (simp add: startRun_def Let_def)
      have adm: "admitRun env digest m ?c = (out, c') \<Longrightarrow> ?thesis"
        using admitRun_cancelled [of m ?c env digest out c' res d w] f rs assms(4) Some by auto
      show ?thesis
      proof (cases "\<exists>x. inspect rid digest (cliRing c) = Inr (reservationNew, x)")
        case True
        with st run have "admitRun env digest m ?c = (out, c')" by auto
        then show ?thesis by (rule adm)
      next
        case False
        then have nn: "\<forall>x. res \<noteq> Inr (reservationNew, x)"
          using reserve_new_inspects [of "envLine env" rid digest "cliRing c" "cliWorld c" _ d w] rs by auto
        have "cliHandlers c' = cliHandlers c"
        proof (cases "inspect rid digest (cliRing c)")
          case (Inl e)
          with st run have "c' = snd (dispatchReservationFailed m ?c)" by (auto simp: orBacklogFull_def)
          with f show ?thesis by (simp add: handlers_dispatchReservationFailed)
        next
          case (Inr y)
          obtain decision cached where "y = (decision, cached)" by force
          with Inr False st run have "c' = snd (handleReservationDecision env m digest decision cached ?c)"
            by (auto simp: orBacklogFull_def)
          with f show ?thesis by (simp add: handlers_handleReservationDecision)
        qed
        with nn rs Some show ?thesis by auto
      qed
    qed
  qed
qed

text \<open>A dispatch whose cancellation came first and whose reservation fails is refused, and the
  cancellation is forgotten with it: the same dispatch, delivered again, is an ordinary one.\<close>

lemma failed_reservation_forgets:
  assumes "runRequestID m \<in> cliPreCanceled c" and a: "admitRun env digest m c = (out, c')"
    and r: "reserve (envLine env) (runRequestID m) digest (cliRing c) (cliWorld c) = (Inl e, d, w)"
  shows "runRequestID m \<notin> cliPreCanceled c'"
proof -
  obtain c0 where c0: "consumePreCancel (runRequestID m) c = (True, c0)" and f: "cliRing c0 = cliRing c"
    "cliWorld c0 = cliWorld c" "runRequestID m \<notin> cliPreCanceled c0"
    using assms(1) by (simp add: consumePreCancel_def)
  have "c' = snd (dispatchReservationFailed m (c0\<lparr>cliRing := d, cliWorld := w\<rparr>))"
    using a r f by (auto simp: admitRun_def Let_def c0 orBacklogFull_def)
  moreover have "cliPreCanceled (snd (enqueueTransient k x cx)) = cliPreCanceled cx" for k x and cx :: "('a, 'b) Client"
    by (simp add: enqueueTransient_def putRun_def split: option.split)
  ultimately show ?thesis
    using f(3) by (auto simp: dispatchReservationFailed_def dest: refusedDispatchResult_fields split: prod.split)
qed

subsection \<open>A concrete life\<close>

definition sampleEnv :: "(unit, unit) Env" where
  "sampleEnv = \<lparr>envHost = sampleHost\<lparr>hSha := (\<lambda>_. sampleDigest), hReadFile := (\<lambda>_. Some '''')\<rparr>,
     envCrypto = Signing.sampleLib, envLine = (\<lambda>_. 9), envNonceLine = (\<lambda>_. 9), envFold = (\<lambda>r. r),
     envArgs = (\<lambda>_. Some ''{}''), envFacts = (\<lambda>_. Some ''facts''), envDigestError = ''bad'',
     envSayDetail = (\<lambda>_. ''no''), envSayPack = (\<lambda>_. ''no''), envSayMismatch = (\<lambda>a b c. ''no''),
     envSayVersion = (\<lambda>_. ''no''), envNow = 5, envLater = 6, envRotate = (\<lambda>_. False)\<rparr>"

definition sampleClient :: "(unit, unit) Client" where
  "sampleClient = newClient (\<lambda>_. sampleDigest) (\<lambda>_. 9) 1 0 2 ''d'' ''l'' sampleEngine None sampleStore
     (sampleDisk []) sampleJournal freshWorld"

text \<open>A dispatch of one empty argument object, as it arrives.\<close>

definition runFrame :: string where
  "runFrame = concat [''{'', [quote], ''type'', [quote], '':'', [quote], ''run_action'', [quote], '','',
     [quote], ''protocol_version'', [quote], '':1,'', [quote], ''request_id'', [quote], '':'', [quote], ''r'', [quote],
     '','', [quote], ''args'', [quote], '':{}}'']"

definition runMsg :: RunActionMsg where
  "runMsg = \<lparr>runEnvelope = \<lparr>EnvType = MsgRunAction, EnvVersion = 1, EnvRequestID = ''r''\<rparr>, ActionID = '''',
     ExpectedPackHash = '''', PackRef = '''', RunArgs = [], ArgsRaw = ''{}'', RunOptions = None,
     RunReason = '''', OperationID = '''', RunAttestation = None\<rparr>"

lemma runFrame_routes: "routeFrame (\<lambda>r. r) runFrame = Routed \<lparr>EnvType = MsgRunAction, EnvVersion = 1, EnvRequestID = ''r''\<rparr>"
  by code_simp

lemma runFrame_decodes: "unmarshalRunAction (\<lambda>r. r) runFrame = Inr runMsg"
  by code_simp

definition dispatchedC :: "(unit, unit) Client" where
  "dispatchedC = snd (startRun sampleEnv runMsg (meets [] [] sampleClient))"

definition runStateOf :: "(unit, unit) Client \<Rightarrow> runState" where
  "runStateOf c = (case runOf c ''r'' of Some s \<Rightarrow> s | None \<Rightarrow> newRunState '''' '''')"

definition gatedC :: "(unit, unit) Client" where
  "gatedC = snd (gateRun sampleEnv (runStateOf dispatchedC) runMsg (meets [] [] dispatchedC))"

lemma runOfMsg: "runRequestID runMsg = ''r''"
  by (simp add: runMsg_def)

lemma sample_dispatched: "map_of (cliHandlers dispatchedC) ''r'' = Some (Waiting runMsg)"
proof -
  have "case map_of (cliHandlers dispatchedC) ''r'' of None \<Rightarrow> False
    | Some h \<Rightarrow> (case h of Waiting m \<Rightarrow> m = runMsg | Executing m x y \<Rightarrow> False)" by code_simp
  then show ?thesis by (auto split: option.splits handler.splits)
qed

lemma sample_state: "runOf dispatchedC ''r'' = Some (runStateOf dispatchedC)"
proof -
  have "case runOf dispatchedC ''r'' of Some s \<Rightarrow> True | None \<Rightarrow> False" by code_simp
  then show ?thesis by (auto simp: runStateOf_def split: option.splits)
qed

lemma sample_entered: "fst (gateRun sampleEnv (runStateOf dispatchedC) runMsg (meets [] [] dispatchedC))"
  by code_simp

lemma sample_ack: "ackOf (envFold sampleEnv) runFrame = None"
  using runFrame_routes by (simp add: sampleEnv_def ackOf_def message_types)

lemma sample_frame: "dispatchFrame sampleEnv runFrame c = startRun sampleEnv runMsg c"
  using runFrame_routes runFrame_decodes by (simp add: sampleEnv_def dispatchFrame_def)

lemma sample_life: "trace (clientStep (\<lambda>_. sampleDigest)) sampleClient [Quiet, Started ''r''] gatedC"
proof -
  have 1: "clientStep (\<lambda>_. sampleDigest) Quiet sampleClient dispatchedC"
    using clientStep.frame [of sampleEnv runFrame "[]" "[]" sampleClient _ dispatchedC "\<lambda>_. sampleDigest"] sample_ack
    by (simp add: sample_frame dispatchedC_def prod_eq_iff)
  have 2: "clientStep (\<lambda>_. sampleDigest) (Started ''r'') dispatchedC gatedC"
    using clientStep.gated [of dispatchedC "''r''" runMsg "runStateOf dispatchedC" sampleEnv "[]" "[]" True gatedC "\<lambda>_. sampleDigest"]
      sample_dispatched sample_state sample_entered by (simp add: gatedC_def prod_eq_iff)
  from trace_cons [of "clientStep (\<lambda>_. sampleDigest)", OF 1 trace_cons [of "clientStep (\<lambda>_. sampleDigest)", OF 2 trace_nil]]
  show ?thesis .
qed

lemma sample_births: "''d'' \<noteq> ''''" "''d'' \<noteq> ''l''" "''d'' \<noteq> ''l'' @ ''.migrated''"
  by simp_all

theorem engine_entered_once_witness:
  "\<not> (\<exists>a k b d. [Quiet, Started ''r''] = a @ Started k # b @ Started k # d \<and> Acked k \<notin> set b)
   \<and> trace (clientStep (\<lambda>_. sampleDigest)) sampleClient [Quiet, Started ''r''] gatedC"
  using engine_entered_once [OF sample_settled sample_births sample_life [unfolded sampleClient_def]] sample_life by blast

theorem client_tables_bounded_witness:
  "countActiveRuns gatedC = length (cliHandlers gatedC) \<and> length (cliHandlers gatedC) \<le> cliMaxConcurrent gatedC"
  using client_tables_bounded [OF sample_settled sample_births sample_life [unfolded sampleClient_def]] by blast


theorem run_gate_exact_witness:
  "\<not> rsFinished (runStateOf dispatchedC) \<and> cleared sampleEnv runMsg (meets [] [] dispatchedC)"
proof -
  have f: "\<not> rsFinished (runStateOf dispatchedC)" by code_simp
  obtain b c' where g: "gateRun sampleEnv (runStateOf dispatchedC) runMsg (meets [] [] dispatchedC) = (b, c')" by force
  with sample_entered have b by simp
  with run_gate_exact [OF f g] f show ?thesis by blast
qed

definition knownC :: "(unit, unit) Client" where
  "knownC = sampleClient\<lparr>cliRing := (emptyRing 1 ''d'' ''l'')\<lparr>ringKeys := [''r''],
     ringRecords := [''r'' \<mapsto> \<lparr>EntRequestID = ''r'', DispatchSHA256 = sampleDigest, State = dispatchCompleted,
       EntResult = zeroResult\<rparr>]\<rparr>\<rparr>"

lemma sample_digest: "dispatchDigest (hSha (envHost sampleEnv)) (envArgs sampleEnv) (envFacts sampleEnv) runMsg = Some sampleDigest"
  "validDispatchDigest sampleDigest"
  by code_simp+

theorem known_dispatch_replayed_witness:
  "cliHandlers (snd (startRun sampleEnv runMsg knownC)) = []"
proof -
  have k: "\<not> cliClosing knownC" "runOf knownC ''r'' = None" "unusableLocked (cliRing knownC) = None"
    "cliHandlers knownC = []"
    "ringRecords (cliRing knownC) ''r'' = Some \<lparr>EntRequestID = ''r'', DispatchSHA256 = sampleDigest,
       State = dispatchCompleted, EntResult = zeroResult\<rparr>"
    by (simp_all add: knownC_def sampleClient_def newClient_def Let_def runOf_def emptyRing_def unusableLocked_def split: prod.split)
  from known_dispatch_replayed [OF sample_digest runOfMsg k(1,2,3,5) prod.collapse [symmetric]] k(4) show ?thesis by simp
qed

theorem cancel_before_dispatch_witness:
  "cliHandlers (snd (startRun sampleEnv runMsg (cancelRun ''r'' sampleClient))) = []
   \<and> (\<exists>r. answered ''r'' r (snd (startRun sampleEnv runMsg (cancelRun ''r'' sampleClient))) \<and> Status r = ''cancelled'')"
proof -
  have k: "runOf sampleClient ''r'' = None" "\<not> containsId ''r'' (cliRing sampleClient)" "''r'' \<noteq> ''''"
    "cliHandlers sampleClient = []" "\<not> cliClosing sampleClient" by code_simp+
  have "fst (reserve (envLine sampleEnv) ''r'' sampleDigest (cliRing sampleClient) (cliWorld sampleClient)) = Inr (reservationNew, zeroResult)"
    by code_simp
  then obtain d w where "reserve (envLine sampleEnv) ''r'' sampleDigest (cliRing sampleClient) (cliWorld sampleClient) = (Inr (reservationNew, zeroResult), d, w)"
    by (metis prod.collapse)
  with cancel_before_dispatch [OF k(1-3) runOfMsg prod.collapse [symmetric]] k(4,5) sample_digest(1) show ?thesis by fastforce
qed

end
