(* ===== verification/Spec2Isabelle.thy ===== *)
theory Spec2Isabelle
  imports Admission Client_Props
begin

text \<open>
  A model of the emisar runner, the Go daemon under \<open>src/runner\<close> that receives signed or
  policy-approved action dispatches from a control plane and executes them on a host.
\<close>

end
